(* ===== verification/Prelude.thy ===== *)
theory Prelude
  imports Main "HOL-Library.Word"
begin

text \<open>
  What every component of the development shares: the machine integers the Rust code uses, the
  byte order of the wire (\<open>to_le_bytes\<close>, \<open>from_le_bytes\<close> and their big-endian counterparts),
  and the shape of a fallible operation on a mutable object. A Rust method
  \<open>fn op(&mut self, ..) -> Result<A, E>\<close> is an \<^emph>\<open>action\<close>: it takes the object, and returns
  either the error or the value together with the object as the call left it, on the error
  paths too. \<open>andthen\<close> is sequencing with the operator \<open>?\<close>: an error returns early and
  keeps the state reached so far.
\<close>

unbundle bit_operations_syntax

section \<open>Machine integers\<close>

type_synonym u8 = "8 word"
type_synonym u16 = "16 word"
type_synonym u32 = "32 word"
type_synonym u64 = "64 word"
type_synonym bytes = "8 word list"

text \<open>The facts that evaluate constants of the components; each component adds its own.\<close>

named_theorems const_defs "numeric constants of the code"

text \<open>A \<open>usize\<close> of the 64-bit targets the crate is built for: \<open>checked_add\<close> fails on overflow.\<close>

definition usize_checked_add :: "nat \<Rightarrow> nat \<Rightarrow> nat option" where
  "usize_checked_add a b = (if a + b < 2 ^ 64 then Some (a + b) else None)"

text \<open>\<open>u64::saturating_add\<close> and \<open>u8::saturating_add\<close> by one.\<close>

definition saturating_inc :: "'a::len word \<Rightarrow> 'a word" where
  "saturating_inc w = (if w = - 1 then w else w + 1)"

section \<open>Bits of a byte\<close>

text \<open>Two bytes with the same eight bits are equal; a byte masked with one bit is a bit test.\<close>

lemma less_8_cases:
  "n < (8::nat) \<Longrightarrow> n = 0 \<or> n = 1 \<or> n = 2 \<or> n = 3 \<or> n = 4 \<or> n = 5 \<or> n = 6 \<or> n = 7"
  by arith

lemma u8_eqI:
  fixes v w :: u8
  assumes "bit v 0 = bit w 0" "bit v 1 = bit w 1" "bit v 2 = bit w 2" "bit v 3 = bit w 3"
    "bit v 4 = bit w 4" "bit v 5 = bit w 5" "bit v 6 = bit w 6" "bit v 7 = bit w 7"
  shows "v = w"
proof (rule bit_word_eqI)
  fix n assume "n < LENGTH(8)"
  then show "bit v n = bit w n" using less_8_cases [of n] assms by auto
qed

lemma and_single_bit:
  fixes c :: u8
  shows "c AND 0x01 = (if bit c 0 then 0x01 else 0)" "c AND 0x02 = (if bit c 1 then 0x02 else 0)"
    "c AND 0x04 = (if bit c 2 then 0x04 else 0)" "c AND 0x08 = (if bit c 3 then 0x08 else 0)"
    "c AND 0x10 = (if bit c 4 then 0x10 else 0)" "c AND 0x80 = (if bit c 7 then 0x80 else 0)"
  by (rule u8_eqI; simp add: bit_simps)+

lemma u8_bit_tests:
  fixes c :: u8
  shows "c AND 0x01 = 0 \<longleftrightarrow> \<not> bit c 0" "c AND 0x02 = 0 \<longleftrightarrow> \<not> bit c 1"
    "c AND 0x04 = 0 \<longleftrightarrow> \<not> bit c 2" "c AND 0x08 = 0 \<longleftrightarrow> \<not> bit c 3"
    "c AND 0x10 = 0 \<longleftrightarrow> \<not> bit c 4" "c AND 0x80 = 0 \<longleftrightarrow> \<not> bit c 7"
  by (simp_all only: and_single_bit split: if_split) simp_all

section \<open>Little-endian and big-endian bytes\<close>

primrec le_bytes :: "nat \<Rightarrow> 'a::len word \<Rightarrow> bytes" where
  "le_bytes 0 w = []"
| "le_bytes (Suc n) w = ucast w # le_bytes n (drop_bit 8 w)"

primrec le_word :: "bytes \<Rightarrow> 'a::len word" where
  "le_word [] = 0"
| "le_word (b # bs) = ucast b OR push_bit 8 (le_word bs)"

lemma length_le_bytes [simp]: "length (le_bytes n w) = n"
  by (induction n arbitrary: w) auto

lemma drop_bit_8_le_word:
  "LENGTH('a) \<ge> 8 \<Longrightarrow> ucast (ucast b OR push_bit 8 (v :: 'a::len word)) = (b :: u8)"
  by (rule bit_word_eqI) (auto simp: bit_simps)

lemma le_bytes_2: "le_bytes 2 w = [ucast w, ucast (drop_bit 8 w)]"
  by (simp add: numeral_2_eq_2)

lemma le_word_le_bytes_take:
  "le_word (le_bytes n (w :: 'a::len word)) = take_bit (8 * n) w"
proof (induction n arbitrary: w)
  case 0
  then show ?case by simp
next
  case (Suc n)
  show ?case
    by (rule bit_word_eqI) (auto simp: Suc.IH bit_simps)
qed

lemma le_word_le_bytes [simp]:
  "LENGTH('a) \<le> 8 * n \<Longrightarrow> le_word (le_bytes n (w :: 'a::len word)) = w"
  by (simp add: le_word_le_bytes_take take_bit_word_eq_self)

lemma ucast_ucast_le [simp]:
  "LENGTH('a::len) \<ge> 8 \<Longrightarrow> ucast (ucast b :: 'a word) = (b :: u8)"
  by (rule bit_word_eqI) (auto simp: bit_simps)

lemma drop_bit_le_word:
  "LENGTH('a) \<ge> 8 + 8 * length bs \<Longrightarrow>
   drop_bit 8 (ucast (b :: u8) OR push_bit 8 (le_word bs :: 'a::len word)) = (le_word bs :: 'a word)"
proof (rule bit_word_eqI)
  fix n
  assume len: "LENGTH('a) \<ge> 8 + 8 * length bs" and n: "n < LENGTH('a)"
  have small: "\<not> bit (le_word bs :: 'a word) m" if "8 * length bs \<le> m" for m bs
    using that
  proof (induction bs arbitrary: m)
    case Nil
    then show ?case by simp
  next
    case (Cons c cs)
    from Cons.prems have "8 * length cs \<le> m - 8" "8 \<le> m" by auto
    with Cons.IH show ?case by (auto simp: bit_simps dest: bit_imp_le_length)
  qed
  show "bit (drop_bit 8 (ucast b OR push_bit 8 (le_word bs :: 'a word))) n = bit (le_word bs :: 'a word) n"
    using len n small [of bs n] by (auto simp: bit_simps dest: bit_imp_le_length)
qed

lemma le_bytes_le_word [simp]:
  "8 * length bs \<le> LENGTH('a) \<Longrightarrow> le_bytes (length bs) (le_word bs :: 'a::len word) = bs"
proof (induction bs)
  case Nil
  then show ?case by simp
next
  case (Cons b bs)
  then show ?case
    by (simp add: drop_bit_8_le_word drop_bit_le_word del: drop_bit_or)
qed

lemma le_bytes_le_word':
  "length bs = n \<Longrightarrow> 8 * n \<le> LENGTH('a) \<Longrightarrow> le_bytes n (le_word bs :: 'a::len word) = bs"
  by auto

definition be_bytes16 :: "u16 \<Rightarrow> bytes" where
  "be_bytes16 w = rev (le_bytes 2 w)"

definition be_word16 :: "u8 \<Rightarrow> u8 \<Rightarrow> u16" where
  "be_word16 hi lo = le_word [lo, hi]"

lemma be_bytes16_split: "\<exists>hi lo. be_bytes16 w = [hi, lo] \<and> be_word16 hi lo = w"
proof -
  obtain lo hi where b: "le_bytes 2 w = [lo, hi]"
    by (auto simp: numeral_2_eq_2)
  have "le_word (le_bytes 2 w) = w" by simp
  with b show ?thesis by (simp add: be_bytes16_def be_word16_def)
qed

section \<open>Lists of a known length\<close>

lemma length_2E:
  assumes "length xs = 2" obtains x y where "xs = [x, y]"
  using assms by (auto simp: length_Suc_conv numeral_2_eq_2)

lemma length_4E:
  assumes "length xs = 4" obtains a b c d where "xs = [a, b, c, d]"
  using assms by (auto simp: length_Suc_conv numeral_eq_Suc)

section \<open>Actions: fallible operations on a mutable object\<close>

type_synonym ('s, 'e, 'a) action = "'s \<Rightarrow> ('e + 'a) \<times> 's"

definition ret :: "'a \<Rightarrow> ('s, 'e, 'a) action" where
  "ret x s = (Inr x, s)"

definition throw :: "'e \<Rightarrow> ('s, 'e, 'a) action" where
  "throw e s = (Inl e, s)"

definition andthen :: "('s, 'e, 'a) action \<Rightarrow> ('a \<Rightarrow> ('s, 'e, 'b) action) \<Rightarrow> ('s, 'e, 'b) action" where
  "andthen m f s = (case m s of (Inl e, s') \<Rightarrow> (Inl e, s') | (Inr x, s') \<Rightarrow> f x s')"

lemma ret_apply [simp]: "ret x s = (Inr x, s)"
  by (simp add: ret_def)

lemma throw_apply [simp]: "throw e s = (Inl e, s)"
  by (simp add: throw_def)

lemma andthen_Inr [simp]: "m s = (Inr x, s') \<Longrightarrow> andthen m f s = f x s'"
  by (simp add: andthen_def)

lemma andthen_Inl [simp]: "m s = (Inl e, s') \<Longrightarrow> andthen m f s = (Inl e, s')"
  by (simp add: andthen_def)

lemma andthen_ret_left [simp]: "andthen (ret x) f = f x"
  by (rule ext) simp

lemma andthen_assoc: "andthen (andthen m f) g = andthen m (\<lambda>x. andthen (f x) g)"
  by (rule ext) (auto simp: andthen_def split: prod.splits sum.splits)

lemma andthen_eq_Inr:
  "andthen m f s = (Inr y, t) \<longleftrightarrow> (\<exists>x s'. m s = (Inr x, s') \<and> f x s' = (Inr y, t))"
  by (auto simp: andthen_def split: prod.splits sum.splits)

lemma andthen_eq_Inl:
  "andthen m f s = (Inl e, t) \<longleftrightarrow>
   m s = (Inl e, t) \<or> (\<exists>x s'. m s = (Inr x, s') \<and> f x s' = (Inl e, t))"
  by (auto simp: andthen_def split: prod.splits sum.splits)

end
