(* ===== verification/AshError.thy ===== *)
theory AshError
  imports Prelude
begin

text \<open>
  The failures of the ASH layer (\<open>ash/error.rs\<close>): one constructor per variant of
  \<open>AshError\<close>, fields in the source's order, and the predicate that decides whether a rejected
  frame is answered with a NAK. Constructors whose name also occurs in \<open>EzspError\<close> carry the
  prefix \<open>Ash\<close>.
\<close>

datatype ash_error =
    BadCrc (computed: u16) (carried: u16)
  | TooShort nat nat
  | TooLong nat nat
  | InvalidControl u8 nat
  | Cancelled
  | Substituted
  | AshNcpError u8 u8
  | AshNcpReset u8 u8
  | ResetFailed
  | OutOfSequence u8 u8
  | AshNotConnected
  | AshTimeout
  | WindowFull nat nat

fun is_recoverable_by_nak :: "ash_error \<Rightarrow> bool" where
  "is_recoverable_by_nak (BadCrc _ _) = True"
| "is_recoverable_by_nak Substituted = True"
| "is_recoverable_by_nak _ = False"

end
