(* ===== verification/AshFrame.thy ===== *)
theory AshFrame
  imports AshError
begin

text \<open>
  ASH frames and their control byte (\<open>ash/frame.rs\<close>): the frame kinds as a datatype, the
  packing of a frame into a control byte and a body, and the parser \<open>from_parts\<close> that checks
  the length against the kind. The lemmas show that packing and parsing are inverse up to the
  reduction of the three-bit sequence numbers, and characterise what the parser accepts.
\<close>

section \<open>Constants\<close>

definition ASH_VERSION :: u8 where [const_defs]: "ASH_VERSION = 2"
definition MAX_DATA_FIELD_LEN :: nat where [const_defs]: "MAX_DATA_FIELD_LEN = 128"
definition SEQUENCE_MODULUS :: u8 where [const_defs]: "SEQUENCE_MODULUS = 8"
definition CONTROL_DATA_MASK :: u8 where [const_defs]: "CONTROL_DATA_MASK = 0x80"
definition CONTROL_SHORT_MASK :: u8 where [const_defs]: "CONTROL_SHORT_MASK = 0xe0"
definition ACK_NUM_MASK :: u8 where [const_defs]: "ACK_NUM_MASK = 0x07"
definition FRAME_NUM_MASK :: u8 where [const_defs]: "FRAME_NUM_MASK = 0x70"
definition FRAME_NUM_SHIFT :: nat where [const_defs]: "FRAME_NUM_SHIFT = 4"
definition RETRANSMIT_MASK :: u8 where [const_defs]: "RETRANSMIT_MASK = 0x08"
definition NOT_READY_MASK :: u8 where [const_defs]: "NOT_READY_MASK = 0x08"
definition CONTROL_ACK :: u8 where [const_defs]: "CONTROL_ACK = 0x80"
definition CONTROL_NAK :: u8 where [const_defs]: "CONTROL_NAK = 0xa0"
definition CONTROL_RST :: u8 where [const_defs]: "CONTROL_RST = 0xc0"
definition CONTROL_RSTACK :: u8 where [const_defs]: "CONTROL_RSTACK = 0xc1"
definition CONTROL_ERROR :: u8 where [const_defs]: "CONTROL_ERROR = 0xc2"

section \<open>Frames\<close>

datatype ash_frame =
    Data (frame_num: u8) (ack_num: u8) (retransmit: bool) (payload: bytes)
  | Ack (ack_num: u8) (not_ready: bool)
  | Nak (ack_num: u8) (not_ready: bool)
  | Rst
  | RstAck u8 u8
  | Error u8 u8

fun control :: "ash_frame \<Rightarrow> u8" where
  "control (Data fn an rt _) =
     push_bit FRAME_NUM_SHIFT (fn mod SEQUENCE_MODULUS)
       OR (if rt then RETRANSMIT_MASK else 0) OR (an mod SEQUENCE_MODULUS)"
| "control (Ack an nr) =
     CONTROL_ACK OR (if nr then NOT_READY_MASK else 0) OR (an mod SEQUENCE_MODULUS)"
| "control (Nak an nr) =
     CONTROL_NAK OR (if nr then NOT_READY_MASK else 0) OR (an mod SEQUENCE_MODULUS)"
| "control Rst = CONTROL_RST"
| "control (RstAck _ _) = CONTROL_RSTACK"
| "control (Error _ _) = CONTROL_ERROR"

fun body :: "ash_frame \<Rightarrow> bytes" where
  "body (Data _ _ _ p) = p"
| "body (RstAck version reset_code) = [version, reset_code]"
| "body (Error version error_code) = [version, error_code]"
| "body (Ack _ _) = []"
| "body (Nak _ _) = []"
| "body Rst = []"

fun acknowledges :: "ash_frame \<Rightarrow> u8 option" where
  "acknowledges (Data _ an _ _) = Some an"
| "acknowledges (Ack an _) = Some an"
| "acknowledges (Nak an _) = Some an"
| "acknowledges _ = None"

text \<open>\<open>AshFrame::from_parts\<close>; the branches are in the source's order.\<close>

definition from_parts :: "u8 \<Rightarrow> bytes \<Rightarrow> ash_error + ash_frame" where
  "from_parts c b =
     (let invalid = InvalidControl c (length b) in
      if c AND CONTROL_DATA_MASK = 0 then
        (if length b > MAX_DATA_FIELD_LEN then Inl (TooLong (length b) MAX_DATA_FIELD_LEN)
         else Inr (Data (drop_bit FRAME_NUM_SHIFT (c AND FRAME_NUM_MASK)) (c AND ACK_NUM_MASK)
                     (c AND RETRANSMIT_MASK \<noteq> 0) b))
      else if c = CONTROL_RST then
        (if b = [] then Inr Rst else Inl invalid)
      else if c = CONTROL_RSTACK then
        (case b of [version, reset_code] \<Rightarrow> Inr (RstAck version reset_code) | _ \<Rightarrow> Inl invalid)
      else if c = CONTROL_ERROR then
        (case b of [version, error_code] \<Rightarrow> Inr (Error version error_code) | _ \<Rightarrow> Inl invalid)
      else if b \<noteq> [] then Inl invalid
      else
        (let an = c AND ACK_NUM_MASK; nr = (c AND NOT_READY_MASK \<noteq> 0) in
         if c AND CONTROL_SHORT_MASK = CONTROL_ACK then Inr (Ack an nr)
         else if c AND CONTROL_SHORT_MASK = CONTROL_NAK then Inr (Nak an nr)
         else Inl invalid))"

text \<open>\<open>n + 1\<close> is on \<open>u8\<close>; on the sequence numbers in use (below 8) it does not overflow.\<close>

definition next_sequence :: "u8 \<Rightarrow> u8" where
  "next_sequence n = (n + 1) mod SEQUENCE_MODULUS"

section \<open>What the wire can express\<close>

text \<open>The reduction of the sequence numbers that packing performs.\<close>

fun reduce_frame :: "ash_frame \<Rightarrow> ash_frame" where
  "reduce_frame (Data fn an rt p) = Data (fn mod 8) (an mod 8) rt p"
| "reduce_frame (Ack an nr) = Ack (an mod 8) nr"
| "reduce_frame (Nak an nr) = Nak (an mod 8) nr"
| "reduce_frame f = f"

fun wf_frame :: "ash_frame \<Rightarrow> bool" where
  "wf_frame (Data fn an rt p) \<longleftrightarrow> fn < 8 \<and> an < 8 \<and> length p \<le> MAX_DATA_FIELD_LEN"
| "wf_frame (Ack an nr) \<longleftrightarrow> an < 8"
| "wf_frame (Nak an nr) \<longleftrightarrow> an < 8"
| "wf_frame _ \<longleftrightarrow> True"

lemma mod_8_word: "(w :: u8) mod 8 = take_bit 3 w"
  by (simp add: take_bit_eq_mod)

lemma mod_8_idem: "(w :: u8) < 8 \<Longrightarrow> w mod 8 = w"
  by (simp add: mod_word_less)

lemma mod_8_less: "(w :: u8) mod 8 < 8"
  by (simp add: word_mod_less_divisor)

lemma reduce_wf [simp]: "wf_frame f \<Longrightarrow> reduce_frame f = f"
  by (cases f) (auto simp: mod_8_idem)

lemma wf_reduce:
  "(\<And>fn an rt p. f = Data fn an rt p \<Longrightarrow> length p \<le> MAX_DATA_FIELD_LEN) \<Longrightarrow> wf_frame (reduce_frame f)"
  by (cases f) (auto simp: mod_8_less)

lemma body_reduce [simp]: "body (reduce_frame f) = body f"
  by (cases f) auto

lemma control_reduce [simp]: "control (reduce_frame f) = control f"
  by (cases f) (auto simp: const_defs mod_8_word)

text \<open>The three groups of control bytes, told apart by their two top bits.\<close>

lemma fixed_controls_bit_6:
  fixes c :: u8
  assumes "\<not> bit c 6"
  shows "c \<noteq> 0xc0" "c \<noteq> 0xc1" "c \<noteq> 0xc2"
  using assms by (auto simp: bit_simps)

lemma short_mask:
  fixes c :: u8
  shows "c AND 0xe0 = 0x80 \<longleftrightarrow> bit c 7 \<and> \<not> bit c 6 \<and> \<not> bit c 5"
    "c AND 0xe0 = 0xa0 \<longleftrightarrow> bit c 7 \<and> \<not> bit c 6 \<and> bit c 5"
proof -
  have b: "c AND 0xe0 = w \<Longrightarrow> bit (c AND 0xe0) n = bit w n" for w n by simp
  have "c AND 0xe0 = (if bit c 7 then 0x80 else 0) OR (if bit c 6 then 0x40 else 0) OR (if bit c 5 then 0x20 else 0)"
    by (rule u8_eqI; simp add: bit_simps)
  then show "c AND 0xe0 = 0x80 \<longleftrightarrow> bit c 7 \<and> \<not> bit c 6 \<and> \<not> bit c 5"
    "c AND 0xe0 = 0xa0 \<longleftrightarrow> bit c 7 \<and> \<not> bit c 6 \<and> bit c 5"
    by (auto split: if_splits)
qed

lemma from_parts_data:
  assumes "\<not> bit c 7"
  shows "from_parts c b =
    (if length b > 128 then Inl (TooLong (length b) 128)
     else Inr (Data (drop_bit 4 (c AND 0x70)) (c AND 7) (bit c 3) b))"
  using assms by (simp add: from_parts_def Let_def const_defs u8_bit_tests)

lemma from_parts_short:
  assumes "bit c 7" and "\<not> bit c 6"
  shows "from_parts c b =
    (if b \<noteq> [] then Inl (InvalidControl c (length b))
     else Inr (if bit c 5 then Nak (c AND 7) (bit c 3) else Ack (c AND 7) (bit c 3)))"
  using assms fixed_controls_bit_6 [OF assms(2)]
  by (simp add: from_parts_def Let_def const_defs u8_bit_tests short_mask)

lemma from_parts_fixed:
  assumes "bit c 7" and "bit c 6"
  shows "from_parts c b =
    (if c = 0xc0 \<and> b = [] then Inr Rst
     else if c = 0xc1 \<and> length b = 2 then Inr (RstAck (b ! 0) (b ! 1))
     else if c = 0xc2 \<and> length b = 2 then Inr (Error (b ! 0) (b ! 1))
     else Inl (InvalidControl c (length b)))"
  using assms
  by (auto simp add: from_parts_def Let_def const_defs u8_bit_tests short_mask split: list.split)

text \<open>The fields of a packed control byte.\<close>

lemma control_data:
  "\<not> bit (control (Data fn an rt p)) 7" "bit (control (Data fn an rt p)) 3 \<longleftrightarrow> rt"
  "drop_bit 4 (control (Data fn an rt p) AND 0x70) = fn mod 8" "control (Data fn an rt p) AND 7 = an mod 8"
proof -
  show "drop_bit 4 (control (Data fn an rt p) AND 0x70) = fn mod 8" "control (Data fn an rt p) AND 7 = an mod 8"
    unfolding control.simps const_defs mod_8_word by (rule u8_eqI; simp add: bit_simps)+
qed (simp_all add: const_defs mod_8_word bit_simps)

lemma control_ack:
  "bit (control (Ack an nr)) 7" "\<not> bit (control (Ack an nr)) 6" "\<not> bit (control (Ack an nr)) 5"
  "bit (control (Ack an nr)) 3 \<longleftrightarrow> nr" "control (Ack an nr) AND 7 = an mod 8"
proof -
  show "control (Ack an nr) AND 7 = an mod 8"
    unfolding control.simps const_defs mod_8_word by (rule u8_eqI; simp add: bit_simps)
qed (simp_all add: const_defs mod_8_word bit_simps)

lemma control_nak:
  "bit (control (Nak an nr)) 7" "\<not> bit (control (Nak an nr)) 6" "bit (control (Nak an nr)) 5"
  "bit (control (Nak an nr)) 3 \<longleftrightarrow> nr" "control (Nak an nr) AND 7 = an mod 8"
proof -
  show "control (Nak an nr) AND 7 = an mod 8"
    unfolding control.simps const_defs mod_8_word by (rule u8_eqI; simp add: bit_simps)
qed (simp_all add: const_defs mod_8_word bit_simps)

lemma control_fixed:
  "bit CONTROL_RST 7" "bit CONTROL_RST 6" "bit CONTROL_RSTACK 7" "bit CONTROL_RSTACK 6"
  "bit CONTROL_ERROR 7" "bit CONTROL_ERROR 6"
  by (simp_all add: const_defs)

lemma from_parts_control_body:
  assumes "length (body f) \<le> MAX_DATA_FIELD_LEN"
  shows "from_parts (control f) (body f) = Inr (reduce_frame f)"
proof (cases f)
  case (Data fn an rt p)
  with assms show ?thesis
    by (simp add: from_parts_data control_data const_defs del: control.simps drop_bit_and)
next
  case (Ack an nr)
  then show ?thesis by (simp add: from_parts_short control_ack del: control.simps)
next
  case (Nak an nr)
  then show ?thesis by (simp add: from_parts_short control_nak del: control.simps)
qed (simp_all add: from_parts_fixed control_fixed, simp_all add: const_defs)

text \<open>Packing what was parsed gives the control byte back, but for the reserved bit 4 of ACK and NAK.\<close>

definition canonical_control :: "u8 \<Rightarrow> u8" where
  "canonical_control c = (if bit c 7 \<and> \<not> bit c 6 then c AND 0xef else c)"

lemma pack_data_fields:
  fixes c :: u8
  assumes "\<not> bit c 7"
  shows "control (Data (drop_bit 4 (c AND 0x70)) (c AND 7) (bit c 3) b) = c"
  using assms unfolding control.simps const_defs mod_8_word by (intro u8_eqI; simp add: bit_simps)

lemma pack_short_fields:
  fixes c :: u8
  assumes "bit c 7" and "\<not> bit c 6"
  shows "control (if bit c 5 then Nak (c AND 7) (bit c 3) else Ack (c AND 7) (bit c 3)) = c AND 0xef"
  using assms unfolding if_distrib [of control] control.simps const_defs mod_8_word
  by (cases "bit c 5"; intro u8_eqI; simp add: bit_simps)

lemma and_7_less: "(c :: u8) AND 7 < 8"
  by (rule le_less_trans [OF word_and_le1]) simp

lemma drop_and_less: "drop_bit 4 ((c :: u8) AND 0x70) < 8"
proof -
  have "drop_bit 4 (c AND 0x70) = (drop_bit 4 c) AND 7" by (rule u8_eqI; simp add: bit_simps)
  then show ?thesis by (simp only: and_7_less)
qed

lemma from_parts_sound:
  assumes "from_parts c b = Inr f"
  shows "wf_frame f \<and> body f = b \<and> control f = canonical_control c"
proof -
  consider "\<not> bit c 7" | "bit c 7" "\<not> bit c 6" | "bit c 7" "bit c 6" by blast
  then show ?thesis
  proof cases
    case 1
    with assms pack_data_fields [OF 1] show ?thesis
      by (auto simp: from_parts_data canonical_control_def and_7_less drop_and_less const_defs
          simp del: control.simps drop_bit_and split: if_splits)
  next
    case 2
    with assms pack_short_fields [OF 2] show ?thesis
      by (auto simp: from_parts_short canonical_control_def and_7_less simp del: control.simps
          split: if_splits)
  next
    case 3
    with assms show ?thesis
      by (auto simp: from_parts_fixed canonical_control_def const_defs length_Suc_conv numeral_2_eq_2
          split: if_splits)
  qed
qed

lemma canonical_bits:
  "bit (canonical_control c) n \<longleftrightarrow> bit c n \<and> (n = 4 \<longrightarrow> \<not> bit c 7 \<or> bit c 6)"
proof -
  have "bit (c AND 0xef) n \<longleftrightarrow> bit c n \<and> n \<noteq> 4"
  proof (cases "n < 8")
    case True
    then show ?thesis using less_8_cases [of n] by (auto simp: bit_simps)
  next
    case False
    then show ?thesis by (auto simp: bit_simps dest: bit_imp_le_length)
  qed
  then show ?thesis by (auto simp: canonical_control_def)
qed

lemma from_parts_canonical:
  "from_parts (canonical_control c) b = Inr f \<longleftrightarrow> from_parts c b = Inr f"
proof (cases "bit c 7 \<and> \<not> bit c 6")
  case True
  then have s: "bit (canonical_control c) 7" "\<not> bit (canonical_control c) 6"
    by (simp_all add: canonical_bits)
  have "canonical_control c AND 7 = c AND 7"
    by (rule u8_eqI; simp add: bit_simps canonical_bits)
  with True s show ?thesis by (simp add: from_parts_short canonical_bits)
next
  case False
  then show ?thesis by (auto simp: canonical_control_def)
qed

lemma wf_frame_body: "wf_frame f \<Longrightarrow> length (body f) \<le> MAX_DATA_FIELD_LEN"
  by (cases f) (auto simp: const_defs)

text \<open>
  C36. The parser of ASH frames accepts exactly the packings of well-formed frames. A control byte
  and a body parse to \<open>f\<close> if and only if \<open>f\<close> is well formed (three-bit sequence numbers, a data
  field of at most 128 bytes), the body is the body of \<open>f\<close>, and the control byte is the control
  byte of \<open>f\<close> up to the one reserved bit that ACK and NAK leave unused.
\<close>

theorem from_parts_exact:
  "from_parts c b = Inr f \<longleftrightarrow> wf_frame f \<and> body f = b \<and> control f = canonical_control c"
proof
  assume "wf_frame f \<and> body f = b \<and> control f = canonical_control c"
  then have "from_parts (canonical_control c) b = Inr f"
    using from_parts_control_body [of f] wf_frame_body [of f] by (metis reduce_wf)
  then show "from_parts c b = Inr f" by (simp only: from_parts_canonical)
qed (rule from_parts_sound)

lemma from_parts_errors:
  "from_parts c b = Inl e \<Longrightarrow> e = TooLong (length b) 128 \<or> e = InvalidControl c (length b)"
  by (auto simp: from_parts_def Let_def const_defs split: if_splits list.splits)

lemma next_sequence_less: "next_sequence n < 8"
  by (simp add: next_sequence_def const_defs mod_8_less)

end
