(* ===== verification/AshConnection.thy ===== *)
theory AshConnection
  imports AshFrame "HOL-Library.Sublist"
begin

text \<open>
  The ASH connection state machine (\<open>ash/state.rs\<close>): reset handshake, three-bit sequence
  numbers, the window of frames sent and not yet acknowledged, retransmission and NAK. Every
  method is a function of the connection that returns its value and the connection it leaves.
  The lemmas give each method on each branch, and the invariant that all of them keep: the
  frames in flight carry consecutive numbers that end right before the next one to send.
\<close>

section \<open>State\<close>

definition MAX_RESET_ATTEMPTS :: u8 where [const_defs]: "MAX_RESET_ATTEMPTS = 5"
definition MAX_RETRANSMITS :: u8 where [const_defs]: "MAX_RETRANSMITS = 3"
definition MAX_WINDOW :: nat where [const_defs]: "MAX_WINDOW = 7"

datatype connection_state =
    Disconnected
  | Resetting (attempts: u8)
  | Connected
  | Failed

datatype outbound =
    Send ash_frame
  | Nothing

record in_flight_frame =
  flight_num :: u8
  flight_payload :: bytes
  sends :: u8

record connection =
  state :: connection_state
  next_tx_frame :: u8
  next_rx_frame :: u8
  in_flight :: "in_flight_frame list"
  ack_pending :: bool
  nak_pending :: bool

definition connection_new :: connection where
  "connection_new = \<lparr>state = Disconnected, next_tx_frame = 0, next_rx_frame = 0,
     in_flight = [], ack_pending = False, nak_pending = False\<rparr>"

definition is_connected :: "connection \<Rightarrow> bool" where
  "is_connected c \<longleftrightarrow> (case state c of Connected \<Rightarrow> True | _ \<Rightarrow> False)"

definition in_flight_count :: "connection \<Rightarrow> nat" where
  "in_flight_count c = length (in_flight c)"

section \<open>Operations\<close>

definition begin_reset :: "connection \<Rightarrow> outbound \<times> connection" where
  "begin_reset c =
     (let attempts = (case state c of Resetting n \<Rightarrow> n | _ \<Rightarrow> 0) in
      if attempts \<ge> MAX_RESET_ATTEMPTS then (Nothing, c\<lparr>state := Failed\<rparr>)
      else (Send Rst,
        c\<lparr>state := Resetting (saturating_inc attempts), next_tx_frame := 0, next_rx_frame := 0,
          in_flight := [], ack_pending := False, nak_pending := False\<rparr>))"

definition send_data :: "bytes \<Rightarrow> (connection, ash_error, ash_frame) action" where
  "send_data p c =
     (if \<not> is_connected c then (Inl AshNotConnected, c)
      else if length (in_flight c) \<ge> MAX_WINDOW
      then (Inl (WindowFull (length (in_flight c)) MAX_WINDOW), c)
      else
        (let n = next_tx_frame c in
         (Inr (Data n (next_rx_frame c) False p),
          c\<lparr>next_tx_frame := next_sequence n,
            in_flight := in_flight c @ [\<lparr>flight_num = n, flight_payload = p, sends = 1\<rparr>],
            ack_pending := False\<rparr>)))"

definition retransmit_oldest :: "connection \<Rightarrow> outbound \<times> connection" where
  "retransmit_oldest c =
     (case in_flight c of
        [] \<Rightarrow> (Nothing, c)
      | oldest # rest \<Rightarrow>
          if sends oldest \<ge> MAX_RETRANSMITS then (Nothing, c\<lparr>state := Failed\<rparr>)
          else (Send (Data (flight_num oldest) (next_rx_frame c) True (flight_payload oldest)),
            c\<lparr>in_flight := oldest\<lparr>sends := saturating_inc (sends oldest)\<rparr> # rest\<rparr>))"

text \<open>\<open>Iterator::position\<close>, then \<open>unwrap_or(len)\<close> and \<open>drain(..cut)\<close>.\<close>

primrec position :: "('b \<Rightarrow> bool) \<Rightarrow> 'b list \<Rightarrow> nat option" where
  "position P [] = None"
| "position P (x # xs) = (if P x then Some 0 else map_option Suc (position P xs))"

definition retire_acknowledged :: "u8 \<Rightarrow> connection \<Rightarrow> connection" where
  "retire_acknowledged a c =
     (let cut = (case position (\<lambda>f. flight_num f = a) (in_flight c) of
                   Some i \<Rightarrow> i | None \<Rightarrow> length (in_flight c))
      in c\<lparr>in_flight := drop cut (in_flight c)\<rparr>)"

definition on_frame :: "ash_frame \<Rightarrow> connection \<Rightarrow> (bytes option \<times> outbound) \<times> connection" where
  "on_frame f c =
     (case f of
        RstAck _ _ \<Rightarrow>
          ((None, Nothing),
           c\<lparr>state := Connected, next_tx_frame := 0, next_rx_frame := 0, in_flight := [],
             ack_pending := False, nak_pending := False\<rparr>)
      | Error _ _ \<Rightarrow> ((None, Nothing), c\<lparr>state := Failed, in_flight := []\<rparr>)
      | Ack an _ \<Rightarrow> ((None, Nothing), retire_acknowledged an c)
      | Nak an _ \<Rightarrow>
          (let (out, c') = retransmit_oldest (retire_acknowledged an c) in ((None, out), c'))
      | Rst \<Rightarrow> ((None, Nothing), c)
      | Data fn an _ p \<Rightarrow>
          (let c1 = retire_acknowledged an c in
           if fn = next_rx_frame c1 then
             (let c2 = c1\<lparr>next_rx_frame := next_sequence fn, nak_pending := False\<rparr>
              in ((Some p, Send (Ack (next_rx_frame c2) False)), c2))
           else ((None, Send (Ack (next_rx_frame c1) False)), c1)))"

definition on_decode_failure :: "ash_error \<Rightarrow> connection \<Rightarrow> outbound \<times> connection" where
  "on_decode_failure e c =
     (if is_recoverable_by_nak e
      then (Send (Nak (next_rx_frame c) False), c\<lparr>nak_pending := True\<rparr>)
      else (Nothing, c))"

section \<open>The invariant\<close>

text \<open>
  The number of the frame with index \<open>n\<close>, counted from the last reset. The frames in flight
  carry the numbers of consecutive indices.
\<close>

definition seq_num :: "nat \<Rightarrow> u8" where
  "seq_num n = word_of_nat (n mod 8)"

definition flight_from :: "nat \<Rightarrow> in_flight_frame list \<Rightarrow> bool" where
  "flight_from b fs \<longleftrightarrow> map flight_num fs = map seq_num [b..<b + length fs]"

definition wf_connection :: "connection \<Rightarrow> bool" where
  "wf_connection c \<longleftrightarrow>
     next_rx_frame c < 8 \<and> length (in_flight c) \<le> MAX_WINDOW \<and>
     (\<exists>b < 8. flight_from b (in_flight c) \<and> next_tx_frame c = seq_num (b + length (in_flight c))) \<and>
     (\<forall>f \<in> set (in_flight c). 1 \<le> sends f \<and> sends f \<le> MAX_RETRANSMITS) \<and>
     (\<forall>n. state c = Resetting n \<longrightarrow> 1 \<le> n \<and> n \<le> MAX_RESET_ATTEMPTS \<and> in_flight c = []) \<and>
     (state c = Disconnected \<longrightarrow> in_flight c = []) \<and>
     \<not> ack_pending c"

lemma seq_num_mod [simp]: "seq_num (n mod 8) = seq_num n"
  by (simp add: seq_num_def)

lemma unat_seq_num [simp]: "unat (seq_num n) = n mod 8"
proof -
  have "n mod 8 < 8" by simp
  then show ?thesis by (simp add: seq_num_def unat_of_nat take_bit_nat_eq_self)
qed

lemma seq_num_eq_iff: "seq_num m = seq_num n \<longleftrightarrow> m mod 8 = n mod 8"
  by (metis unat_seq_num seq_num_mod)

lemma seq_num_less [simp]: "seq_num n < 8"
  by (simp add: word_less_nat_alt)

lemma seq_num_0 [simp]: "seq_num 0 = 0"
  by (simp add: seq_num_def)

lemma next_sequence_seq_num [simp]: "next_sequence (seq_num n) = seq_num (Suc n)"
proof -
  have a: "unat (seq_num n + 1) = n mod 8 + 1"
  proof -
    have "n mod 8 < 8" by simp
    then have "unat (seq_num n) + unat (1 :: u8) < 2 ^ 8" by simp
    then show ?thesis by (subst unat_add_lem [THEN iffD1]) auto
  qed
  have "unat (next_sequence (seq_num n)) = (n mod 8 + 1) mod 8"
    by (simp add: next_sequence_def unat_mod a const_defs)
  also have "\<dots> = unat (seq_num (Suc n))" by (simp add: mod_Suc_eq)
  finally show ?thesis by (simp add: word_unat_eq_iff)
qed

lemma seq_num_of_unat: "w < 8 \<Longrightarrow> seq_num (unat w) = w"
  by (simp add: seq_num_def word_less_nat_alt)

lemma flight_from_nth: "flight_from b fs \<Longrightarrow> i < length fs \<Longrightarrow> flight_num (fs ! i) = seq_num (b + i)"
  unfolding flight_from_def by (metis add.commute add_diff_cancel_right' length_map length_upt nth_map nth_upt nat_add_left_cancel_less)

lemma flight_from_Nil [simp]: "flight_from b []"
  by (simp add: flight_from_def)

lemma flight_from_Cons:
  "flight_from b (f # fs) \<longleftrightarrow> flight_num f = seq_num b \<and> flight_from (Suc b) fs"
  by (simp add: flight_from_def upt_conv_Cons del: upt_Suc)

lemma flight_from_snoc:
  "flight_from b (fs @ [f]) \<longleftrightarrow> flight_from b fs \<and> flight_num f = seq_num (b + length fs)"
  by (simp add: flight_from_def)

lemma flight_from_mod: "flight_from (b mod 8) fs \<longleftrightarrow> flight_from b fs"
proof (induction fs arbitrary: b)
  case (Cons f fs)
  have "flight_from (Suc (b mod 8)) fs \<longleftrightarrow> flight_from (Suc b) fs"
    using Cons.IH [of "Suc (b mod 8)"] Cons.IH [of "Suc b"] by (simp add: mod_Suc_eq)
  then show ?case by (simp add: flight_from_Cons)
qed simp

lemma flight_from_drop: "flight_from b fs \<Longrightarrow> k \<le> length fs \<Longrightarrow> flight_from (b + k) (drop k fs)"
proof (induction k arbitrary: b fs)
  case (Suc k)
  then show ?case using Suc.IH [of "Suc b" "tl fs"] by (cases fs) (auto simp: flight_from_Cons)
qed simp

lemma position_Some: "position P xs = Some i \<Longrightarrow> i < length xs \<and> P (xs ! i)"
  by (induction xs arbitrary: i) (auto split: if_splits)

lemma position_None: "position P xs = None \<longleftrightarrow> (\<forall>x\<in>set xs. \<not> P x)"
  by (induction xs) auto

lemma mod_8_window:
  fixes m n :: nat
  assumes "m \<le> n" "n < m + 8" "m mod 8 = n mod 8"
  shows "m = n"
proof -
  from assms obtain k where n: "n = m + 8 * k" by (auto simp: mod_eq_nat1E mod_eq_dvd_iff_nat dest: mod_eq_nat2E)
  with assms(2) show ?thesis by simp
qed

lemma seq_num_window:
  assumes "m < n + 8" "n < m + 8"
  shows "seq_num m = seq_num n \<longleftrightarrow> m = n"
  using assms mod_8_window [of m n] mod_8_window [of n m] by (cases "m \<le> n") (auto simp: seq_num_eq_iff)

text \<open>
  Retiring by position agrees with the arithmetic meaning of a cumulative acknowledgement: when
  the peer's next expected frame has index \<open>n\<close>, from the oldest outstanding one to the next to
  be sent, exactly the frames before it leave the queue.
\<close>

lemma position_flight:
  assumes "flight_from b fs" "length fs < 8" "b \<le> n" "n \<le> b + length fs"
  shows "(case position (\<lambda>f. flight_num f = seq_num n) fs of Some i \<Rightarrow> i | None \<Rightarrow> length fs) = n - b"
proof (cases "position (\<lambda>f. flight_num f = seq_num n) fs")
  case None
  have "n = b + length fs"
  proof (rule ccontr)
    assume "n \<noteq> b + length fs"
    with assms have i: "n - b < length fs" "b + (n - b) = n" by auto
    then have "flight_num (fs ! (n - b)) = seq_num n" using flight_from_nth assms(1) by fastforce
    with None i(1) show False by (auto simp: position_None)
  qed
  with None show ?thesis by simp
next
  case (Some i)
  then have "i < length fs" "seq_num (b + i) = seq_num n"
    using position_Some [OF Some] flight_from_nth [OF assms(1), of i] by auto
  with assms seq_num_window [of "b + i" n] have "b + i = n" by auto
  with Some show ?thesis by auto
qed

lemma retire_cumulative:
  assumes "flight_from b (in_flight c)" "length (in_flight c) < 8" "b \<le> n" "n \<le> b + length (in_flight c)"
  shows "retire_acknowledged (seq_num n) c = c\<lparr>in_flight := drop (n - b) (in_flight c)\<rparr>"
  using position_flight [OF assms] by (simp add: retire_acknowledged_def)

lemma retire_drop:
  obtains k where "k \<le> length (in_flight c)"
    "retire_acknowledged a c = c\<lparr>in_flight := drop k (in_flight c)\<rparr>"
proof (cases "position (\<lambda>f. flight_num f = a) (in_flight c)")
  case None
  then show ?thesis using that [of "length (in_flight c)"] by (simp add: retire_acknowledged_def)
next
  case (Some i)
  then show ?thesis
    using that [of i] position_Some [OF Some] by (simp add: retire_acknowledged_def)
qed

section \<open>Every operation keeps the invariant\<close>

text \<open>The conjuncts of the invariant that speak of the window, in a form the proofs can use.\<close>

definition wf_window :: "u8 \<Rightarrow> in_flight_frame list \<Rightarrow> bool" where
  "wf_window nt fs \<longleftrightarrow>
     length fs \<le> MAX_WINDOW \<and>
     (\<exists>b < 8. flight_from b fs \<and> nt = seq_num (b + length fs)) \<and>
     (\<forall>f \<in> set fs. 1 \<le> sends f \<and> sends f \<le> MAX_RETRANSMITS)"

lemma wf_connection_alt:
  "wf_connection c \<longleftrightarrow>
     next_rx_frame c < 8 \<and> wf_window (next_tx_frame c) (in_flight c) \<and>
     (\<forall>n. state c = Resetting n \<longrightarrow> 1 \<le> n \<and> n \<le> MAX_RESET_ATTEMPTS \<and> in_flight c = []) \<and>
     (state c = Disconnected \<longrightarrow> in_flight c = []) \<and> \<not> ack_pending c"
  by (auto simp: wf_connection_def wf_window_def)

lemma wf_window_any:
  "flight_from b fs \<Longrightarrow> nt = seq_num (b + length fs) \<Longrightarrow> length fs \<le> MAX_WINDOW \<Longrightarrow>
   \<forall>f \<in> set fs. 1 \<le> sends f \<and> sends f \<le> MAX_RETRANSMITS \<Longrightarrow> wf_window nt fs"
  unfolding wf_window_def
  by (intro conjI exI [of _ "b mod 8"])
    (auto simp: flight_from_mod seq_num_eq_iff mod_add_left_eq)

lemma wf_window_Nil: "nt < 8 \<Longrightarrow> wf_window nt []"
  by (rule wf_window_any [of "unat nt"]) (auto simp: seq_num_of_unat)

lemma wf_window_next_less: "wf_window nt fs \<Longrightarrow> nt < 8"
  by (auto simp: wf_window_def)

lemma wf_window_drop:
  assumes "wf_window nt fs" "k \<le> length fs"
  shows "wf_window nt (drop k fs)"
proof -
  from assms obtain b where b: "flight_from b fs" "nt = seq_num (b + length fs)"
    and l: "length fs \<le> MAX_WINDOW" "\<forall>f \<in> set fs. 1 \<le> sends f \<and> sends f \<le> MAX_RETRANSMITS"
    by (auto simp: wf_window_def)
  show ?thesis
    by (rule wf_window_any [of "b + k"])
      (use assms(2) b l flight_from_drop in \<open>auto dest: in_set_dropD\<close>)
qed

lemma wf_window_snoc:
  assumes "wf_window nt fs" "length fs < MAX_WINDOW"
  shows "wf_window (next_sequence nt) (fs @ [\<lparr>flight_num = nt, flight_payload = p, sends = 1\<rparr>])"
proof -
  from assms obtain b where b: "flight_from b fs" "nt = seq_num (b + length fs)"
    and l: "\<forall>f \<in> set fs. 1 \<le> sends f \<and> sends f \<le> MAX_RETRANSMITS"
    by (auto simp: wf_window_def)
  show ?thesis
    by (rule wf_window_any [of b]) (use assms(2) b l in \<open>auto simp: flight_from_snoc const_defs\<close>)
qed

lemma wf_window_resend:
  assumes "wf_window nt (f # fs)" "\<not> MAX_RETRANSMITS \<le> sends f"
  shows "wf_window nt (f\<lparr>sends := saturating_inc (sends f)\<rparr> # fs)"
proof -
  from assms(2) have s: "sends f < 3" by (simp add: const_defs)
  then have inc: "saturating_inc (sends f) = sends f + 1" by (auto simp: saturating_inc_def)
  from s have "unat (sends f) < 3" by (simp add: word_less_nat_alt)
  then have "unat (sends f + 1) = unat (sends f) + 1" by (subst unat_add_lem [THEN iffD1]) auto
  with s have "1 \<le> saturating_inc (sends f)" "saturating_inc (sends f) \<le> MAX_RETRANSMITS"
    by (simp_all add: inc word_le_nat_alt word_less_nat_alt const_defs)
  with assms(1) show ?thesis by (auto simp: wf_window_def flight_from_Cons)
qed

lemmas wf_connection_simps = wf_connection_alt wf_window_Nil saturating_inc_def

lemma wf_connection_new: "wf_connection connection_new"
  by (simp add: wf_connection_simps connection_new_def)

lemma wf_begin_reset: "wf_connection c \<Longrightarrow> wf_connection (snd (begin_reset c))"
proof (cases "state c")
  case (Resetting n)
  assume w: "wf_connection c"
  show ?thesis
  proof (cases "MAX_RESET_ATTEMPTS \<le> n")
    case True
    with Resetting w show ?thesis by (auto simp: begin_reset_def wf_connection_alt)
  next
    case False
    then have n: "n < 5" by (simp add: const_defs)
    then have inc: "saturating_inc n = n + 1" by (auto simp: saturating_inc_def)
    from n have "unat n < 5" by (simp add: word_less_nat_alt)
    then have "unat (n + 1) = unat n + 1" by (subst unat_add_lem [THEN iffD1]) auto
    with n have "1 \<le> n + 1" "n + 1 \<le> MAX_RESET_ATTEMPTS"
      by (simp_all add: word_le_nat_alt word_less_nat_alt const_defs)
    with False Resetting show ?thesis
      by (simp add: begin_reset_def wf_connection_alt wf_window_Nil inc)
  qed
qed (simp_all add: begin_reset_def wf_connection_simps const_defs)

lemma wf_send_data: "wf_connection c \<Longrightarrow> wf_connection (snd (send_data p c))"
  using wf_window_snoc [of "next_tx_frame c" "in_flight c" p]
  by (auto simp: send_data_def Let_def wf_connection_alt is_connected_def split: connection_state.splits)

lemma wf_retire: "wf_connection c \<Longrightarrow> wf_connection (retire_acknowledged a c)"
  by (rule retire_drop [of c a]) (auto simp: wf_connection_alt wf_window_drop)

lemma wf_retransmit: "wf_connection c \<Longrightarrow> wf_connection (snd (retransmit_oldest c))"
  using wf_window_resend [of "next_tx_frame c" "hd (in_flight c)" "tl (in_flight c)"]
  by (auto simp: retransmit_oldest_def wf_connection_alt split: list.split)

lemma wf_on_frame:
  assumes "wf_connection c"
  shows "wf_connection (snd (on_frame f c))"
proof (cases f)
  case (Data fn an rt p)
  with wf_retire [OF assms, of an] show ?thesis
    by (auto simp: on_frame_def Let_def wf_connection_alt next_sequence_less)
next
  case (Nak an nr)
  with wf_retransmit [OF wf_retire [OF assms, of an]] show ?thesis
    by (auto simp: on_frame_def split: prod.split)
next
  case (Ack an nr)
  with wf_retire [OF assms, of an] show ?thesis by (simp add: on_frame_def)
next
  case Rst
  with assms show ?thesis by (simp add: on_frame_def)
next
  case (RstAck v r)
  then show ?thesis by (simp add: on_frame_def wf_connection_alt wf_window_Nil)
next
  case (Error v e)
  have "next_tx_frame c < 8" "next_rx_frame c < 8" "\<not> ack_pending c"
    using assms by (auto simp: wf_connection_alt dest: wf_window_next_less)
  with Error show ?thesis by (simp add: on_frame_def wf_connection_alt wf_window_Nil)
qed

lemma wf_on_decode_failure: "wf_connection c \<Longrightarrow> wf_connection (snd (on_decode_failure e c))"
  by (simp add: on_decode_failure_def wf_connection_alt)

text \<open>The methods a caller can invoke, as the steps of the connection.\<close>

inductive conn_step :: "connection \<Rightarrow> connection \<Rightarrow> bool" where
  step_begin_reset: "conn_step c (snd (begin_reset c))"
| step_send_data: "conn_step c (snd (send_data p c))"
| step_on_frame: "conn_step c (snd (on_frame f c))"
| step_on_decode_failure: "conn_step c (snd (on_decode_failure e c))"
| step_retransmit: "conn_step c (snd (retransmit_oldest c))"

inductive conn_reach :: "connection \<Rightarrow> bool" where
  reach_new: "conn_reach connection_new"
| reach_step: "conn_reach c \<Longrightarrow> conn_step c c' \<Longrightarrow> conn_reach c'"

lemma conn_step_wf: "conn_step c c' \<Longrightarrow> wf_connection c \<Longrightarrow> wf_connection c'"
  by (induction rule: conn_step.induct)
    (auto intro: wf_begin_reset wf_send_data wf_on_frame wf_on_decode_failure wf_retransmit)

lemma reach_wf: "conn_reach c \<Longrightarrow> wf_connection c"
  by (induction rule: conn_reach.induct) (auto intro: wf_connection_new conn_step_wf)

section \<open>Properties of the state machine\<close>

text \<open>
  In every state the connection can reach through its methods, from \<open>new\<close> on and in any
  order, the invariant holds: at most seven frames in flight, numbered consecutively modulo eight
  up to the next one to send, each sent one to three times; sequence numbers below eight; one to
  five attempts while resetting, with nothing in flight.
\<close>

theorem reachable_connection_wf: "conn_reach c \<Longrightarrow> wf_connection c"
  by (rule reach_wf)

definition sample_connection :: connection where
  "sample_connection =
     snd (send_data [1, 2] (snd (on_frame (RstAck 2 11) (snd (begin_reset connection_new)))))"

lemma sample_connection_reach: "conn_reach sample_connection"
  unfolding sample_connection_def by (intro reach_step [OF _ step_send_data]
    reach_step [OF _ step_on_frame] reach_step [OF _ step_begin_reset] reach_new)

lemma sample_connection_eq:
  "sample_connection = \<lparr>state = Connected, next_tx_frame = 1, next_rx_frame = 0,
     in_flight = [\<lparr>flight_num = 0, flight_payload = [1, 2], sends = 1\<rparr>],
     ack_pending = False, nak_pending = False\<rparr>"
  by (simp add: sample_connection_def send_data_def on_frame_def begin_reset_def connection_new_def
      is_connected_def next_sequence_def const_defs)

lemma reachable_connection_wf_witness: "wf_connection sample_connection"
  by (rule reachable_connection_wf [OF sample_connection_reach])

lemma sample_connection_wf: "wf_connection sample_connection"
  by (rule reach_wf [OF sample_connection_reach])

lemma retire_any:
  assumes "flight_from b (in_flight c)" "length (in_flight c) < 8" "b \<le> n" "n < b + 8"
  shows "retire_acknowledged (seq_num n) c = c\<lparr>in_flight := drop (n - b) (in_flight c)\<rparr>"
proof (cases "n \<le> b + length (in_flight c)")
  case True
  with assms show ?thesis by (simp add: retire_cumulative)
next
  case False
  have "position (\<lambda>f. flight_num f = seq_num n) (in_flight c) = None"
  proof -
    have "flight_num (in_flight c ! i) \<noteq> seq_num n" if "i < length (in_flight c)" for i
      using that False assms flight_from_nth [OF assms(1) that] seq_num_window [of "b + i" n] by auto
    then show ?thesis by (auto simp: position_None in_set_conv_nth)
  qed
  with False show ?thesis by (simp add: retire_acknowledged_def)
qed

lemma modular_distance:
  fixes a b len :: nat
  assumes "a < 8"
  shows "(b + (a + len + 8 - (b + len) mod 8) mod 8) mod 8 = a"
proof -
  define r where "r = (b + len) mod 8"
  obtain q where m: "b + len = 8 * q + r" using div_mult_mod_eq [of "b + len" 8] r_def by (metis mult.commute)
  have "r < 8" by (simp add: r_def)
  have "(b + (a + len + 8 - r) mod 8) mod 8 = (b + (a + len + 8 - r)) mod 8" by (rule mod_add_right_eq)
  also have "b + (a + len + 8 - r) = a + 8 * (q + 1)" using m \<open>r < 8\<close> by simp
  also have "\<dots> mod 8 = a" using assms by (simp only: mod_mult_self2 mod_less)
  finally show ?thesis by (simp add: r_def)
qed

text \<open>
  C35. Positional retirement is modular arithmetic. In every well-formed connection, an
  acknowledgement number drops exactly as many of the oldest frames as its distance, modulo
  eight, from the number of the oldest frame; a number beyond the next frame to send, which no
  peer in step sends, drops them all.
\<close>

theorem retire_is_modular:
  assumes "wf_connection c" and "a < 8"
  shows "retire_acknowledged a c = c\<lparr>in_flight :=
    drop ((unat a + length (in_flight c) + 8 - unat (next_tx_frame c)) mod 8) (in_flight c)\<rparr>"
proof -
  let ?len = "length (in_flight c)"
  from assms(1) obtain b where b: "flight_from b (in_flight c)" "next_tx_frame c = seq_num (b + ?len)"
    and len: "?len < 8"
    by (auto simp: wf_connection_def const_defs)
  let ?d = "(unat a + ?len + 8 - unat (next_tx_frame c)) mod 8"
  from assms(2) have "unat a < 8" by (simp add: word_less_nat_alt)
  then have "(b + ?d) mod 8 = unat a" using modular_distance [of "unat a" b ?len] by (simp add: b(2))
  then have "seq_num (b + ?d) = a"
    using seq_num_of_unat [OF assms(2)] seq_num_mod [of "b + ?d"] by simp
  with retire_any [OF b(1) len, of "b + ?d"] show ?thesis by simp
qed

lemma retire_is_modular_witness:
  "in_flight (retire_acknowledged 1 sample_connection) = [] \<and>
   in_flight (retire_acknowledged 0 sample_connection) = in_flight sample_connection"
  using retire_is_modular [OF sample_connection_wf, of 1] retire_is_modular [OF sample_connection_wf, of 0]
  by (simp add: sample_connection_eq)

text \<open>
  Why the window is seven: the numbers in flight are pairwise different and the next number
  to send is none of them, so no acknowledgement can mean both nothing and everything.
\<close>

theorem window_numbers_unambiguous:
  assumes "wf_connection c"
  shows "distinct (map flight_num (in_flight c)) \<and> next_tx_frame c \<notin> flight_num ` set (in_flight c)"
proof -
  let ?len = "length (in_flight c)"
  from assms obtain b where b: "flight_from b (in_flight c)" "next_tx_frame c = seq_num (b + ?len)"
    and len: "?len \<le> 7"
    by (auto simp: wf_connection_def const_defs)
  have inj: "inj_on seq_num {b..b + ?len}"
    using seq_num_window len by (intro inj_onI) (auto simp: atLeastAtMost_iff)
  have nums: "map flight_num (in_flight c) = map seq_num [b..<b + ?len]"
    using b(1) by (simp only: flight_from_def)
  have "distinct (map seq_num [b..<b + ?len])"
    by (simp add: distinct_map) (rule inj_on_subset [OF inj], auto)
  moreover have "flight_num ` set (in_flight c) = seq_num ` {b..<b + ?len}"
    using arg_cong [OF nums, of set] by simp
  moreover have "seq_num (b + ?len) \<notin> seq_num ` {b..<b + ?len}"
    by (subst inj_on_image_mem_iff [OF inj]) auto
  ultimately show ?thesis by (simp only: nums b(2) simp_thms not_False_eq_True)
qed

lemma window_numbers_unambiguous_witness:
  "next_tx_frame sample_connection \<notin> flight_num ` set (in_flight sample_connection)"
  using window_numbers_unambiguous [OF sample_connection_wf] by blast

text \<open>The outputs of a method called again and again, as the caller's retry loops do.\<close>

primrec call_times :: "nat \<Rightarrow> (connection \<Rightarrow> outbound \<times> connection) \<Rightarrow> connection \<Rightarrow> outbound list \<times> connection" where
  "call_times 0 m c = ([], c)"
| "call_times (Suc n) m c =
     (let (out, c1) = m c; (outs, c2) = call_times n m c1 in (out # outs, c2))"

lemma call_times_numeral:
  "call_times (numeral k) m c =
     (let (out, c1) = m c; (outs, c2) = call_times (pred_numeral k) m c1 in (out # outs, c2))"
  by (simp add: numeral_eq_Suc)

lemma replicate_numeral: "replicate (numeral k) x = x # replicate (pred_numeral k) x"
  by (simp add: numeral_eq_Suc)

lemma saturating_inc_small: "saturating_inc (0 :: u8) = 1" "saturating_inc (1 :: u8) = 2"
  "saturating_inc (2 :: u8) = 3" "saturating_inc (3 :: u8) = 4" "saturating_inc (4 :: u8) = 5"
  by (simp_all add: saturating_inc_def)

text \<open>
  The reset handshake gives up: from any state that is not resetting, five resets are sent,
  each with the counters and the window cleared, and the sixth call sends nothing and leaves the
  connection failed.
\<close>

theorem reset_attempts_bounded:
  assumes "\<forall>n. state c \<noteq> Resetting n"
  shows "call_times 6 begin_reset c =
    (replicate 5 (Send Rst) @ [Nothing],
     \<lparr>state = Failed, next_tx_frame = 0, next_rx_frame = 0, in_flight = [],
       ack_pending = False, nak_pending = False\<rparr>)"
proof -
  define X where "X n = \<lparr>state = Resetting n, next_tx_frame = 0, next_rx_frame = 0, in_flight = [],
    ack_pending = False, nak_pending = False\<rparr>" for n
  have first: "begin_reset c = (Send Rst, X 1)"
    using assms by (cases "state c"; cases c) (auto simp: begin_reset_def X_def const_defs saturating_inc_small)
  have again: "begin_reset (X n) = (Send Rst, X (saturating_inc n))" if "n < 5" for n
    using that by (simp add: begin_reset_def X_def const_defs)
  have last: "begin_reset (X 5) = (Nothing, (X 5)\<lparr>state := Failed\<rparr>)"
    by (simp add: begin_reset_def X_def const_defs)
  show ?thesis
    by (simp add: call_times_numeral first again last saturating_inc_small)
      (simp add: X_def replicate_numeral)
qed

lemma reset_attempts_bounded_witness:
  "fst (call_times 6 begin_reset connection_new) = [Send Rst, Send Rst, Send Rst, Send Rst, Send Rst, Nothing]"
  using reset_attempts_bounded [of connection_new] by (simp add: connection_new_def replicate_numeral)

text \<open>
  C40. How often a data frame is resent: its first transmission already counts, so with
  \<open>MAX_RETRANSMITS = 3\<close>, documented as the number of resends, the oldest frame of a connection
  that just sent it is resent twice, identical but for the retransmit bit and the current
  acknowledgement, and the third request declares the link dead.
\<close>

theorem resent_twice_then_failed:
  assumes "in_flight c = f # fs" and "sends f = 1"
  shows "call_times 3 retransmit_oldest c =
    ([Send (Data (flight_num f) (next_rx_frame c) True (flight_payload f)),
      Send (Data (flight_num f) (next_rx_frame c) True (flight_payload f)), Nothing],
     c\<lparr>state := Failed, in_flight := f\<lparr>sends := 3\<rparr> # fs\<rparr>)"
  using assms by (simp add: call_times_numeral retransmit_oldest_def const_defs saturating_inc_small word_le_nat_alt)

lemma resent_twice_then_failed_witness:
  "fst (call_times 3 retransmit_oldest sample_connection) =
    [Send (Data 0 0 True [1, 2]), Send (Data 0 0 True [1, 2]), Nothing]"
  by (subst resent_twice_then_failed [of _ "\<lparr>flight_num = 0, flight_payload = [1, 2], sends = 1\<rparr>" "[]"])
    (simp_all add: sample_connection_eq)

end
