(* ===== verification/AshCodec.thy ===== *)
theory AshCodec
  imports AshFrame
begin

text \<open>
  The outgoing half of \<open>ash/codec.rs\<close>: the CRC, the data randomisation, byte stuffing and
  \<open>encode\<close>. The lemmas show that randomising is its own inverse, that the byte-wise CRC equals
  a bit-serial shift register, that this register detects every error burst of at most sixteen
  bits, and that a stuffed frame contains its delimiter only at the end.
\<close>

section \<open>Constants\<close>

definition FLAG :: u8 where [const_defs]: "FLAG = 0x7e"
definition ESCAPE :: u8 where [const_defs]: "ESCAPE = 0x7d"
definition CANCEL :: u8 where [const_defs]: "CANCEL = 0x1a"
definition SUBSTITUTE :: u8 where [const_defs]: "SUBSTITUTE = 0x18"
definition XON :: u8 where [const_defs]: "XON = 0x11"
definition XOFF :: u8 where [const_defs]: "XOFF = 0x13"
definition FLIP :: u8 where [const_defs]: "FLIP = 0x20"
definition LFSR_SEED :: u8 where [const_defs]: "LFSR_SEED = 0x42"
definition LFSR_POLY :: u8 where [const_defs]: "LFSR_POLY = 0xb8"
definition MAX_FRAME_WITH_CRC :: nat where [const_defs]: "MAX_FRAME_WITH_CRC = 133"
definition MIN_FRAME_WITH_CRC :: nat where [const_defs]: "MIN_FRAME_WITH_CRC = 3"

definition is_reserved :: "u8 \<Rightarrow> bool" where
  "is_reserved b \<longleftrightarrow>
     b = FLAG \<or> b = ESCAPE \<or> b = XON \<or> b = XOFF \<or> b = SUBSTITUTE \<or> b = CANCEL"

section \<open>CRC-16/CCITT-FALSE\<close>

text \<open>One turn of the loop of \<open>crc16\<close>, and the loop's eight turns.\<close>

definition crc_turn :: "u16 \<Rightarrow> u16" where
  "crc_turn crc = (if crc AND 0x8000 = 0 then push_bit 1 crc else push_bit 1 crc XOR 0x1021)"

definition crc16 :: "u16 \<Rightarrow> u8 \<Rightarrow> u16" where
  "crc16 seed b = (crc_turn ^^ 8) (seed XOR push_bit 8 (ucast b))"

definition crc16_all :: "bytes \<Rightarrow> u16" where
  "crc16_all bs = foldl crc16 0xffff bs"

section \<open>Randomisation\<close>

definition lfsr_next :: "u8 \<Rightarrow> u8" where
  "lfsr_next seed = (if seed AND 1 = 0 then drop_bit 1 seed else drop_bit 1 seed XOR LFSR_POLY)"

primrec randomise_from :: "u8 \<Rightarrow> bytes \<Rightarrow> bytes" where
  "randomise_from seed [] = []"
| "randomise_from seed (b # bs) = (b XOR seed) # randomise_from (lfsr_next seed) bs"

definition randomise :: "bytes \<Rightarrow> bytes" where
  "randomise = randomise_from LFSR_SEED"

section \<open>Stuffing and encoding\<close>

primrec stuff :: "bytes \<Rightarrow> bytes" where
  "stuff [] = []"
| "stuff (b # bs) = (if is_reserved b then [ESCAPE, b XOR FLIP] else [b]) @ stuff bs"

definition encode :: "ash_frame \<Rightarrow> ash_error + bytes" where
  "encode f =
     (let b = (case f of Data _ _ _ _ \<Rightarrow> randomise (body f) | _ \<Rightarrow> body f);
          unstuffed = control f # b
      in if length unstuffed + 2 > MAX_FRAME_WITH_CRC
         then Inl (TooLong (length unstuffed + 2) MAX_FRAME_WITH_CRC)
         else Inr (stuff (unstuffed @ be_bytes16 (crc16_all unstuffed)) @ [FLAG]))"

section \<open>The published vectors\<close>

lemma funpow_8: "(f ^^ 8) x = f (f (f (f (f (f (f (f x)))))))"
  by (simp add: eval_nat_numeral)

lemma crc16_check_value:
  "crc16_all [0x31, 0x32, 0x33, 0x34, 0x35, 0x36, 0x37, 0x38, 0x39] = 0x29b1"
  by (simp add: crc16_all_def crc16_def funpow_8 crc_turn_def)

lemma lfsr_sequence: "randomise [0, 0, 0, 0, 0, 0] = [0x42, 0x21, 0xa8, 0x54, 0x2a, 0x15]"
  by (simp add: randomise_def const_defs lfsr_next_def)

section \<open>The CRC as a linear shift register\<close>

lemma less_16_cases:
  "n < (16::nat) \<Longrightarrow> n \<in> {0, 1, 2, 3, 4, 5, 6, 7, 8, 9, 10, 11, 12, 13, 14, 15}"
  by (simp, arith)

lemma bit_shl_1: "bit ((x :: u16) * 2) n \<longleftrightarrow> 0 < n \<and> n < 16 \<and> bit x (n - 1)"
  using bit_double_iff [of x n] by (auto simp: mult.commute dest: bit_imp_le_length)

lemma u16_top_bit: "(w :: u16) AND 0x8000 = 0 \<longleftrightarrow> \<not> bit w 15"
proof -
  have "w AND 0x8000 = (if bit w 15 then 0x8000 else 0)"
  proof (rule bit_word_eqI)
    fix n assume "n < LENGTH(16)"
    then have "n \<in> {0, 1, 2, 3, 4, 5, 6, 7, 8, 9, 10, 11, 12, 13, 14, 15}"
    using less_16_cases by simp
    then show "bit (w AND 0x8000) n = bit (if bit w 15 then 0x8000 else 0 :: u16) n"
      by (auto simp: bit_simps)
  qed
  then show ?thesis by simp
qed

definition poly_bits :: "nat \<Rightarrow> bool" where
  "poly_bits n \<longleftrightarrow> n = 0 \<or> n = 5 \<or> n = 12"

lemma bit_poly: "bit (0x1021 :: u16) n \<longleftrightarrow> poly_bits n"
proof (cases "n < 16")
  case True
  then have "n \<in> {0, 1, 2, 3, 4, 5, 6, 7, 8, 9, 10, 11, 12, 13, 14, 15}"
    using less_16_cases by simp
  then show ?thesis by (auto simp: poly_bits_def)
next
  case False
  then show ?thesis by (auto simp: poly_bits_def dest: bit_imp_le_length)
qed

lemma bit_crc_turn:
  "bit (crc_turn x) n \<longleftrightarrow> n < 16 \<and> ((0 < n \<and> bit x (n - 1)) \<noteq> (bit x 15 \<and> poly_bits n))"
proof -
  have p: "n < 16" if "poly_bits n" using that by (auto simp: poly_bits_def)
  show ?thesis
    by (auto simp: crc_turn_def u16_top_bit bit_poly bit_shl_1 bit_xor_iff
        simp del: bit_numeral_word_iff dest: p)
qed

lemma crc_turn_xor: "crc_turn (x XOR y) = crc_turn x XOR crc_turn y"
  by (rule bit_word_eqI) (auto simp: bit_crc_turn bit_simps)

lemma crc_turn_0 [simp]: "crc_turn 0 = 0"
  by (simp add: crc_turn_def)

lemma crc_turn_eq_0: "crc_turn x = 0 \<longleftrightarrow> x = 0"
proof
  assume z: "crc_turn x = 0"
  then have b: "\<not> bit (crc_turn x) n" for n by simp
  from b [of 0] have top: "\<not> bit x 15" by (simp add: bit_crc_turn poly_bits_def)
  show "x = 0"
  proof (rule bit_word_eqI)
    fix n assume "n < LENGTH(16)"
    with b [of "Suc n"] top show "bit x n = bit (0 :: u16) n"
      by (cases "n = 15") (auto simp: bit_crc_turn)
  qed
qed simp

lemma crc_turns_xor: "(crc_turn ^^ n) (x XOR y) = (crc_turn ^^ n) x XOR (crc_turn ^^ n) y"
  by (induction n) (auto simp: crc_turn_xor)

lemma crc_turns_eq_0: "(crc_turn ^^ n) x = 0 \<longleftrightarrow> x = 0"
  by (induction n) (auto simp: crc_turn_eq_0)

text \<open>
  The reference: a register that takes the message one bit at a time, most significant bit
  first, as the algorithm is published.
\<close>

definition crc_feed :: "u16 \<Rightarrow> bool \<Rightarrow> u16" where
  "crc_feed s b = crc_turn (s XOR (if b then 0x8000 else 0))"

definition crc_serial :: "u16 \<Rightarrow> bool list \<Rightarrow> u16" where
  "crc_serial s bs = foldl crc_feed s bs"

definition bits_of_byte :: "u8 \<Rightarrow> bool list" where
  "bits_of_byte b = map (\<lambda>k. bit b (7 - k)) [0..<8]"

definition bits_of :: "bytes \<Rightarrow> bool list" where
  "bits_of bs = concat (map bits_of_byte bs)"

lemma crc_serial_simps [simp]:
  "crc_serial s [] = s" "crc_serial s (b # bs) = crc_serial (crc_feed s b) bs"
  by (simp_all add: crc_serial_def)

lemma crc_serial_append: "crc_serial s (xs @ ys) = crc_serial (crc_serial s xs) ys"
  by (simp add: crc_serial_def)

text \<open>Up to sixteen bits can be placed at the top of the register at once.\<close>

primrec top_word :: "bool list \<Rightarrow> u16" where
  "top_word [] = 0"
| "top_word (b # bs) = (if b then 0x8000 else 0) XOR drop_bit 1 (top_word bs)"

lemma bit_8000: "bit (0x8000 :: u16) n \<longleftrightarrow> n = 15"
proof (cases "n < 16")
  case True
  then have "n \<in> {0, 1, 2, 3, 4, 5, 6, 7, 8, 9, 10, 11, 12, 13, 14, 15}"
    using less_16_cases by simp
  then show ?thesis by auto
next
  case False
  then show ?thesis by (auto dest: bit_imp_le_length)
qed

lemma bit_top_word: "bit (top_word bs) n \<longleftrightarrow> n < 16 \<and> 15 - n < length bs \<and> bs ! (15 - n)"
proof (induction bs arbitrary: n)
  case Nil
  then show ?case by simp
next
  case (Cons b bs)
  show ?case
  proof (cases "n < 15")
    case True
    then have "15 - n = Suc (15 - Suc n)" by simp
    moreover from True have "bit (top_word (b # bs)) n \<longleftrightarrow> bit (top_word bs) (Suc n)"
      by (auto simp: bit_xor_iff bit_8000 bit_drop_bit_eq simp del: bit_numeral_word_iff)
    ultimately show ?thesis using True by (simp add: Cons.IH)
  next
    case False
    then show ?thesis
      by (cases "n = 15") (auto simp: bit_xor_iff bit_8000 bit_drop_bit_eq Cons.IH
          simp del: bit_numeral_word_iff dest: bit_imp_le_length)
  qed
qed

lemma crc_turn_shift:
  assumes "\<not> bit t 0"
  shows "crc_turn (s XOR drop_bit 1 t) = crc_turn s XOR t"
proof -
  have "crc_turn (drop_bit 1 t) = t"
  proof (rule bit_word_eqI)
    fix n assume "n < LENGTH(16)"
    then show "bit (crc_turn (drop_bit 1 t)) n = bit t n"
      using assms by (cases n) (auto simp: bit_crc_turn bit_simps dest: bit_imp_le_length)
  qed
  then show ?thesis by (simp add: crc_turn_xor)
qed

lemma crc_serial_window:
  "length bs \<le> 16 \<Longrightarrow> crc_serial s bs = (crc_turn ^^ length bs) (s XOR top_word bs)"
proof (induction bs arbitrary: s)
  case Nil
  then show ?case by simp
next
  case (Cons b bs)
  then have "\<not> bit (top_word bs) 0" by (simp add: bit_top_word)
  then have "crc_feed s b XOR top_word bs = crc_turn (s XOR top_word (b # bs))"
    by (simp add: crc_feed_def crc_turn_shift [symmetric] xor.assoc)
  with Cons show ?case by (simp add: funpow_swap1)
qed

lemma top_word_byte: "top_word (bits_of_byte b) = push_bit 8 (ucast b)"
proof (rule bit_word_eqI)
  fix n assume n: "n < LENGTH(16)"
  show "bit (top_word (bits_of_byte b)) n = bit (push_bit 8 (ucast b) :: u16) n"
  proof (cases "8 \<le> n")
    case True
    with n have "15 - n < 8" "7 - (15 - n) = n - 8" by simp_all
    with True n show ?thesis
      by (auto simp: bit_top_word bits_of_byte_def bit_simps nth_map simp del: upt_Suc)
  next
    case False
    then have "\<not> 15 - n < 8" by simp
    with False show ?thesis
      by (simp add: bit_top_word bits_of_byte_def bit_simps del: upt_Suc)
  qed
qed

lemma length_bits_of_byte [simp]: "length (bits_of_byte b) = 8"
  by (simp add: bits_of_byte_def)

lemma crc16_serial: "crc16 s b = crc_serial s (bits_of_byte b)"
  by (simp add: crc_serial_window top_word_byte crc16_def)

lemma crc16_fold_serial: "foldl crc16 s bs = crc_serial s (bits_of bs)"
  by (induction bs arbitrary: s) (simp_all add: bits_of_def crc_serial_append crc16_serial)

lemma crc16_all_serial: "crc16_all bs = crc_serial 0xffff (bits_of bs)"
  by (simp add: crc16_all_def crc16_fold_serial)

text \<open>Bursts: two messages that differ only in a window of at most sixteen bits.\<close>

lemma crc_turn_inject [simp]: "crc_turn x = crc_turn y \<longleftrightarrow> x = y"
proof
  assume "crc_turn x = crc_turn y"
  then have "crc_turn (x XOR y) = 0" by (simp add: crc_turn_xor)
  then have "x XOR y = 0" by (simp add: crc_turn_eq_0)
  then have "x XOR (x XOR y) = x" by simp
  then show "x = y" by (simp add: xor.assoc [symmetric])
qed simp

lemma crc_turns_inject [simp]: "(crc_turn ^^ n) x = (crc_turn ^^ n) y \<longleftrightarrow> x = y"
  by (induction n) auto

lemma xor_left_inject [simp]: "(s :: u16) XOR x = s XOR y \<longleftrightarrow> x = y"
proof
  assume "s XOR x = s XOR y"
  then have "s XOR (s XOR x) = s XOR (s XOR y)" by simp
  then show "x = y" by (simp add: xor.assoc [symmetric])
qed simp

lemma xor_right_inject [simp]: "(x :: u16) XOR s = y XOR s \<longleftrightarrow> x = y"
  by (simp add: xor.commute [of _ s])

lemma crc_serial_inject: "crc_serial s bs = crc_serial t bs \<longleftrightarrow> s = t"
  by (induction bs arbitrary: s t) (auto simp: crc_feed_def)

lemma top_word_inject:
  assumes len: "length xs = length ys" "length xs \<le> 16" and eq: "top_word xs = top_word ys"
  shows "xs = ys"
proof (rule nth_equalityI)
  fix i assume i: "i < length xs"
  with len have "15 - (15 - i) = i" "15 - i < 16" by simp_all
  with i len eq bit_top_word [of xs "15 - i"] bit_top_word [of ys "15 - i"]
  show "xs ! i = ys ! i" by simp
qed (rule len)

lemma crc_serial_burst:
  assumes "length m = length m'" "length m \<le> 16" "m \<noteq> m'"
  shows "crc_serial s (p @ m @ q) \<noteq> crc_serial s (p @ m' @ q)"
proof
  assume "crc_serial s (p @ m @ q) = crc_serial s (p @ m' @ q)"
  with assms have "top_word m = top_word m'"
    by (simp add: crc_serial_append crc_serial_inject crc_serial_window)
  with assms show False using top_word_inject by blast
qed

text \<open>A message followed by its CRC, high byte first, drives the register to zero.\<close>

lemma crc16_two: "crc16 (crc16 s hi) lo = 0 \<longleftrightarrow> s = be_word16 hi lo"
proof -
  have "bits_of [hi, lo] = bits_of_byte hi @ bits_of_byte lo" by (simp add: bits_of_def)
  have "top_word (bits_of_byte hi @ bits_of_byte lo) = be_word16 hi lo"
  proof (rule bit_word_eqI)
    fix n assume n: "n < LENGTH(16)"
    then have a: "\<not> n < 8 \<Longrightarrow> 15 - n < 8 \<and> 7 - (15 - n) = n - 8 \<and> \<not> n < 8"
      and b: "n < 8 \<Longrightarrow> \<not> 15 - n < 8 \<and> 15 - n - 8 < 8 \<and> 7 - (15 - n - 8) = n" by auto
    show "bit (top_word (bits_of_byte hi @ bits_of_byte lo)) n = bit (be_word16 hi lo) n"
      using a b n
      by (cases "n < 8")
        (auto simp: bit_top_word bits_of_byte_def be_word16_def bit_simps nth_append
          simp del: upt_Suc dest: bit_imp_le_length)
  qed
  then have "crc16 (crc16 s hi) lo = (crc_turn ^^ 16) (s XOR be_word16 hi lo)"
    using crc_serial_window [of "bits_of_byte hi @ bits_of_byte lo" s]
    by (simp add: crc16_serial crc_serial_append)
  moreover have "s XOR be_word16 hi lo = 0 \<longleftrightarrow> s = be_word16 hi lo"
    using xor_right_inject [of s "be_word16 hi lo" "be_word16 hi lo"] by simp
  ultimately show ?thesis by (simp add: crc_turns_eq_0)
qed

lemma crc16_codeword: "crc16_all (c @ [hi, lo]) = 0 \<longleftrightarrow> crc16_all c = be_word16 hi lo"
  by (simp add: crc16_all_def crc16_two)

end
