(* ===== verification/AshDecoder.thy ===== *)
theory AshDecoder
  imports AshCodec "HOL-Library.Sublist"
begin

text \<open>
  The incoming half of \<open>ash/codec.rs\<close>: \<open>Decoder\<close>, which reassembles frames from the byte stream
  of the serial port. The lemmas show that feeding is a fold over the bytes (so the boundaries of
  the reads do not matter), that the buffer is bounded, that the stream decodes segment by
  segment, and that it is the inverse of \<open>encode\<close>, after any noise.
\<close>

section \<open>The decoder\<close>

datatype decoded =
    Frame ash_frame
  | Rejected ash_error

record decoder =
  partial :: bytes
  escaped :: bool
  dropping :: "ash_error option"

definition decoder_new :: decoder where
  "decoder_new = \<lparr>partial = [], escaped = False, dropping = None\<rparr>"

definition decoder_reset :: "decoder \<Rightarrow> decoder" where
  "decoder_reset d = d\<lparr>partial := [], escaped := False, dropping := None\<rparr>"

text \<open>
  \<open>Decoder::finish\<close> reads the buffer and changes nothing. The split at \<open>len - 2\<close> leaves two bytes,
  so the \<open>else\<close> of the source's pattern \<open>[hi, lo]\<close> and the early return of \<open>split_first\<close> are the
  last branches of the two cases below.
\<close>

definition finish :: "decoder \<Rightarrow> decoded option" where
  "finish d =
     (case dropping d of
        Some e \<Rightarrow> Some (Rejected e)
      | None \<Rightarrow>
          if partial d = [] then None
          else if length (partial d) < MIN_FRAME_WITH_CRC
          then Some (Rejected (TooShort (length (partial d)) MIN_FRAME_WITH_CRC))
          else
            (let split = length (partial d) - 2;
                 covered = take split (partial d)
             in case drop split (partial d) of
                  [hi, lo] \<Rightarrow>
                    (let carried = be_word16 hi lo; computed = crc16_all covered in
                     if computed \<noteq> carried then Some (Rejected (BadCrc computed carried))
                     else (case covered of
                             [] \<Rightarrow> None
                           | c # b \<Rightarrow>
                               (case from_parts c (if c AND 0x80 = 0 then randomise b else b) of
                                  Inr f \<Rightarrow> Some (Frame f)
                                | Inl e \<Rightarrow> Some (Rejected e))))
                | _ \<Rightarrow> Some (Rejected (TooShort (length (partial d)) MIN_FRAME_WITH_CRC))))"

definition push :: "u8 \<Rightarrow> decoder \<Rightarrow> decoded option \<times> decoder" where
  "push b d =
     (if b = XON \<or> b = XOFF then (None, d)
      else if b = CANCEL then (None, decoder_reset d)
      else if b = SUBSTITUTE then (None, d\<lparr>dropping := Some Substituted\<rparr>)
      else if b = ESCAPE then (None, d\<lparr>escaped := True\<rparr>)
      else if b = FLAG then (finish d, decoder_reset d)
      else
        (let c = (if escaped d then b XOR FLIP else b);
             d' = d\<lparr>escaped := False\<rparr>
         in if length (partial d') \<ge> MAX_FRAME_WITH_CRC
            then (None, d'\<lparr>dropping := Some (TooLong (length (partial d') + 1) MAX_FRAME_WITH_CRC)\<rparr>)
            else (None, d'\<lparr>partial := partial d' @ [c]\<rparr>)))"

fun feed :: "bytes \<Rightarrow> decoder \<Rightarrow> decoded list \<times> decoder" where
  "feed [] d = ([], d)"
| "feed (b # bs) d =
     (let (r, d1) = push b d; (out, d2) = feed bs d1
      in ((case r of Some x \<Rightarrow> x # out | None \<Rightarrow> out), d2))"

section \<open>Feeding is a fold\<close>

text \<open>One read of the port after the other.\<close>

primrec feed_chunks :: "bytes list \<Rightarrow> decoder \<Rightarrow> decoded list \<times> decoder" where
  "feed_chunks [] d = ([], d)"
| "feed_chunks (c # cs) d =
     (let (out, d1) = feed c d; (outs, d2) = feed_chunks cs d1 in (out @ outs, d2))"

lemma feed_append:
  "feed (xs @ ys) d =
     (let (out, d1) = feed xs d; (outs, d2) = feed ys d1 in (out @ outs, d2))"
  by (induction xs arbitrary: d) (auto simp: Let_def split: prod.splits option.splits)

lemma feed_chunks_concat: "feed_chunks cs d = feed (concat cs) d"
  by (induction cs arbitrary: d) (simp_all add: feed_append split: prod.splits)

lemma feed_snd_Cons: "snd (feed (b # bs) d) = snd (feed bs (snd (push b d)))"
  by (simp split: prod.splits)

lemma feed_snd_append: "snd (feed (xs @ ys) d) = snd (feed ys (snd (feed xs d)))"
  by (simp add: feed_append split: prod.splits)

lemma decoder_reset_new: "decoder_reset d = decoder_new"
  by (simp add: decoder_reset_def decoder_new_def)

lemma push_FLAG: "push FLAG d = (finish d, decoder_new)"
  by (simp add: push_def const_defs decoder_reset_new)

lemma feed_FLAG: "feed [FLAG] d = ((case finish d of Some x \<Rightarrow> [x] | None \<Rightarrow> []), decoder_new)"
  by (simp add: push_FLAG split: option.split)

text \<open>A flag puts the decoder into its initial state, whatever came before.\<close>

lemma feed_resync:
  "feed (xs @ [FLAG] @ ys) d =
     (fst (feed (xs @ [FLAG]) d) @ fst (feed ys decoder_new), snd (feed ys decoder_new))"
  by (simp add: feed_append push_FLAG split: prod.splits option.splits)

text \<open>The bytes of flow control are transparent.\<close>

definition strip_flow :: "bytes \<Rightarrow> bytes" where
  "strip_flow = filter (\<lambda>b. b \<noteq> XON \<and> b \<noteq> XOFF)"

lemma push_flow: "b = XON \<or> b = XOFF \<Longrightarrow> push b d = (None, d)"
  by (auto simp: push_def)

lemma feed_strip_flow: "feed (strip_flow bs) d = feed bs d"
proof (induction bs arbitrary: d)
  case (Cons b bs)
  show ?case
  proof (cases "b = XON \<or> b = XOFF")
    case True
    then show ?thesis using Cons.IH push_flow [of b d] by (auto simp: strip_flow_def)
  next
    case False
    then show ?thesis using Cons.IH by (simp add: strip_flow_def)
  qed
qed (simp add: strip_flow_def)

section \<open>The buffer is bounded\<close>

lemma push_bounded:
  "length (partial d) \<le> MAX_FRAME_WITH_CRC \<Longrightarrow> length (partial (snd (push b d))) \<le> MAX_FRAME_WITH_CRC"
  by (auto simp: push_def Let_def decoder_reset_def)

lemma feed_bounded:
  "length (partial d) \<le> MAX_FRAME_WITH_CRC \<Longrightarrow> length (partial (snd (feed bs d))) \<le> MAX_FRAME_WITH_CRC"
proof (induction bs arbitrary: d)
  case (Cons b bs)
  then show ?case using push_bounded [of d b] by (simp add: feed_snd_Cons del: feed.simps(2))
qed simp

section \<open>Inverse of the encoder\<close>

text \<open>The bytes of a frame on the wire before stuffing, the CRC included.\<close>

definition wire_body :: "ash_frame \<Rightarrow> bytes" where
  "wire_body f = (case f of Data _ _ _ _ \<Rightarrow> randomise (body f) | _ \<Rightarrow> body f)"

definition frame_bytes :: "ash_frame \<Rightarrow> bytes" where
  "frame_bytes f =
     (let u = control f # wire_body f in u @ be_bytes16 (crc16_all u))"

lemma randomise_from_involution [simp]: "randomise_from s (randomise_from s bs) = bs"
  by (induction bs arbitrary: s) (simp_all add: xor.assoc)

lemma randomise_involution [simp]: "randomise (randomise bs) = bs"
  by (simp add: randomise_def)

lemma length_randomise_from [simp]: "length (randomise_from s bs) = length bs"
  by (induction bs arbitrary: s) auto

lemma length_randomise [simp]: "length (randomise bs) = length bs"
  by (simp add: randomise_def)

lemma length_wire_body [simp]: "length (wire_body f) = length (body f)"
  by (simp add: wire_body_def split: ash_frame.split)

lemma length_be_bytes16 [simp]: "length (be_bytes16 w) = 2"
  by (simp add: be_bytes16_def)

lemma length_frame_bytes: "length (frame_bytes f) = length (body f) + 3"
  by (simp add: frame_bytes_def Let_def)

lemma encode_eq:
  "encode f =
     (if length (body f) > 130 then Inl (TooLong (length (body f) + 3) 133)
      else Inr (stuff (frame_bytes f) @ [FLAG]))"
  by (simp add: encode_def frame_bytes_def wire_body_def [symmetric] Let_def MAX_FRAME_WITH_CRC_def)

lemma reserved_flip:
  "is_reserved b \<Longrightarrow> \<not> is_reserved (b XOR FLIP) \<and> (b XOR FLIP) XOR FLIP = b"
  by (auto simp: is_reserved_def const_defs)

lemma push_plain:
  "\<not> is_reserved b \<Longrightarrow> length (partial d) < MAX_FRAME_WITH_CRC \<Longrightarrow>
   push b d = (None, d\<lparr>escaped := False, partial := partial d @ [if escaped d then b XOR FLIP else b]\<rparr>)"
  by (auto simp: push_def is_reserved_def Let_def)

lemma push_ESCAPE: "push ESCAPE d = (None, d\<lparr>escaped := True\<rparr>)"
  by (simp add: push_def const_defs)

lemma feed_stuff:
  "\<not> escaped d \<Longrightarrow> length (partial d) + length bs \<le> MAX_FRAME_WITH_CRC \<Longrightarrow>
   feed (stuff bs) d = ([], d\<lparr>partial := partial d @ bs\<rparr>)"
proof (induction bs arbitrary: d)
  case (Cons b bs)
  show ?case
  proof (cases "is_reserved b")
    case True
    with Cons reserved_flip [of b] show ?thesis
      by (cases d) (simp add: push_ESCAPE push_plain)
  next
    case False
    with Cons show ?thesis by (cases d) (simp add: push_plain)
  qed
qed simp

lemma feed_stuff_new:
  "length bs \<le> MAX_FRAME_WITH_CRC \<Longrightarrow>
   feed (stuff bs) decoder_new = ([], \<lparr>partial = bs, escaped = False, dropping = None\<rparr>)"
  by (simp add: feed_stuff decoder_new_def)

lemma finish_frame_bytes:
  "finish \<lparr>partial = frame_bytes f, escaped = e, dropping = None\<rparr> =
     (case from_parts (control f) (body f) of
        Inr g \<Rightarrow> Some (Frame g) | Inl e \<Rightarrow> Some (Rejected e))"
proof -
  let ?u = "control f # wire_body f"
  obtain hi lo where c: "be_bytes16 (crc16_all ?u) = [hi, lo]" and w: "be_word16 hi lo = crc16_all ?u"
    using be_bytes16_split by blast
  have fb: "frame_bytes f = ?u @ [hi, lo]" by (simp add: frame_bytes_def Let_def c)
  have b: "(if control f AND 0x80 = 0 then randomise (wire_body f) else wire_body f) = body f"
    using control_data(1) control_ack(1) control_nak(1) control_fixed
    by (cases f) (auto simp: u8_bit_tests wire_body_def simp del: control.simps(1-3))
  have "length (frame_bytes f) - 2 = Suc (length (wire_body f))"
    by (simp add: length_frame_bytes)
  with b show ?thesis
    by (simp add: finish_def fb w MIN_FRAME_WITH_CRC_def split: sum.split)
qed

lemma feed_frame:
  assumes "length (body f) \<le> 130"
  shows "feed (stuff (frame_bytes f) @ [FLAG]) decoder_new =
     ([case from_parts (control f) (body f) of Inr g \<Rightarrow> Frame g | Inl e \<Rightarrow> Rejected e], decoder_new)"
proof -
  from assms have "length (frame_bytes f) \<le> MAX_FRAME_WITH_CRC"
    by (simp add: length_frame_bytes MAX_FRAME_WITH_CRC_def)
  then show ?thesis
    by (simp add: feed_append feed_stuff_new feed_FLAG finish_frame_bytes del: feed.simps(2) split: sum.split)
qed

lemma feed_encoded:
  assumes "length (body f) \<le> MAX_DATA_FIELD_LEN" and "encode f = Inr w"
  shows "feed w decoder_new = ([Frame (reduce_frame f)], decoder_new)"
proof -
  from assms have "w = stuff (frame_bytes f) @ [FLAG]"
    by (simp add: encode_eq split: if_splits)
  moreover from assms(1) have "length (body f) \<le> 130" by (simp add: const_defs)
  ultimately show ?thesis using assms(1) by (simp add: feed_frame from_parts_control_body)
qed

text \<open>What \<open>encode\<close> writes for a list of frames.\<close>

definition wire_of :: "ash_frame \<Rightarrow> bytes" where
  "wire_of f = (case encode f of Inr w \<Rightarrow> w | Inl _ \<Rightarrow> [])"

lemma feed_wire:
  "wf_frame f \<Longrightarrow> feed (wire_of f) decoder_new = ([Frame f], decoder_new)"
  using feed_encoded [of f "wire_of f"] wf_frame_body [of f]
  by (simp add: wire_of_def encode_eq const_defs)

lemma feed_wires:
  "\<forall>f\<in>set fs. wf_frame f \<Longrightarrow>
   feed (concat (map wire_of fs)) decoder_new = (map Frame fs, decoder_new)"
  by (induction fs) (simp_all add: feed_append feed_wire)

text \<open>
  C7. The decoder recovers every frame that was encoded, whatever the serial port did around it.
  From any state of the decoder, after any noise that ends in a flag, for any division of the
  stream into reads and any flow control bytes strewn into it: what follows decodes to exactly
  the frames that were encoded, in order, and leaves the decoder in its initial state. The only
  other output is what the noise itself decoded to.
\<close>

theorem decode_encoded_stream:
  assumes "\<forall>f\<in>set fs. wf_frame f"
    and "strip_flow (concat reads) = strip_flow noise @ [FLAG] @ concat (map wire_of fs)"
  shows "feed_chunks reads d = (fst (feed (noise @ [FLAG]) d) @ map Frame fs, decoder_new)"
proof -
  have "feed_chunks reads d = feed (strip_flow noise @ [FLAG] @ concat (map wire_of fs)) d"
    using assms(2) by (simp add: feed_chunks_concat feed_strip_flow [of "concat reads", symmetric])
  also have "\<dots> = (fst (feed (strip_flow noise @ [FLAG]) d) @ map Frame fs, decoder_new)"
    using feed_wires [OF assms(1)] by (simp only: feed_resync fst_conv snd_conv)
  also have "feed (strip_flow noise @ [FLAG]) d = feed (noise @ [FLAG]) d"
    by (simp only: feed_append feed_strip_flow)
  finally show ?thesis .
qed

lemma burst_crc:
  assumes "bits_of (u @ [hi, lo]) = p @ m @ q" "bits_of (u' @ [hi', lo']) = p @ m' @ q"
    and "length m = length m'" "length m \<le> 16" "m \<noteq> m'"
    and "crc16_all u = be_word16 hi lo"
  shows "crc16_all u' \<noteq> be_word16 hi' lo'"
  using crc_serial_burst [OF assms(3-5), of "0xffff" p q] assms(1,2,6)
    crc16_codeword [of u hi lo] crc16_codeword [of u' hi' lo']
  by (metis crc16_all_serial)

lemma finish_bad_crc:
  assumes "crc16_all u \<noteq> be_word16 hi lo" "u \<noteq> []"
  shows "finish \<lparr>partial = u @ [hi, lo], escaped = e, dropping = None\<rparr> =
    Some (Rejected (BadCrc (crc16_all u) (be_word16 hi lo)))"
  using assms by (simp add: finish_def MIN_FRAME_WITH_CRC_def Suc_le_eq)

lemma length_bits_of: "length (bits_of bs) = 8 * length bs"
  by (induction bs) (simp_all add: bits_of_def)

lemma bits_of_byte_eq:
  "bits_of_byte b = [bit b 7, bit b 6, bit b 5, bit b 4, bit b 3, bit b 2, bit b 1, bit b 0]"
proof -
  have "[0..<8] = [0, 1, 2, 3, 4, 5, 6, 7 :: nat]" by code_simp
  then show ?thesis by (simp add: bits_of_byte_def del: upt_Suc)
qed

lemma bits_of_byte_inject: "bits_of_byte a = bits_of_byte b \<Longrightarrow> a = b"
  by (rule bit_word_eqI) (auto simp: bits_of_byte_eq less_Suc_eq numeral_eq_Suc)

lemma bits_of_inject: "length v = length w \<Longrightarrow> bits_of v = bits_of w \<Longrightarrow> v = w"
  by (induction v w rule: list_induct2) (auto simp: bits_of_def dest: bits_of_byte_inject)

lemma split_last_two:
  assumes "3 \<le> length w" obtains u x y where "w = u @ [x, y]" "u \<noteq> []"
proof -
  have "length (drop (length w - 2) w) = 2" using assms by simp
  then obtain x y where d: "drop (length w - 2) w = [x, y]" by (rule length_2E)
  have "w = take (length w - 2) w @ [x, y]" by (subst d [symmetric]) simp
  moreover from assms have "take (length w - 2) w \<noteq> []" by (cases w) auto
  ultimately show ?thesis using that by blast
qed

section \<open>Error bursts on the line\<close>

text \<open>
  The line changes bits of the bytes on the wire. A byte of the framing (flag, escape, flow
  control, cancel, substitute) that is hit, or a byte that becomes one, changes what the bytes
  mean; the statements below are about bursts that spare the framing: a byte arrives as it was
  sent, or neither the byte sent nor the byte that arrives is a reserved one.
\<close>

definition spares_framing :: "u8 \<Rightarrow> u8 \<Rightarrow> bool" where
  "spares_framing a b \<longleftrightarrow> a = b \<or> \<not> is_reserved a \<and> \<not> is_reserved b"

text \<open>Where two streams of the same length differ, bit by bit.\<close>

definition bit_errors :: "bytes \<Rightarrow> bytes \<Rightarrow> bool list" where
  "bit_errors v w = map2 (\<noteq>) (bits_of v) (bits_of w)"

lemma bit_errors_Nil [simp]: "bit_errors [] [] = []"
  by (simp add: bit_errors_def bits_of_def)

lemma bit_errors_Cons:
  "bit_errors (a # v) (b # w) = bit_errors [a] [b] @ bit_errors v w"
  by (simp add: bit_errors_def bits_of_def bits_of_byte_eq)

lemma bit_errors_flip: "bit_errors [a] [b XOR FLIP] = bit_errors [a XOR FLIP] [b]"
  by (simp add: bit_errors_def bits_of_def bits_of_byte_eq bit_xor_iff) blast

text \<open>
  Unstuffing what arrives: as many bytes as were stuffed, with the same bit errors (those of the
  escape bytes, which have none, left out).
\<close>

lemma feed_damaged:
  assumes "list_all2 spares_framing (stuff u) w"
  shows "\<exists>u'. length u' = length u \<and> subseq (bit_errors u u') (bit_errors (stuff u) w) \<and>
    (u' = u \<longrightarrow> w = stuff u) \<and>
    (\<forall>d. \<not> escaped d \<longrightarrow> length (partial d) + length u \<le> MAX_FRAME_WITH_CRC \<longrightarrow>
      feed w d = ([], d\<lparr>partial := partial d @ u'\<rparr>))"
  using assms
proof (induction u arbitrary: w)
  case Nil
  then show ?case by simp
next
  case (Cons b u)
  show ?case
  proof (cases "is_reserved b")
    case True
    with Cons.prems obtain e y w' where "w = e # y # w'" "spares_framing ESCAPE e"
      and y: "spares_framing (b XOR FLIP) y" and w': "list_all2 spares_framing (stuff u) w'"
      by (auto simp: list_all2_Cons1)
    then have w: "w = ESCAPE # y # w'" by (simp add: spares_framing_def is_reserved_def)
    from Cons.IH [OF w'] obtain u' where ih: "length u' = length u"
      "subseq (bit_errors u u') (bit_errors (stuff u) w')" "u' = u \<Longrightarrow> w' = stuff u"
      "\<And>d. \<not> escaped d \<Longrightarrow> length (partial d) + length u \<le> MAX_FRAME_WITH_CRC \<Longrightarrow>
        feed w' d = ([], d\<lparr>partial := partial d @ u'\<rparr>)" by blast
    from y reserved_flip [OF True] have ny: "\<not> is_reserved y" by (auto simp: spares_framing_def)
    have "subseq (bit_errors (b # u) ((y XOR FLIP) # u')) (bit_errors (stuff (b # u)) w)"
    proof -
      have "bit_errors (b # u) ((y XOR FLIP) # u') = bit_errors [b XOR FLIP] [y] @ bit_errors u u'"
        using bit_errors_Cons [of b u "y XOR FLIP" u'] by (simp only: bit_errors_flip)
      moreover have "bit_errors (stuff (b # u)) w =
        bit_errors [ESCAPE] [ESCAPE] @ bit_errors [b XOR FLIP] [y] @ bit_errors (stuff u) w'"
        using True bit_errors_Cons [of ESCAPE "(b XOR FLIP) # stuff u" ESCAPE "y # w'"]
          bit_errors_Cons [of "b XOR FLIP" "stuff u" y w'] by (simp add: w)
      ultimately show ?thesis using ih(2) by (simp only: subseq_drop_many list_emb_append_mono subseq_order.order_refl)
    qed
    moreover have "feed w d = ([], d\<lparr>partial := partial d @ (y XOR FLIP) # u'\<rparr>)"
      if "\<not> escaped d" "length (partial d) + length (b # u) \<le> MAX_FRAME_WITH_CRC" for d
      using that ny by (cases d) (simp add: w push_ESCAPE push_plain ih(4))
    moreover have "(y XOR FLIP) # u' = b # u \<longrightarrow> w = stuff (b # u)"
      using True ih(3) by (auto simp: w xor.assoc)
    ultimately show ?thesis using ih(1) by (intro exI [of _ "(y XOR FLIP) # u'"]) simp
  next
    case False
    with Cons.prems obtain y w' where w: "w = y # w'" and y: "spares_framing b y"
      and w': "list_all2 spares_framing (stuff u) w'"
      by (auto simp: list_all2_Cons1)
    from Cons.IH [OF w'] obtain u' where ih: "length u' = length u"
      "subseq (bit_errors u u') (bit_errors (stuff u) w')" "u' = u \<Longrightarrow> w' = stuff u"
      "\<And>d. \<not> escaped d \<Longrightarrow> length (partial d) + length u \<le> MAX_FRAME_WITH_CRC \<Longrightarrow>
        feed w' d = ([], d\<lparr>partial := partial d @ u'\<rparr>)" by blast
    from y False have ny: "\<not> is_reserved y" by (auto simp: spares_framing_def)
    have "subseq (bit_errors (b # u) (y # u')) (bit_errors (stuff (b # u)) w)"
      using False ih(2) bit_errors_Cons [of b u y u'] bit_errors_Cons [of b "stuff u" y w']
      by (simp add: w subseq_append')
    moreover have "feed w d = ([], d\<lparr>partial := partial d @ y # u'\<rparr>)"
      if "\<not> escaped d" "length (partial d) + length (b # u) \<le> MAX_FRAME_WITH_CRC" for d
      using that ny by (cases d) (simp add: w push_plain ih(4))
    moreover have "y # u' = b # u \<longrightarrow> w = stuff (b # u)"
      using False ih(3) by (auto simp: w)
    ultimately show ?thesis using ih(1) by (intro exI [of _ "y # u'"]) simp
  qed
qed

text \<open>A burst of at most sixteen bits, seen in the errors, and left one by dropping positions.\<close>

definition burst16 :: "bool list \<Rightarrow> bool" where
  "burst16 es \<longleftrightarrow> (\<exists>p m q. es = p @ m @ q \<and> length m \<le> 16 \<and> True \<notin> set p \<and> True \<notin> set q)"

lemma burst16I:
  "es = p @ m @ q \<Longrightarrow> length m \<le> 16 \<Longrightarrow> True \<notin> set p \<Longrightarrow> True \<notin> set q \<Longrightarrow> burst16 es"
  unfolding burst16_def by blast

lemma burst16_subseq:
  assumes "subseq ds es" and "burst16 es"
  shows "burst16 ds"
proof -
  from assms(2) obtain p m q where es: "es = p @ m @ q" "length m \<le> 16" "True \<notin> set p" "True \<notin> set q"
    by (auto simp: burst16_def)
  from assms(1) es(1) obtain p' r where r: "ds = p' @ r" "subseq p' p" "subseq r (m @ q)"
    by (auto elim: subseq_appendE)
  from r(3) obtain m' q' where m: "r = m' @ q'" "subseq m' m" "subseq q' q"
    by (auto elim: subseq_appendE)
  from es(3) r(2) have "True \<notin> set p'" by (auto elim: list_emb_set)
  moreover from es(4) m(3) have "True \<notin> set q'" by (auto elim: list_emb_set)
  moreover from es(2) list_emb_length [OF m(2)] have "length m' \<le> 16" by simp
  ultimately show ?thesis using r(1) m(1) by (auto simp: burst16_def)
qed

lemma no_errors_eq:
  fixes X Y :: "bool list"
  assumes "length X = length Y" and "True \<notin> set (map2 (\<noteq>) X Y)"
  shows "X = Y"
  using assms by (induction X Y rule: list_induct2) auto

lemma burst16_split:
  fixes X Y :: "bool list"
  assumes "burst16 (map2 (\<noteq>) X Y)" and "length X = length Y"
  shows "\<exists>p m m' q. X = p @ m @ q \<and> Y = p @ m' @ q \<and> length m = length m' \<and> length m \<le> 16"
proof -
  from assms(1) obtain p m q where es: "map2 (\<noteq>) X Y = p @ m @ q" "length m \<le> 16"
    "True \<notin> set p" "True \<notin> set q" by (auto simp: burst16_def)
  let ?a = "length p" and ?b = "length m"
  have "map2 (\<noteq>) (take ?a X) (take ?a Y) = take ?a (p @ m @ q)"
    by (simp only: take_map take_zip es(1) [symmetric])
  with es(3) have 1: "take ?a X = take ?a Y"
    by (intro no_errors_eq) (simp_all add: assms(2))
  have "map2 (\<noteq>) (drop (?b + ?a) X) (drop (?b + ?a) Y) = drop (?b + ?a) (p @ m @ q)"
    by (simp only: drop_map drop_zip es(1) [symmetric])
  with es(4) have 2: "drop (?b + ?a) X = drop (?b + ?a) Y"
    by (intro no_errors_eq) (simp_all add: assms(2))
  have "Z = take ?a Z @ take ?b (drop ?a Z) @ drop (?b + ?a) Z" for Z :: "bool list"
    by (simp only: append_take_drop_id drop_drop [symmetric])
  from this [of X] this [of Y] 1 2
  have "X = take ?a X @ take ?b (drop ?a X) @ drop (?b + ?a) X"
    "Y = take ?a X @ take ?b (drop ?a Y) @ drop (?b + ?a) X" by simp_all
  moreover have "length (take ?b (drop ?a X)) = length (take ?b (drop ?a Y))" using assms(2) by simp
  moreover have "length (take ?b (drop ?a X)) \<le> 16" using es(2) by simp
  ultimately show ?thesis by blast
qed

lemma burst16_intro:
  fixes p m m' q :: "bool list"
  assumes "length m = length m'" "length m \<le> 16"
  shows "burst16 (map2 (\<noteq>) (p @ m @ q) (p @ m' @ q))"
proof -
  have same: "True \<notin> set (map2 (\<noteq>) r r)" for r :: "bool list" by (induction r) auto
  have "map2 (\<noteq>) (p @ m @ q) (p @ m' @ q) = map2 (\<noteq>) p p @ map2 (\<noteq>) m m' @ map2 (\<noteq>) q q"
    using assms(1) by simp
  moreover have "length (map2 (\<noteq>) m m') \<le> 16" using assms by simp
  ultimately show ?thesis using same [of p] same [of q] by (rule burst16I)
qed

lemma frame_burst_rejected:
  assumes "wf_frame f" and "bits_of (frame_bytes f) = p @ m @ q" and "bits_of w = p @ m' @ q"
    and "length m = length m'" "length m \<le> 16" "m \<noteq> m'"
  shows "\<exists>x y. finish \<lparr>partial = w, escaped = e, dropping = None\<rparr> = Some (Rejected (BadCrc x y))"
proof -
  have len: "length w = length (frame_bytes f)"
    using assms(2-4) length_bits_of [of w] length_bits_of [of "frame_bytes f"] by simp
  obtain hi lo where c: "be_bytes16 (crc16_all (control f # wire_body f)) = [hi, lo]"
    and v: "be_word16 hi lo = crc16_all (control f # wire_body f)"
    using be_bytes16_split by blast
  obtain u x y where w: "w = u @ [x, y]" "u \<noteq> []"
    using split_last_two [of w] len by (auto simp: length_frame_bytes)
  have "crc16_all u \<noteq> be_word16 x y"
    using burst_crc [of "control f # wire_body f" hi lo p m q u x y m'] assms v
    by (simp add: frame_bytes_def c w)
  then show ?thesis using w by (simp add: finish_bad_crc)
qed

text \<open>
  C29. A frame that arrives with an error burst of at most sixteen bits is rejected, never
  delivered: if the bytes on the wire between two flags differ from those of a frame in a window
  of at most sixteen bits, and the burst spares the framing (no reserved byte is hit and no byte
  becomes one), the decoder reports \<open>BadCrc\<close>, the rejection that is answered with a NAK, and is
  ready for the next frame. The bytes are those after stuffing: a byte that travels escaped may
  be hit like any other. A burst that turns a byte into \<open>CANCEL\<close> instead is outside the
  statement: the decoder discards the frame without a word (\<open>burst_into_cancel\<close> below).
\<close>

theorem burst_rejected:
  assumes "wf_frame f" and "wire_of f = v @ [FLAG]"
    and "list_all2 spares_framing v w"
    and "bits_of v = p @ m @ q" and "bits_of w = p @ m' @ q"
    and "length m = length m'" "length m \<le> 16" "m \<noteq> m'"
  shows "\<exists>x y. feed (w @ [FLAG]) decoder_new = ([Rejected (BadCrc x y)], decoder_new)"
proof -
  let ?u = "frame_bytes f"
  have v: "v = stuff ?u"
    using assms(2) wf_frame_body [OF assms(1)] by (simp add: wire_of_def encode_eq const_defs)
  have short: "length ?u \<le> MAX_FRAME_WITH_CRC"
    using wf_frame_body [OF assms(1)] by (simp add: length_frame_bytes const_defs)
  obtain u' where u: "length u' = length ?u" "subseq (bit_errors ?u u') (bit_errors v w)"
    "u' = ?u \<Longrightarrow> w = v" "feed w decoder_new = ([], decoder_new\<lparr>partial := u'\<rparr>)"
    using feed_damaged [OF assms(3) [unfolded v]] short by (auto simp: v decoder_new_def)
  have "burst16 (bit_errors ?u u')"
    using u(2) burst16_intro [OF assms(6,7)] by (auto simp: bit_errors_def assms(4,5) intro: burst16_subseq)
  then obtain a b b' c where s: "bits_of ?u = a @ b @ c" "bits_of u' = a @ b' @ c"
    "length b = length b'" "length b \<le> 16"
    using burst16_split [of "bits_of ?u" "bits_of u'"] u(1) by (auto simp: bit_errors_def length_bits_of)
  have "bits_of v \<noteq> bits_of w" using assms(4,5,8) by simp
  with u(3) have "u' \<noteq> ?u" by auto
  with s u(1) have "b \<noteq> b'" by (metis bits_of_inject)
  then show ?thesis
    using frame_burst_rejected [OF assms(1) s, of False] u(4)
    by (auto simp: feed_append feed_FLAG decoder_new_def simp del: feed.simps(2))
qed

lemma be_bytes16_eq: "be_bytes16 w = [ucast (drop_bit 8 w), ucast w]"
  by (simp add: be_bytes16_def numeral_2_eq_2)

lemma frame_bytes_Rst: "frame_bytes Rst = [0xc0, 0x38, 0xbc]"
proof -
  have "crc16_all [0xc0] = 0x38bc"
    by (simp add: crc16_all_def crc16_def funpow_8 crc_turn_def)
  then show ?thesis by (simp add: frame_bytes_def wire_body_def be_bytes16_eq CONTROL_RST_def)
qed

lemma burst_rejected_witness:
  "\<exists>x y. feed ([0x40, 0x38, 0xbc] @ [FLAG]) decoder_new = ([Rejected (BadCrc x y)], decoder_new)"
proof (rule burst_rejected [of Rst "[0xc0, 0x38, 0xbc]" _ "[]" "[True]" _ "[False]"])
  show "wire_of Rst = [0xc0, 0x38, 0xbc] @ [FLAG]"
    by (simp add: wire_of_def encode_eq frame_bytes_Rst is_reserved_def const_defs)
  show "list_all2 spares_framing [0xc0, 0x38, 0xbc] [0x40, 0x38, 0xbc]"
    by (simp add: spares_framing_def is_reserved_def const_defs)
  show "bits_of [0xc0, 0x38, 0xbc] = [] @ [True] @ drop 1 (bits_of [0xc0, 0x38, 0xbc])"
    by (simp add: bits_of_def bits_of_byte_eq)
  show "bits_of [0x40, 0x38, 0xbc] = [] @ [False] @ drop 1 (bits_of [0xc0, 0x38, 0xbc])"
    by (simp add: bits_of_def bits_of_byte_eq)
qed simp_all

text \<open>
  What the framing is spared for: one bit of a data frame's CRC makes it a \<open>CANCEL\<close>, and the
  decoder drops the frame silently, with no rejection to answer.
\<close>

lemma burst_into_cancel:
  "wire_of (Data 0 0 False [0x01, 0x10, 0x01]) = [0x00, 0x43, 0x31, 0xa9, 0xd2, 0x5a, FLAG] \<and>
   feed [0x00, 0x43, 0x31, 0xa9, 0xd2, CANCEL, FLAG] decoder_new = ([], decoder_new)"
proof -
  have "crc16_all [0x00, 0x43, 0x31, 0xa9] = 0xd25a"
    by (simp add: crc16_all_def crc16_def funpow_8 crc_turn_def)
  then show ?thesis
    by (simp add: wire_of_def encode_eq frame_bytes_def wire_body_def randomise_def lfsr_next_def LFSR_POLY_def be_bytes16_eq crc16_all_def crc16_def funpow_8 crc_turn_def Let_def
        is_reserved_def const_defs push_def decoder_reset_def decoder_new_def finish_def)
qed

lemma decode_encoded_stream_witness:
  "feed_chunks [[0x55, FLAG, 0xc0], [0x38, XON, 0xbc], [FLAG]] decoder_new =
     ([Rejected (TooShort 1 3), Frame Rst], decoder_new)"
proof -
  have w: "wire_of Rst = [0xc0, 0x38, 0xbc, FLAG]"
    by (simp add: wire_of_def encode_eq frame_bytes_Rst is_reserved_def const_defs)
  have "feed_chunks [[0x55, FLAG, 0xc0], [0x38, XON, 0xbc], [FLAG]] decoder_new =
     (fst (feed ([0x55] @ [FLAG]) decoder_new) @ map Frame [Rst], decoder_new)"
    by (rule decode_encoded_stream) (simp_all add: w strip_flow_def const_defs)
  then show ?thesis
    by (simp add: push_def finish_def decoder_reset_def decoder_new_def const_defs)
qed

section \<open>The decoder as a function of the segments between flags\<close>

text \<open>
  The reference: what one segment of the stream (the bytes between two flags) decodes to, said
  without a state machine. A cancel discards what precedes it; the rest is unstuffed; a
  substitute or too many bytes make the frame unusable, and the later of the two is reported.
\<close>

definition is_special :: "u8 \<Rightarrow> bool" where
  "is_special b \<longleftrightarrow> b = XON \<or> b = XOFF \<or> b = SUBSTITUTE"

primrec unstuff :: "bool \<Rightarrow> bytes \<Rightarrow> bytes" where
  "unstuff e [] = []"
| "unstuff e (b # bs) =
     (if is_special b then unstuff e bs
      else if b = ESCAPE then unstuff True bs
      else (if e then b XOR FLIP else b) # unstuff False bs)"

primrec escape_pending :: "bool \<Rightarrow> bytes \<Rightarrow> bool" where
  "escape_pending e [] = e"
| "escape_pending e (b # bs) = escape_pending (if is_special b then e else b = ESCAPE) bs"

definition after_last :: "'b \<Rightarrow> 'b list \<Rightarrow> 'b list" where
  "after_last x xs = rev (takeWhile (\<lambda>y. y \<noteq> x) (rev xs))"

definition segment_fault :: "bytes \<Rightarrow> ash_error option" where
  "segment_fault t =
     (if length (unstuff False t) > 133 \<and> unstuff False (after_last SUBSTITUTE t) \<noteq> []
      then Some (TooLong 134 133)
      else if SUBSTITUTE \<in> set t then Some Substituted else None)"

definition segment_state :: "bytes \<Rightarrow> decoder" where
  "segment_state s =
     (let t = after_last CANCEL s
      in \<lparr>partial = take 133 (unstuff False t), escaped = escape_pending False t,
          dropping = segment_fault t\<rparr>)"

definition check_frame :: "bytes \<Rightarrow> decoded option" where
  "check_frame u = finish \<lparr>partial = u, escaped = False, dropping = None\<rparr>"

definition segment_outcome :: "bytes \<Rightarrow> decoded option" where
  "segment_outcome s =
     (let t = after_last CANCEL s
      in case segment_fault t of
           Some e \<Rightarrow> Some (Rejected e)
         | None \<Rightarrow> check_frame (unstuff False t))"

lemma unstuff_snoc:
  "unstuff e (t @ [b]) = unstuff e t @
     (if is_special b \<or> b = ESCAPE then [] else [if escape_pending e t then b XOR FLIP else b])"
  by (induction t arbitrary: e) auto

lemma escape_pending_snoc:
  "escape_pending e (t @ [b]) = (if is_special b then escape_pending e t else b = ESCAPE)"
  by (induction t arbitrary: e) auto

lemma after_last_snoc [simp]:
  "after_last x (xs @ [y]) = (if y = x then [] else after_last x xs @ [y])"
  by (simp add: after_last_def)

lemma after_last_Nil [simp]: "after_last x [] = []"
  by (simp add: after_last_def)

lemma after_last_notin: "x \<notin> set xs \<Longrightarrow> after_last x xs = xs"
  by (induction xs rule: rev_induct) auto

lemma set_after_last: "x \<notin> set (after_last x xs)"
  by (auto simp: after_last_def dest: set_takeWhileD)

lemma segment_fault_special:
  assumes "is_special b \<or> b = ESCAPE"
  shows "segment_fault (t @ [b]) = (if b = SUBSTITUTE then Some Substituted else segment_fault t)"
  using assms by (auto simp: segment_fault_def unstuff_snoc)

lemma segment_fault_data:
  assumes "\<not> is_special b" "b \<noteq> ESCAPE"
  shows "segment_fault (t @ [b]) =
    (if length (unstuff False t) \<ge> 133 then Some (TooLong 134 133) else segment_fault t)"
  using assms by (auto simp: segment_fault_def unstuff_snoc is_special_def)

lemma specials_distinct:
  "XON \<noteq> CANCEL" "XOFF \<noteq> CANCEL" "SUBSTITUTE \<noteq> CANCEL" "ESCAPE \<noteq> CANCEL"
  "SUBSTITUTE \<noteq> XON" "SUBSTITUTE \<noteq> XOFF" "ESCAPE \<noteq> XON" "ESCAPE \<noteq> XOFF" "ESCAPE \<noteq> SUBSTITUTE"
  "FLAG \<noteq> CANCEL" "FLAG \<noteq> XON" "FLAG \<noteq> XOFF" "FLAG \<noteq> SUBSTITUTE" "FLAG \<noteq> ESCAPE"
  by (simp_all add: const_defs)

lemma push_segment:
  assumes "b \<noteq> FLAG"
  shows "push b (segment_state s) = (None, segment_state (s @ [b]))"
proof -
  note d = specials_distinct specials_distinct [symmetric]
  let ?t = "after_last CANCEL s"
  consider "b = CANCEL" | "b = XON \<or> b = XOFF" | "b = SUBSTITUTE" | "b = ESCAPE"
    | "\<not> is_special b" "b \<noteq> ESCAPE" "b \<noteq> CANCEL"
    by (auto simp: is_special_def)
  then show ?thesis
  proof cases
    case 1
    then show ?thesis
      by (simp add: d push_def segment_state_def Let_def decoder_reset_def segment_fault_def)
  next
    case 2
    then have "b \<noteq> SUBSTITUTE" "b \<noteq> CANCEL" "is_special b" by (auto simp: d is_special_def)
    with 2 show ?thesis
      by (simp add: push_def segment_state_def Let_def segment_fault_special unstuff_snoc escape_pending_snoc)
  next
    case 3
    then show ?thesis
      by (simp add: d push_def segment_state_def Let_def segment_fault_special unstuff_snoc
          escape_pending_snoc is_special_def)
  next
    case 4
    then show ?thesis
      by (simp add: d push_def segment_state_def Let_def segment_fault_special unstuff_snoc
          escape_pending_snoc is_special_def)
  next
    case 5
    with assms have "b \<noteq> XON" "b \<noteq> XOFF" "b \<noteq> SUBSTITUTE" by (auto simp: is_special_def)
    with 5 assms show ?thesis
      by (simp add: push_def segment_state_def Let_def segment_fault_data unstuff_snoc
          escape_pending_snoc MAX_FRAME_WITH_CRC_def)
  qed
qed

lemma segment_state_Nil: "segment_state [] = decoder_new"
  by (simp add: segment_state_def segment_fault_def decoder_new_def)

lemma feed_segment: "FLAG \<notin> set s \<Longrightarrow> feed s decoder_new = ([], segment_state s)"
proof (induction s rule: rev_induct)
  case (snoc b s)
  then have "b \<noteq> FLAG" by auto
  with snoc show ?case by (simp add: feed_append push_segment)
qed (simp add: segment_state_Nil)

lemma finish_cong: "partial d = partial d' \<Longrightarrow> dropping d = dropping d' \<Longrightarrow> finish d = finish d'"
  by (simp only: finish_def)

lemma finish_segment_state: "finish (segment_state s) = segment_outcome s"
proof (cases "segment_fault (after_last CANCEL s)")
  case None
  then have "length (unstuff False (after_last CANCEL s)) \<le> 133"
    by (auto simp: segment_fault_def after_last_notin split: if_splits)
  with None show ?thesis
    by (auto simp: segment_state_def segment_outcome_def check_frame_def Let_def intro: finish_cong)
next
  case (Some e)
  then show ?thesis
    by (simp add: segment_state_def segment_outcome_def Let_def finish_def)
qed

lemma feed_segments:
  assumes "\<forall>s\<in>set segs. FLAG \<notin> set s" and "FLAG \<notin> set rest"
  shows "feed (concat (map (\<lambda>s. s @ [FLAG]) segs) @ rest) decoder_new =
     (List.map_filter segment_outcome segs, segment_state rest)"
  using assms
proof (induction segs)
  case (Cons s segs)
  then show ?case
    by (simp add: feed_append feed_segment push_FLAG finish_segment_state List.map_filter_def
        split: option.split)
qed (simp add: feed_segment List.map_filter_def)

text \<open>
  C11. The incremental decoder computes the per-segment reference. For any stream, cut at its
  flags, the decoder delivers the outcome of every segment that has one, in order, and keeps of
  the unfinished rest exactly what the reference makes of it.
\<close>

theorem decoder_refines_segments:
  assumes "\<forall>s\<in>set segs. FLAG \<notin> set s" and "FLAG \<notin> set rest"
  shows "feed (concat (map (\<lambda>s. s @ [FLAG]) segs) @ rest) decoder_new =
     (List.map_filter segment_outcome segs, segment_state rest)"
  using assms by (rule feed_segments)

lemma decoder_refines_segments_witness:
  "feed ([0xc0, 0x38, CANCEL, SUBSTITUTE, FLAG, FLAG, ESCAPE]) decoder_new =
     ([Rejected Substituted], segment_state [ESCAPE])"
proof -
  have "feed (concat (map (\<lambda>s. s @ [FLAG]) [[0xc0, 0x38, CANCEL, SUBSTITUTE], []]) @ [ESCAPE]) decoder_new =
     (List.map_filter segment_outcome [[0xc0, 0x38, CANCEL, SUBSTITUTE], []], segment_state [ESCAPE])"
    by (rule decoder_refines_segments) (simp_all add: const_defs)
  moreover have "segment_outcome [0xc0, 0x38, CANCEL, SUBSTITUTE] = Some (Rejected Substituted)"
    "segment_outcome [] = None"
    by (simp_all add: segment_outcome_def segment_fault_def after_last_def check_frame_def finish_def
        is_special_def const_defs)
  ultimately show ?thesis by (simp add: List.map_filter_def)
qed

section \<open>What the decoder delivers, and what the encoder must not be given\<close>

text \<open>A frame is only ever delivered from its own bytes on the wire.\<close>

lemma check_frame_sound:
  assumes "check_frame u = Some (Frame f)"
  shows "wf_frame f \<and> (\<exists>c. canonical_control c = control f \<and>
    u = (c # wire_body f) @ be_bytes16 (crc16_all (c # wire_body f)))"
proof -
  from assms have ne: "u \<noteq> []" and len: "3 \<le> length u"
    by (auto simp: check_frame_def finish_def const_defs split: if_splits)
  obtain v hi lo where u: "u = v @ [hi, lo]" "v \<noteq> []" using split_last_two [OF len] .
  then obtain c b where v: "v = c # b" by (cases v) auto
  let ?b = "if c AND 0x80 = 0 then randomise b else b"
  from assms len have crc: "crc16_all v = be_word16 hi lo" and fp: "from_parts c ?b = Inr f"
    by (auto simp: check_frame_def finish_def u v Let_def const_defs split: if_splits sum.splits)
  note p = from_parts_sound [OF fp]
  have d: "(c AND 0x80 = 0) \<longleftrightarrow> (\<exists>fn an rt q. f = Data fn an rt q)"
    using fp by (auto simp: from_parts_def Let_def const_defs split: if_splits list.splits)
  have "wire_body f = b"
    using p d by (cases f) (auto simp: wire_body_def split: if_splits)
  moreover have "[hi, lo] = be_bytes16 (be_word16 hi lo)"
    using le_bytes_le_word' [of "[lo, hi]" 2, where ?'a = 16]
    by (simp add: be_bytes16_def be_word16_def)
  ultimately show ?thesis using p crc by (auto simp: u v)
qed

lemma split_at_flags:
  "\<exists>segs rest. bs = concat (map (\<lambda>s. s @ [FLAG]) segs) @ rest \<and>
     (\<forall>s\<in>set segs. FLAG \<notin> set s) \<and> FLAG \<notin> set rest"
proof (induction bs rule: rev_induct)
  case Nil
  show ?case by (intro exI [of _ "[]"]) simp
next
  case (snoc b bs)
  then obtain segs rest where s: "bs = concat (map (\<lambda>s. s @ [FLAG]) segs) @ rest"
    "\<forall>s\<in>set segs. FLAG \<notin> set s" "FLAG \<notin> set rest" by blast
  show ?case
  proof (cases "b = FLAG")
    case True
    with s show ?thesis by (intro exI [of _ "segs @ [rest]"] exI [of _ "[]"]) auto
  next
    case False
    with s show ?thesis by (intro exI [of _ segs] exI [of _ "rest @ [b]"]) auto
  qed
qed

text \<open>
  C28. Nothing is delivered that was not on the wire. Every frame the decoder delivers is well
  formed, and the stream contains, right before a flag, a segment that unstuffs, untouched by a
  substitute or an overrun, to that frame's control byte, its (randomised) body and the CRC over
  both.
\<close>

theorem delivered_was_on_the_wire:
  assumes "Frame f \<in> set (fst (feed bs decoder_new))"
  shows "wf_frame f \<and> (\<exists>pre s post c. bs = pre @ s @ [FLAG] @ post \<and> FLAG \<notin> set s \<and>
     segment_fault (after_last CANCEL s) = None \<and> canonical_control c = control f \<and>
     unstuff False (after_last CANCEL s) = (c # wire_body f) @ be_bytes16 (crc16_all (c # wire_body f)))"
proof -
  obtain segs rest where bs: "bs = concat (map (\<lambda>s. s @ [FLAG]) segs) @ rest"
    and fl: "\<forall>s\<in>set segs. FLAG \<notin> set s" "FLAG \<notin> set rest"
    using split_at_flags [of bs] by blast
  from assms obtain s where s: "s \<in> set segs" and out: "segment_outcome s = Some (Frame f)"
    by (auto simp: bs feed_segments [OF fl] List.map_filter_def)
  from s obtain xs ys where "segs = xs @ s # ys" by (meson split_list)
  then have split: "bs = concat (map (\<lambda>s. s @ [FLAG]) xs) @ s @ [FLAG] @
    (concat (map (\<lambda>s. s @ [FLAG]) ys) @ rest)"
    by (simp add: bs)
  from out have "segment_fault (after_last CANCEL s) = None"
    and "check_frame (unstuff False (after_last CANCEL s)) = Some (Frame f)"
    by (auto simp: segment_outcome_def Let_def split: option.splits)
  with check_frame_sound split fl s show ?thesis by blast
qed

lemma delivered_was_on_the_wire_witness:
  "Frame Rst \<in> set (fst (feed [0xc0, 0x38, 0xbc, FLAG] decoder_new)) \<and> wf_frame Rst"
proof -
  have "feed [0xc0, 0x38, 0xbc, FLAG] decoder_new = ([Frame Rst], decoder_new)"
    using feed_wire [of Rst] by (simp add: wire_of_def encode_eq frame_bytes_Rst is_reserved_def const_defs)
  then have "Frame Rst \<in> set (fst (feed [0xc0, 0x38, 0xbc, FLAG] decoder_new))" by simp
  from delivered_was_on_the_wire [OF this] this show ?thesis by blast
qed

text \<open>
  The decoder's buffer stays bounded: whatever arrives, with or without a flag, at most 133
  bytes are held.
\<close>

theorem decoder_buffer_bounded: "length (partial (snd (feed bs decoder_new))) \<le> MAX_FRAME_WITH_CRC"
  by (rule feed_bounded) (simp add: decoder_new_def)

lemma stuff_clean: "b \<in> set (stuff bs) \<Longrightarrow> is_reserved b \<Longrightarrow> b = ESCAPE"
  using reserved_flip by (induction bs) (auto split: if_splits)

text \<open>
  What \<open>encode\<close> writes is transparent: exactly one flag, at the end, and no flow control,
  cancel or substitute byte anywhere, so that nothing in a payload can be taken for the framing.
\<close>

theorem encoded_is_transparent:
  assumes "encode f = Inr w"
  shows "\<exists>s. w = s @ [FLAG] \<and> (\<forall>b\<in>set s. is_reserved b \<longrightarrow> b = ESCAPE)"
  using assms stuff_clean by (auto simp: encode_eq split: if_splits)

lemma encoded_is_transparent_witness:
  "\<exists>s. [0xc0, 0x38, 0xbc, FLAG] = s @ [FLAG] \<and> (\<forall>b\<in>set s. is_reserved b \<longrightarrow> b = ESCAPE)"
  by (rule encoded_is_transparent [of Rst])
    (simp add: encode_eq frame_bytes_Rst is_reserved_def const_defs)

text \<open>
  \<open>encode\<close> promises \<open>TooLong\<close> for a data field longer than ASH permits, but its bound is the
  133 bytes of the whole frame: payloads of 129 and 130 bytes are encoded, and the peer's decoder,
  which is the same code, rejects the frame that arrives.
\<close>

theorem oversize_payload_encoded_then_rejected:
  assumes "length p = 129 \<or> length p = 130"
  shows "\<exists>w. encode (Data fn an rt p) = Inr w \<and>
     feed w decoder_new = ([Rejected (TooLong (length p) MAX_DATA_FIELD_LEN)], decoder_new)"
proof -
  let ?f = "Data fn an rt p"
  from assms have "length (body ?f) \<le> 130" "length p > 128" by auto
  with feed_frame [of ?f] from_parts_data [OF control_data(1) [of fn an rt p], of p] show ?thesis
    by (simp add: encode_eq const_defs del: control.simps feed.simps(2))
qed

lemma oversize_payload_encoded_then_rejected_witness:
  "\<exists>w. encode (Data 0 0 False (replicate 129 0)) = Inr w \<and>
     feed w decoder_new = ([Rejected (TooLong 129 MAX_DATA_FIELD_LEN)], decoder_new)"
  using oversize_payload_encoded_then_rejected [of "replicate 129 0" 0 0 False] by simp

end
