(* ===== verification/EzspBase.thy ===== *)
theory EzspBase
  imports AshError
begin

text \<open>
  What every module of the EZSP layer shares: the negotiated protocol version with its named
  boundaries (\<open>ezsp/version.rs\<close>), frame identifiers (\<open>FrameId\<close> of \<open>ezsp/frame.rs\<close>), status
  values (\<open>types/status.rs\<close>) and the errors (\<open>ezsp/error.rs\<close>).
\<close>

section \<open>Protocol versions\<close>

datatype protocol_version = ProtocolVersion (raw: u8)

instantiation protocol_version :: linorder
begin

definition less_eq_protocol_version :: "protocol_version \<Rightarrow> protocol_version \<Rightarrow> bool" where
  "less_eq_protocol_version v w \<longleftrightarrow> raw v \<le> raw w"

definition less_protocol_version :: "protocol_version \<Rightarrow> protocol_version \<Rightarrow> bool" where
  "less_protocol_version v w \<longleftrightarrow> raw v < raw w"

instance
  by standard
    (auto simp: less_eq_protocol_version_def less_protocol_version_def intro: protocol_version.expand)

end

definition MIN_SUPPORTED :: protocol_version where [const_defs]: "MIN_SUPPORTED = ProtocolVersion 0x0d"
definition MAX_SUPPORTED :: protocol_version where [const_defs]: "MAX_SUPPORTED = ProtocolVersion 0x13"
definition PREFERRED :: protocol_version where [const_defs]: "PREFERRED = MAX_SUPPORTED"
definition WIDER_STATUS :: protocol_version where [const_defs]: "WIDER_STATUS = ProtocolVersion 0x0e"

definition is_supported :: "protocol_version \<Rightarrow> bool" where
  "is_supported v \<longleftrightarrow> raw v \<ge> raw MIN_SUPPORTED \<and> raw v \<le> raw MAX_SUPPORTED"

definition has_wide_status :: "protocol_version \<Rightarrow> bool" where
  "has_wide_status v \<longleftrightarrow> raw v \<ge> raw WIDER_STATUS"

definition has_wide_message_tag :: "protocol_version \<Rightarrow> bool" where
  "has_wide_message_tag v \<longleftrightarrow> raw v \<ge> raw WIDER_STATUS"

definition has_transient_key_flags :: "protocol_version \<Rightarrow> bool" where
  "has_transient_key_flags v \<longleftrightarrow> raw v < raw WIDER_STATUS"

lemma has_transient_key_flags_iff: "has_transient_key_flags v \<longleftrightarrow> \<not> has_wide_status v"
  by (simp add: has_transient_key_flags_def has_wide_status_def not_le)

lemma has_wide_message_tag_iff: "has_wide_message_tag v \<longleftrightarrow> has_wide_status v"
  by (simp add: has_wide_message_tag_def has_wide_status_def)

section \<open>Frame identifiers\<close>

datatype frame_id = FrameId (id_raw: u16)

definition ID_VERSION :: frame_id where [const_defs]: "ID_VERSION = FrameId 0x0000"
definition ID_ADD_ENDPOINT :: frame_id where [const_defs]: "ID_ADD_ENDPOINT = FrameId 0x0002"
definition ID_NETWORK_INIT :: frame_id where [const_defs]: "ID_NETWORK_INIT = FrameId 0x0017"
definition ID_PERMIT_JOINING :: frame_id where [const_defs]: "ID_PERMIT_JOINING = FrameId 0x0022"
definition ID_GET_EUI64 :: frame_id where [const_defs]: "ID_GET_EUI64 = FrameId 0x0026"
definition ID_SEND_UNICAST :: frame_id where [const_defs]: "ID_SEND_UNICAST = FrameId 0x0034"
definition ID_SEND_BROADCAST :: frame_id where [const_defs]: "ID_SEND_BROADCAST = FrameId 0x0036"
definition ID_SET_MANUFACTURER_CODE :: frame_id where [const_defs]: "ID_SET_MANUFACTURER_CODE = FrameId 0x0015"
definition ID_FORM_NETWORK :: frame_id where [const_defs]: "ID_FORM_NETWORK = FrameId 0x001e"
definition ID_NETWORK_STATE :: frame_id where [const_defs]: "ID_NETWORK_STATE = FrameId 0x0018"
definition ID_SEND_MULTICAST :: frame_id where [const_defs]: "ID_SEND_MULTICAST = FrameId 0x0038"
definition ID_GET_NETWORK_KEY_INFO :: frame_id where [const_defs]: "ID_GET_NETWORK_KEY_INFO = FrameId 0x0116"
definition ID_GET_NETWORK_PARAMETERS :: frame_id where [const_defs]: "ID_GET_NETWORK_PARAMETERS = FrameId 0x0028"
definition ID_GET_CONFIGURATION_VALUE :: frame_id where [const_defs]: "ID_GET_CONFIGURATION_VALUE = FrameId 0x0052"
definition ID_SET_INITIAL_SECURITY_STATE :: frame_id where [const_defs]: "ID_SET_INITIAL_SECURITY_STATE = FrameId 0x0068"
definition ID_CLEAR_TRANSIENT_LINK_KEYS :: frame_id where [const_defs]: "ID_CLEAR_TRANSIENT_LINK_KEYS = FrameId 0x006b"
definition ID_GET_VALUE :: frame_id where [const_defs]: "ID_GET_VALUE = FrameId 0x00aa"
definition ID_EXPORT_KEY :: frame_id where [const_defs]: "ID_EXPORT_KEY = FrameId 0x0114"
definition ID_SET_CONFIGURATION_VALUE :: frame_id where [const_defs]: "ID_SET_CONFIGURATION_VALUE = FrameId 0x0053"
definition ID_SET_POLICY :: frame_id where [const_defs]: "ID_SET_POLICY = FrameId 0x0055"
definition ID_IMPORT_TRANSIENT_KEY :: frame_id where [const_defs]: "ID_IMPORT_TRANSIENT_KEY = FrameId 0x0111"
definition ID_STACK_STATUS_HANDLER :: frame_id where [const_defs]: "ID_STACK_STATUS_HANDLER = FrameId 0x0019"
definition ID_MESSAGE_SENT_HANDLER :: frame_id where [const_defs]: "ID_MESSAGE_SENT_HANDLER = FrameId 0x003f"
definition ID_INCOMING_MESSAGE_HANDLER :: frame_id where [const_defs]: "ID_INCOMING_MESSAGE_HANDLER = FrameId 0x0045"
definition ID_TRUST_CENTER_JOIN_HANDLER :: frame_id where [const_defs]: "ID_TRUST_CENTER_JOIN_HANDLER = FrameId 0x0024"

definition fits_legacy :: "frame_id \<Rightarrow> bool" where
  "fits_legacy i \<longleftrightarrow> id_raw i \<le> 0xff"

text \<open>The documented name, when the code knows one.\<close>

definition frame_id_name :: "frame_id \<Rightarrow> string option" where
  "frame_id_name i =
     (if i = ID_VERSION then Some ''version''
      else if i = ID_ADD_ENDPOINT then Some ''addEndpoint''
      else if i = ID_NETWORK_INIT then Some ''networkInit''
      else if i = ID_PERMIT_JOINING then Some ''permitJoining''
      else if i = ID_GET_EUI64 then Some ''getEui64''
      else if i = ID_SEND_UNICAST then Some ''sendUnicast''
      else if i = ID_SET_CONFIGURATION_VALUE then Some ''setConfigurationValue''
      else if i = ID_SET_POLICY then Some ''setPolicy''
      else if i = ID_IMPORT_TRANSIENT_KEY then Some ''importTransientKey''
      else if i = ID_STACK_STATUS_HANDLER then Some ''stackStatusHandler''
      else if i = ID_MESSAGE_SENT_HANDLER then Some ''messageSentHandler''
      else if i = ID_INCOMING_MESSAGE_HANDLER then Some ''incomingMessageHandler''
      else if i = ID_TRUST_CENTER_JOIN_HANDLER then Some ''trustCenterJoinHandler''
      else None)"

definition carries_key_material :: "frame_id \<Rightarrow> bool" where
  "carries_key_material i \<longleftrightarrow>
     i = ID_EXPORT_KEY \<or> i = ID_IMPORT_TRANSIENT_KEY \<or> i = ID_SET_INITIAL_SECURITY_STATE
       \<or> i = ID_GET_NETWORK_KEY_INFO"

section \<open>Status values and errors\<close>

datatype sl_status = SlStatus (status_raw: u32)

definition STATUS_OK :: sl_status where [const_defs]: "STATUS_OK = SlStatus 0x0000"
definition STATUS_FAIL :: sl_status where [const_defs]: "STATUS_FAIL = SlStatus 0x0001"
definition STATUS_INVALID_PARAMETER :: sl_status where [const_defs]: "STATUS_INVALID_PARAMETER = SlStatus 0x0021"
definition STATUS_INVALID_STATE :: sl_status where [const_defs]: "STATUS_INVALID_STATE = SlStatus 0x0002"
definition STATUS_NOT_SUPPORTED :: sl_status where [const_defs]: "STATUS_NOT_SUPPORTED = SlStatus 0x000f"
definition STATUS_NOT_JOINED :: sl_status where [const_defs]: "STATUS_NOT_JOINED = SlStatus 0x0b16"
definition STATUS_NETWORK_UP :: sl_status where [const_defs]: "STATUS_NETWORK_UP = SlStatus 0x0b13"
definition STATUS_NETWORK_DOWN :: sl_status where [const_defs]: "STATUS_NETWORK_DOWN = SlStatus 0x0b14"

datatype ezsp_error =
    TruncatedFrame nat nat
  | FrameTooLong nat nat
  | PayloadTooLong nat nat
  | MalformedHeader string
  | TrailingBytes frame_id nat
  | UnsupportedVersion protocol_version
  | UnsupportedCommand frame_id protocol_version
  | UnexpectedResponse frame_id frame_id
  | SequenceMismatch u8
  | UnknownEnum string u32
  | Status sl_status
  | Timeout frame_id
  | NcpReset frame_id
  | NotConnected
  | Transport string
  | Ash ash_error

fun is_transient :: "ezsp_error \<Rightarrow> bool" where
  "is_transient (Timeout _) = True"
| "is_transient (NcpReset _) = True"
| "is_transient (Transport _) = True"
| "is_transient (Ash _) = True"
| "is_transient _ = False"

definition is_ok :: "sl_status \<Rightarrow> bool" where
  "is_ok s \<longleftrightarrow> status_raw s = status_raw STATUS_OK"

definition into_result :: "sl_status \<Rightarrow> ezsp_error + unit" where
  "into_result s = (if is_ok s then Inr () else Inl (Status s))"

end
