(* ===== verification/EzspCodec.thy ===== *)
theory EzspCodec
  imports EzspBase "HOL-Library.Sublist"
begin

text \<open>
  The cursor over a received frame and the buffer of an outgoing one (\<open>ezsp/codec.rs\<close>), and the
  two contracts behind the traits \<open>EzspDecode\<close> and \<open>EzspEncode\<close>, as locales: a decoder moves the
  cursor over exactly the bytes it reads and looks at nothing else; an encoder only appends; and
  a codec is an encoder and a decoder that are inverse to each other inside any frame. The
  predicates of the first two are closed under sequencing, so that every command, callback and
  type of the EZSP layer is interpreted by following its definition.
\<close>

section \<open>Reader\<close>

record reader =
  reader_bytes :: bytes
  cursor :: nat
  reader_version :: protocol_version

definition reader_new :: "bytes \<Rightarrow> protocol_version \<Rightarrow> reader" where
  "reader_new bs v = \<lparr>reader_bytes = bs, cursor = 0, reader_version = v\<rparr>"

definition remaining :: "reader \<Rightarrow> nat" where
  "remaining r = length (reader_bytes r) - cursor r"

definition reader_is_empty :: "reader \<Rightarrow> bool" where
  "reader_is_empty r \<longleftrightarrow> remaining r = 0"

text \<open>\<open>bytes.get(position..)\<close> is \<open>None\<close> only beyond the end, where \<open>drop\<close> is empty as well.\<close>

definition peek_rest :: "reader \<Rightarrow> bytes" where
  "peek_rest r = drop (cursor r) (reader_bytes r)"

type_synonym 'a decode = "(reader, ezsp_error, 'a) action"

text \<open>\<open>bytes.get(a..b)\<close> with \<open>a \<le> b\<close>.\<close>

definition get_range :: "bytes \<Rightarrow> nat \<Rightarrow> nat \<Rightarrow> bytes option" where
  "get_range bs a b = (if a \<le> b \<and> b \<le> length bs then Some (drop a (take b bs)) else None)"

definition reader_take :: "nat \<Rightarrow> bytes decode" where
  "reader_take n r =
     (case usize_checked_add (cursor r) n of
        None \<Rightarrow> (Inl (TruncatedFrame n (remaining r)), r)
      | Some e \<Rightarrow>
          (case get_range (reader_bytes r) (cursor r) e of
             None \<Rightarrow> (Inl (TruncatedFrame n (remaining r)), r)
           | Some s \<Rightarrow> (Inr s, r\<lparr>cursor := e\<rparr>)))"

definition take_rest :: "reader \<Rightarrow> bytes \<times> reader" where
  "take_rest r = (peek_rest r, r\<lparr>cursor := length (reader_bytes r)\<rparr>)"

definition reader_u8 :: "u8 decode" where
  "reader_u8 = andthen (reader_take 1)
     (\<lambda>bs. case bs of b # _ \<Rightarrow> ret b | [] \<Rightarrow> throw (TruncatedFrame 1 0))"

definition reader_u16 :: "u16 decode" where
  "reader_u16 = andthen (reader_take 2)
     (\<lambda>bs. case bs of [a, b] \<Rightarrow> ret (le_word [a, b]) | _ \<Rightarrow> throw (TruncatedFrame 2 (length bs)))"

definition reader_u32 :: "u32 decode" where
  "reader_u32 = andthen (reader_take 4)
     (\<lambda>bs. case bs of [a, b, c, d] \<Rightarrow> ret (le_word [a, b, c, d]) | _ \<Rightarrow> throw (TruncatedFrame 4 (length bs)))"

text \<open>A Rust array \<open>[u8; N]\<close> is a list of that length.\<close>

definition reader_array :: "nat \<Rightarrow> bytes decode" where
  "reader_array n = andthen (reader_take n)
     (\<lambda>bs. if length bs = n then ret bs else throw (TruncatedFrame n (length bs)))"

definition reader_length_prefixed :: "bytes decode" where
  "reader_length_prefixed = andthen reader_u8 (\<lambda>len. reader_take (unat len))"

section \<open>Writer\<close>

record writer =
  writer_bytes :: bytes
  writer_version :: protocol_version

definition writer_new :: "protocol_version \<Rightarrow> writer" where
  "writer_new v = \<lparr>writer_bytes = [], writer_version = v\<rparr>"

definition writer_len :: "writer \<Rightarrow> nat" where
  "writer_len w = length (writer_bytes w)"

type_synonym encode = "(writer, ezsp_error, unit) action"

definition writer_put :: "bytes \<Rightarrow> encode" where
  "writer_put bs w = (Inr (), w\<lparr>writer_bytes := writer_bytes w @ bs\<rparr>)"

definition writer_u8 :: "u8 \<Rightarrow> encode" where
  "writer_u8 b = writer_put [b]"

definition writer_u16 :: "u16 \<Rightarrow> encode" where
  "writer_u16 n = writer_put (le_bytes 2 n)"

definition writer_u32 :: "u32 \<Rightarrow> encode" where
  "writer_u32 n = writer_put (le_bytes 4 n)"

definition writer_length_prefixed :: "bytes \<Rightarrow> encode" where
  "writer_length_prefixed bs =
     (if length bs > 255 then throw (PayloadTooLong (length bs) 255)
      else andthen (writer_u8 (word_of_nat (length bs))) (\<lambda>_. writer_put bs))"

section \<open>The contract of a decoder\<close>

text \<open>
  The slice behind a reader is shorter than \<open>isize::MAX\<close>, as every Rust slice is, and the cursor
  is inside it.
\<close>

definition wf_reader :: "reader \<Rightarrow> bool" where
  "wf_reader r \<longleftrightarrow> cursor r \<le> length (reader_bytes r) \<and> length (reader_bytes r) < 2 ^ 63"

definition advance :: "nat \<Rightarrow> reader \<Rightarrow> reader" where
  "advance k r = r\<lparr>cursor := cursor r + k\<rparr>"

lemma advance_0 [simp]: "advance 0 r = r"
  by (simp add: advance_def)

lemma advance_add [simp]: "advance k (advance j r) = advance (j + k) r"
  by (simp add: advance_def add.assoc)

lemma reader_version_advance [simp]: "reader_version (advance k r) = reader_version r"
  by (simp add: advance_def)

lemma peek_rest_advance [simp]: "peek_rest (advance k r) = drop k (peek_rest r)"
  by (simp add: advance_def peek_rest_def add.commute)

lemma wf_reader_advance: "wf_reader r \<Longrightarrow> k \<le> length (peek_rest r) \<Longrightarrow> wf_reader (advance k r)"
  by (auto simp: wf_reader_def advance_def peek_rest_def)

lemma remaining_peek: "remaining r = length (peek_rest r)"
  by (simp add: remaining_def peek_rest_def)

lemma wf_reader_new: "length bs < 2 ^ 63 \<Longrightarrow> wf_reader (reader_new bs v)"
  by (simp add: wf_reader_def reader_new_def)

lemma peek_rest_new [simp]: "peek_rest (reader_new bs v) = bs"
  by (simp add: peek_rest_def reader_new_def)

lemma reader_version_new [simp]: "reader_version (reader_new bs v) = v"
  by (simp add: reader_new_def)

lemma reader_take_eq:
  assumes "wf_reader r" and "n < 2 ^ 63"
  shows "reader_take n r =
     (if n \<le> length (peek_rest r) then (Inr (take n (peek_rest r)), advance n r)
      else (Inl (TruncatedFrame n (length (peek_rest r))), r))"
proof -
  have "cursor r + n < 2 ^ 64" using assms by (simp add: wf_reader_def)
  then show ?thesis
    using assms(1)
    by (auto simp: reader_take_def usize_checked_add_def get_range_def peek_rest_def remaining_def
        advance_def wf_reader_def drop_take)
qed

text \<open>
  A decoder keeps the frame and the version, moves the cursor forward inside the frame, and its
  result is determined by the bytes it moved over: on any other reader that continues with those
  bytes it gives the same value.
\<close>

locale ezsp_decode =
  fixes dec :: "'a decode"
  assumes advances: "wf_reader r \<Longrightarrow> dec r = (res, r') \<Longrightarrow>
      \<exists>k \<le> length (peek_rest r). r' = advance k r"
    and local: "wf_reader r \<Longrightarrow> dec r = (Inr x, advance k r) \<Longrightarrow> k \<le> length (peek_rest r) \<Longrightarrow>
      wf_reader q \<Longrightarrow> reader_version q = reader_version r \<Longrightarrow>
      take k (peek_rest q) = take k (peek_rest r) \<Longrightarrow> k \<le> length (peek_rest q) \<Longrightarrow>
      dec q = (Inr x, advance k q)"
begin

lemma keeps_frame: "wf_reader r \<Longrightarrow> dec r = (res, r') \<Longrightarrow>
  wf_reader r' \<and> reader_bytes r' = reader_bytes r \<and> reader_version r' = reader_version r"
  using advances [of r res r'] by (auto simp: wf_reader_advance) (simp add: advance_def)

lemma success_split:
  assumes "wf_reader r" "dec r = (Inr x, r')"
  obtains bs rest where "peek_rest r = bs @ rest" "r' = advance (length bs) r" "peek_rest r' = rest"
proof -
  from advances [OF assms] obtain k where k: "k \<le> length (peek_rest r)" "r' = advance k r" by blast
  show ?thesis
    by (rule that [of "take k (peek_rest r)" "drop k (peek_rest r)"]) (use k in auto)
qed

end

lemma advance_inject: "advance j r = advance k r \<longleftrightarrow> j = k"
  by (metis add_left_cancel advance_def reader.select_convs(2) reader.surjective reader.update_convs(2))

section \<open>Decoders built from decoders\<close>

lemma ezsp_decode_ret [intro, simp]: "ezsp_decode (ret x)"
proof
  fix r r' :: reader and res assume "ret x r = (res, r')"
  then show "\<exists>k \<le> length (peek_rest r). r' = advance k r" by (intro exI [of _ 0]) simp
next
  fix r y k q
  assume "ret x r = (Inr y, advance k r)"
  moreover from this have "advance k r = advance 0 r" by simp
  ultimately show "ret x q = (Inr y, advance k q)" by (simp only: advance_inject) auto
qed

lemma ezsp_decode_throw [intro, simp]: "ezsp_decode (throw e)"
proof
  fix r r' :: reader and res assume "throw e r = (res, r')"
  then show "\<exists>k \<le> length (peek_rest r). r' = advance k r" by (intro exI [of _ 0]) simp
qed simp

lemma ezsp_decode_take [intro, simp]:
  assumes "n < 2 ^ 63"
  shows "ezsp_decode (reader_take n)"
proof
  fix r res r' assume "wf_reader r" "reader_take n r = (res, r')"
  with assms show "\<exists>k \<le> length (peek_rest r). r' = advance k r"
    by (auto simp: reader_take_eq split: if_splits intro: exI [of _ 0])
next
  fix r x k q
  assume r: "wf_reader r" "reader_take n r = (Inr x, advance k r)" "k \<le> length (peek_rest r)"
    and q: "wf_reader q" "take k (peek_rest q) = take k (peek_rest r)" "k \<le> length (peek_rest q)"
  from r assms have "k = n" "x = take n (peek_rest r)"
    by (auto simp: reader_take_eq advance_inject split: if_splits)
  with q assms show "reader_take n q = (Inr x, advance k q)" by (simp add: reader_take_eq)
qed

lemma ezsp_decode_andthen [intro]:
  assumes m: "ezsp_decode m" and f: "\<And>x. ezsp_decode (f x)"
  shows "ezsp_decode (andthen m f)"
proof
  fix r res r' assume r: "wf_reader r" and e: "andthen m f r = (res, r')"
  obtain r1 res1 where m1: "m r = (res1, r1)" by (cases "m r")
  obtain j where j: "j \<le> length (peek_rest r)" "r1 = advance j r"
    using ezsp_decode.advances [OF m r m1] by blast
  show "\<exists>k \<le> length (peek_rest r). r' = advance k r"
  proof (cases res1)
    case (Inl a)
    with e m1 j show ?thesis by auto
  next
    case (Inr x)
    with e m1 have fx: "f x r1 = (res, r')" by simp
    have "wf_reader r1" using r j by (simp add: wf_reader_advance)
    from ezsp_decode.advances [OF f this fx] j obtain i
      where "i \<le> length (peek_rest r) - j" "r' = advance i (advance j r)" by auto
    with j show ?thesis by (intro exI [of _ "j + i"]) simp
  qed
next
  fix r y k q
  assume r: "wf_reader r" and e: "andthen m f r = (Inr y, advance k r)" and k: "k \<le> length (peek_rest r)"
    and q: "wf_reader q" "reader_version q = reader_version r"
    and t: "take k (peek_rest q) = take k (peek_rest r)" "k \<le> length (peek_rest q)"
  from e obtain x r1 where m1: "m r = (Inr x, r1)" and f1: "f x r1 = (Inr y, advance k r)"
    by (auto simp: andthen_eq_Inr)
  obtain j where j: "j \<le> length (peek_rest r)" "r1 = advance j r"
    using ezsp_decode.advances [OF m r m1] by blast
  have r1: "wf_reader (advance j r)" using r j by (simp add: wf_reader_advance)
  obtain i where i: "i \<le> length (peek_rest r) - j" "advance k r = advance i (advance j r)"
    using ezsp_decode.advances [OF f r1 f1 [unfolded j(2)]] by auto
  then have kji: "k = j + i" by (simp add: advance_inject)
  have tj: "take j (peek_rest q) = take j (peek_rest r)"
    using t(1) kji by (metis le_add1 min.absorb1 take_take)
  have mq: "m q = (Inr x, advance j q)"
    using ezsp_decode.local [OF m r m1 [unfolded j(2)] j(1) q tj] t(2) kji by simp
  have ti: "take i (drop j (peek_rest q)) = take i (drop j (peek_rest r))"
    using t(1) kji by (metis add.commute drop_take take_drop)
  have "f x (advance j q) = (Inr y, advance i (advance j q))"
    using ezsp_decode.local [OF f r1, of x y i "advance j q"] f1 i j(2) kji t(2) q ti
      wf_reader_advance [OF q(1), of j]
    by simp
  with mq show "andthen m f q = (Inr y, advance k q)" by (simp add: kji)
qed

lemma ezsp_decode_u8 [intro, simp]: "ezsp_decode reader_u8"
  unfolding reader_u8_def by (auto split: list.split)

lemma ezsp_decode_u16 [intro, simp]: "ezsp_decode reader_u16"
  unfolding reader_u16_def by (auto split: list.split)

lemma ezsp_decode_u32 [intro, simp]: "ezsp_decode reader_u32"
  unfolding reader_u32_def by (auto split: list.split)

lemma ezsp_decode_array [intro, simp]: "n < 2 ^ 63 \<Longrightarrow> ezsp_decode (reader_array n)"
  unfolding reader_array_def by auto

lemma ezsp_decode_length_prefixed [intro, simp]: "ezsp_decode reader_length_prefixed"
proof -
  have "unat (len :: u8) < 2 ^ 63" for len
    using unsigned_less [of len, where ?'a = nat] by simp
  then show ?thesis unfolding reader_length_prefixed_def by auto
qed

section \<open>What a decoder reads back\<close>

text \<open>\<open>parses dec v bs x\<close>: wherever a frame continues with \<open>bs\<close>, the decoder reads exactly those bytes, as \<open>x\<close>.\<close>

definition parses :: "'a decode \<Rightarrow> protocol_version \<Rightarrow> bytes \<Rightarrow> 'a \<Rightarrow> bool" where
  "parses dec v bs x \<longleftrightarrow>
     (\<forall>r zs. wf_reader r \<longrightarrow> reader_version r = v \<longrightarrow> peek_rest r = bs @ zs \<longrightarrow>
        dec r = (Inr x, advance (length bs) r))"

lemma parses_ret [intro]: "parses (ret x) v [] x"
  by (simp add: parses_def)

lemma parses_andthen [intro]:
  assumes "parses m v a x" "parses (f x) v b y"
  shows "parses (andthen m f) v (a @ b) y"
  unfolding parses_def
proof (intro allI impI)
  fix r zs assume r: "wf_reader r" "reader_version r = v" "peek_rest r = (a @ b) @ zs"
  with assms(1) have "m r = (Inr x, advance (length a) r)" by (auto simp: parses_def)
  moreover have "f x (advance (length a) r) = (Inr y, advance (length b) (advance (length a) r))"
    using assms(2) r wf_reader_advance [of r "length a"] by (auto simp: parses_def)
  ultimately show "andthen m f r = (Inr y, advance (length (a @ b)) r)" by simp
qed

lemma parses_end: "parses m v bs x \<Longrightarrow> parses (andthen m (\<lambda>a. ret (g a))) v bs (g x)"
  using parses_andthen [of m v bs x "\<lambda>a. ret (g a)" "[]" "g x"] by auto

lemma parses_take [intro]: "length bs < 2 ^ 63 \<Longrightarrow> n = length bs \<Longrightarrow> parses (reader_take n) v bs bs"
  by (simp add: parses_def reader_take_eq)

lemma parses_u8 [intro]: "parses reader_u8 v [b] b"
  by (simp add: parses_def reader_u8_def reader_take_eq andthen_def)

lemma parses_u16 [intro]: "parses reader_u16 v (le_bytes 2 n) n"
proof -
  obtain a b where ab: "le_bytes 2 n = [a, b]" by (rule length_2E [OF length_le_bytes])
  have n: "le_word [a, b] = n" unfolding ab [symmetric] by simp
  have "parses (reader_take 2) v [a, b] [a, b]" by auto
  moreover have "parses (case [a, b] of [a, b] \<Rightarrow> ret (le_word [a, b]) | _ \<Rightarrow> throw (TruncatedFrame 2 2)) v [] n"
    using parses_ret [of "le_word [a, b] :: u16" v] unfolding n by (simp add: n del: le_word.simps)
  ultimately show ?thesis
    unfolding reader_u16_def ab using parses_andthen [of "reader_take 2" v "[a, b]" "[a, b]" _ "[]" n]
    by (simp del: le_word.simps)
qed

lemma parses_u32 [intro]: "parses reader_u32 v (le_bytes 4 n) n"
proof -
  obtain a b c d where ab: "le_bytes 4 n = [a, b, c, d]" by (rule length_4E [OF length_le_bytes])
  have n: "le_word [a, b, c, d] = n" unfolding ab [symmetric] by simp
  have "parses (reader_take 4) v [a, b, c, d] [a, b, c, d]" by auto
  moreover have "parses (ret (le_word [a, b, c, d])) v [] n" using parses_ret [of n v] by (simp only: n)
  ultimately show ?thesis
    unfolding reader_u32_def ab
    using parses_andthen [of "reader_take 4" v "[a, b, c, d]" "[a, b, c, d]" _ "[]" n]
    by (simp del: le_word.simps)
qed

lemma parses_array [intro]:
  assumes "length bs = n" "n < 2 ^ 63"
  shows "parses (reader_array n) v bs bs"
proof -
  have "parses (reader_take n) v bs bs" using assms by auto
  moreover have "parses (if length bs = n then ret bs else throw (TruncatedFrame n (length bs))) v [] bs"
    using assms(1) by auto
  ultimately show ?thesis
    unfolding reader_array_def using parses_andthen [of "reader_take n" v bs bs _ "[]" bs] by simp
qed

lemma parses_length_prefixed [intro]:
  assumes "length bs \<le> 255"
  shows "parses reader_length_prefixed v (word_of_nat (length bs) # bs) bs"
proof -
  have "unat (word_of_nat (length bs) :: u8) = length bs"
    using assms by (simp add: unat_of_nat take_bit_nat_eq_self)
  then have "parses (reader_take (unat (word_of_nat (length bs) :: u8))) v bs bs"
    using assms by auto
  with parses_andthen [of reader_u8 v "[word_of_nat (length bs)]" "word_of_nat (length bs)"
      "\<lambda>len. reader_take (unat len)" bs bs] parses_u8 show ?thesis
    by (simp add: reader_length_prefixed_def)
qed

section \<open>The contract of an encoder\<close>

text \<open>
  \<open>appends e v res bs\<close>: with version \<open>v\<close>, the encoder appends \<open>bs\<close> to whatever was written, and
  answers \<open>res\<close>. An error may leave a part behind, as the source's early returns do.
\<close>

definition appends :: "encode \<Rightarrow> protocol_version \<Rightarrow> ezsp_error + unit \<Rightarrow> bytes \<Rightarrow> bool" where
  "appends e v res bs \<longleftrightarrow>
     (\<forall>w. writer_version w = v \<longrightarrow> e w = (res, w\<lparr>writer_bytes := writer_bytes w @ bs\<rparr>))"

abbreviation writes :: "encode \<Rightarrow> protocol_version \<Rightarrow> bytes \<Rightarrow> bool" where
  "writes e v bs \<equiv> appends e v (Inr ()) bs"

lemma writes_new: "writes e v bs \<Longrightarrow> e (writer_new v) = (Inr (), \<lparr>writer_bytes = bs, writer_version = v\<rparr>)"
  by (simp add: appends_def writer_new_def)

lemma writes_ret [intro]: "writes (ret ()) v []"
  by (simp add: appends_def)

lemma appends_throw [intro]: "appends (throw e) v (Inl e) []"
  by (simp add: appends_def)

lemma writes_put [intro]: "writes (writer_put bs) v bs"
  by (simp add: appends_def writer_put_def)

lemma writes_u8 [intro]: "writes (writer_u8 b) v [b]"
  by (auto simp: writer_u8_def)

lemma writes_u16 [intro]: "writes (writer_u16 n) v (le_bytes 2 n)"
  by (auto simp: writer_u16_def)

lemma writes_u32 [intro]: "writes (writer_u32 n) v (le_bytes 4 n)"
  by (auto simp: writer_u32_def)

lemma appends_andthen:
  assumes "writes m v a" "appends (f ()) v res b"
  shows "appends (andthen m f) v res (a @ b)"
  using assms by (simp add: appends_def)

lemma appends_andthen_Inl: "appends m v (Inl e) a \<Longrightarrow> appends (andthen m f) v (Inl e) a"
  by (simp add: appends_def)

lemma writes_length_prefixed [intro]:
  "length bs \<le> 255 \<Longrightarrow> writes (writer_length_prefixed bs) v (word_of_nat (length bs) # bs)"
  using appends_andthen [of "writer_u8 (word_of_nat (length bs))" v "[word_of_nat (length bs)]"
      "\<lambda>_. writer_put bs" "Inr ()" bs] writes_u8 writes_put
  by (simp add: writer_length_prefixed_def)

lemma appends_length_prefixed_error:
  "length bs > 255 \<Longrightarrow> appends (writer_length_prefixed bs) v (Inl (PayloadTooLong (length bs) 255)) []"
  by (simp add: writer_length_prefixed_def appends_throw)

text \<open>An encoder of a type only ever appends, and what it appends depends on the version alone.\<close>

locale ezsp_encode =
  fixes enc :: "'a \<Rightarrow> encode"
  assumes appending: "\<exists>res bs. appends (enc x) v res bs"
begin

lemma keeps_version: "writer_version (snd (enc x w)) = writer_version w"
  using appending [of x "writer_version w"] by (auto simp: appends_def)

lemma keeps_written: "\<exists>bs. writer_bytes (snd (enc x w)) = writer_bytes w @ bs"
  using appending [of x "writer_version w"] by (auto simp: appends_def)

end

lemma appends_exists_andthen:
  assumes "\<exists>res bs. appends m v res bs" "\<exists>res bs. appends (f ()) v res bs"
  shows "\<exists>res bs. appends (andthen m f) v res bs"
proof -
  from assms(1) obtain res bs where m: "appends m v res bs" by blast
  show ?thesis
  proof (cases res)
    case (Inl e)
    with m show ?thesis using appends_andthen_Inl by blast
  next
    case (Inr u)
    with m assms(2) show ?thesis using appends_andthen by (cases u) blast
  qed
qed

section \<open>The contract of a codec\<close>

text \<open>
  A type that implements both traits: on the values the wire can express under a version, the
  encoder writes \<open>wire v x\<close>, and the decoder reads that back in any frame it occurs in.
\<close>

locale ezsp_codec = ezsp_decode dec + ezsp_encode enc
  for dec :: "'a decode" and enc :: "'a \<Rightarrow> encode" +
  fixes wire :: "protocol_version \<Rightarrow> 'a \<Rightarrow> bytes"
    and valid :: "protocol_version \<Rightarrow> 'a \<Rightarrow> bool"
  assumes writes_wire: "valid v x \<Longrightarrow> writes (enc x) v (wire v x)"
    and parses_wire: "valid v x \<Longrightarrow> parses dec v (wire v x) x"
    and wire_short: "valid v x \<Longrightarrow> length (wire v x) < 2 ^ 62"
begin

lemma round_trip:
  assumes "valid v x" "length rest < 2 ^ 62"
  shows "enc x (writer_new v) = (Inr (), \<lparr>writer_bytes = wire v x, writer_version = v\<rparr>) \<and>
    dec (reader_new (wire v x @ rest) v) =
      (Inr x, advance (length (wire v x)) (reader_new (wire v x @ rest) v))"
proof -
  have "wf_reader (reader_new (wire v x @ rest) v)"
    using wire_short [OF assms(1)] assms(2) by (intro wf_reader_new) simp
  then show ?thesis
    using parses_wire [OF assms(1)] writes_new [OF writes_wire [OF assms(1)]] by (simp add: parses_def)
qed

text \<open>A frame that ends inside the value is refused, never read as something shorter.\<close>

lemma truncated_refused:
  assumes "valid v x" "strict_prefix p (wire v x)"
  shows "\<exists>e. fst (dec (reader_new p v)) = Inl e"
proof (rule ccontr)
  assume "\<not> ?thesis"
  then obtain y r' where d: "dec (reader_new p v) = (Inr y, r')"
    by (metis eq_fst_iff sumE)
  obtain zs where w: "wire v x = p @ zs" "zs \<noteq> []"
    using assms(2) by (auto simp: strict_prefix_def prefix_def)
  have short: "length p < 2 ^ 63" using wire_short [OF assms(1)] w by simp
  then have wfp: "wf_reader (reader_new p v)" by (rule wf_reader_new)
  have wfw: "wf_reader (reader_new (wire v x) v)"
    using wire_short [OF assms(1)] by (intro wf_reader_new) simp
  obtain k where k: "k \<le> length p" "r' = advance k (reader_new p v)"
    using advances [OF wfp d] by auto
  have "dec (reader_new (wire v x) v) = (Inr y, advance k (reader_new (wire v x) v))"
    using local [OF wfp d [unfolded k(2)] _ wfw] k(1) w by simp
  moreover have "dec (reader_new (wire v x) v) =
      (Inr x, advance (length (wire v x)) (reader_new (wire v x) v))"
    using round_trip [OF assms(1), of "[]"] by simp
  ultimately show False using k(1) w by (simp add: advance_inject)
qed

text \<open>The code is prefix free: no value's bytes are the beginning of another's.\<close>

lemma prefix_free:
  assumes "valid v x" "valid v y" "prefix (wire v x) (wire v y)"
  shows "x = y"
proof -
  obtain zs where w: "wire v y = wire v x @ zs" using assms(3) by (auto simp: prefix_def)
  have "length zs < 2 ^ 62" using wire_short [OF assms(2)] w by simp
  then have "dec (reader_new (wire v y) v) = (Inr x, advance (length (wire v x)) (reader_new (wire v y) v))"
    using round_trip [OF assms(1)] by (simp only: w)
  moreover have "fst (dec (reader_new (wire v y) v)) = Inr y"
    using round_trip [OF assms(2), of "[]"] by simp
  ultimately show ?thesis by simp
qed

end

section \<open>Decoders of a fixed width\<close>

text \<open>
  \<open>reads_exactly dec v n\<close>: under version \<open>v\<close> the decoder succeeds exactly when \<open>n\<close> bytes are left,
  whatever they are, and then moves over \<open>n\<close> bytes.
\<close>

definition reads_exactly :: "'a decode \<Rightarrow> protocol_version \<Rightarrow> nat \<Rightarrow> bool" where
  "reads_exactly dec v n \<longleftrightarrow>
     (\<forall>r. wf_reader r \<longrightarrow> reader_version r = v \<longrightarrow>
        (if n \<le> length (peek_rest r) then \<exists>x. dec r = (Inr x, advance n r)
         else \<exists>e r'. dec r = (Inl e, r')))"

lemma reads_exactly_ok:
  "reads_exactly dec v n \<Longrightarrow> wf_reader r \<Longrightarrow> reader_version r = v \<Longrightarrow> n \<le> length (peek_rest r) \<Longrightarrow>
   \<exists>x. dec r = (Inr x, advance n r)"
  unfolding reads_exactly_def by presburger

lemma reads_exactly_fail:
  "reads_exactly dec v n \<Longrightarrow> wf_reader r \<Longrightarrow> reader_version r = v \<Longrightarrow> \<not> n \<le> length (peek_rest r) \<Longrightarrow>
   \<exists>e r'. dec r = (Inl e, r')"
  unfolding reads_exactly_def by presburger

lemma reads_exactly_ret [intro]: "reads_exactly (ret x) v 0"
  by (simp add: reads_exactly_def)

lemma reads_exactly_take [intro]: "n < 2 ^ 63 \<Longrightarrow> reads_exactly (reader_take n) v n"
  by (simp add: reads_exactly_def reader_take_eq)

lemma reads_exactly_andthen:
  assumes m: "reads_exactly m v a" and f: "\<And>x. reads_exactly (f x) v b"
  shows "reads_exactly (andthen m f) v (a + b)"
  unfolding reads_exactly_def
proof (intro allI impI)
  fix r :: reader assume r: "wf_reader r" "reader_version r = v"
  show "if a + b \<le> length (peek_rest r) then \<exists>x. andthen m f r = (Inr x, advance (a + b) r)
    else \<exists>e r'. andthen m f r = (Inl e, r')"
  proof (cases "a \<le> length (peek_rest r)")
    case True
    with reads_exactly_ok [OF m r] obtain x where mx: "m r = (Inr x, advance a r)" by blast
    have wf: "wf_reader (advance a r)" using r True by (simp add: wf_reader_advance)
    from f [of x] r wf have "if b \<le> length (peek_rest r) - a
      then \<exists>y. f x (advance a r) = (Inr y, advance (a + b) r) else \<exists>e r'. f x (advance a r) = (Inl e, r')"
      by (auto simp: reads_exactly_def)
    with mx True show ?thesis by (auto split: if_splits)
  next
    case False
    with reads_exactly_fail [OF m r] obtain e r' where "m r = (Inl e, r')" by blast
    with False show ?thesis by auto
  qed
qed

lemma reads_exactly_end: "reads_exactly m v n \<Longrightarrow> reads_exactly (andthen m (\<lambda>x. ret (g x))) v n"
  using reads_exactly_andthen [of m v n "\<lambda>x. ret (g x)" 0] by auto

lemma reads_exactly_check:
  assumes "n < 2 ^ 63" "\<And>bs. length bs = n \<Longrightarrow> f bs = ret (g bs)"
  shows "reads_exactly (andthen (reader_take n) f) v n"
  unfolding reads_exactly_def
  using assms by (auto simp: andthen_def reader_take_eq)

lemma reads_exactly_u8 [intro]: "reads_exactly reader_u8 v (Suc 0)"
  unfolding reader_u8_def One_nat_def
  by (rule reads_exactly_check [where g = hd]) (auto simp: length_Suc_conv)

lemma reads_exactly_u16 [intro]: "reads_exactly reader_u16 v 2"
  unfolding reader_u16_def
proof (rule reads_exactly_check [where g = le_word])
  fix bs :: bytes assume "length bs = 2"
  then obtain a b where "bs = [a, b]" by (rule length_2E)
  then show "(case bs of [a, b] \<Rightarrow> ret (le_word [a, b]) | _ \<Rightarrow> throw (TruncatedFrame 2 (length bs))) = ret (le_word bs)"
    by (simp del: le_word.simps)
qed simp

lemma reads_exactly_u32 [intro]: "reads_exactly reader_u32 v 4"
  unfolding reader_u32_def
proof (rule reads_exactly_check [where g = le_word])
  fix bs :: bytes assume "length bs = 4"
  then obtain a b c d where "bs = [a, b, c, d]" by (rule length_4E)
  then show "(case bs of [a, b, c, d] \<Rightarrow> ret (le_word [a, b, c, d]) | _ \<Rightarrow> throw (TruncatedFrame 4 (length bs)))
      = ret (le_word bs)"
    by (simp del: le_word.simps)
qed simp

lemma reads_exactly_array [intro]: "n < 2 ^ 63 \<Longrightarrow> reads_exactly (reader_array n) v n"
  unfolding reader_array_def by (rule reads_exactly_check [where g = "\<lambda>bs. bs"]) auto

text \<open>A response whose layout is fixed once the version is: the width is a function of the version.\<close>

locale ezsp_fixed_decode = ezsp_decode dec for dec :: "'a decode" +
  fixes width :: "protocol_version \<Rightarrow> nat"
  assumes exact: "reads_exactly dec v (width v)"
begin

lemma accepts_iff_width:
  assumes "length bs < 2 ^ 63"
  shows "(\<exists>x r. dec (reader_new bs v) = (Inr x, r) \<and> reader_is_empty r) \<longleftrightarrow> length bs = width v"
proof -
  have "wf_reader (reader_new bs v)" by (rule wf_reader_new [OF assms])
  with exact [of v] have "if width v \<le> length bs
    then \<exists>x. dec (reader_new bs v) = (Inr x, advance (width v) (reader_new bs v))
    else \<exists>e r'. dec (reader_new bs v) = (Inl e, r')"
    by (auto simp: reads_exactly_def)
  then show ?thesis
    by (cases "width v \<le> length bs") (auto simp: reader_is_empty_def remaining_peek)
qed

lemma too_short_fails:
  assumes "length bs < width v" "length bs < 2 ^ 63"
  shows "\<exists>e r. dec (reader_new bs v) = (Inl e, r)"
  using exact [of v] wf_reader_new [OF assms(2), of v] assms(1) by (auto simp: reads_exactly_def)

lemma too_long_leaves_bytes:
  assumes "width v < length bs" "length bs < 2 ^ 63"
  shows "\<exists>x r. dec (reader_new bs v) = (Inr x, r) \<and> remaining r = length bs - width v"
proof -
  have "\<exists>x. dec (reader_new bs v) = (Inr x, advance (width v) (reader_new bs v))"
    using exact [of v] wf_reader_new [OF assms(2), of v] assms(1) by (auto simp: reads_exactly_def)
  then show ?thesis by (auto simp: remaining_peek)
qed

end

text \<open>Introduction rules that ask for the laws one by one.\<close>

lemma ezsp_codecI:
  assumes "ezsp_decode dec" "\<And>v x. \<exists>res bs. appends (enc x) v res bs"
    and "\<And>v x. valid v x \<Longrightarrow> writes (enc x) v (wire v x)"
    and "\<And>v x. valid v x \<Longrightarrow> parses dec v (wire v x) x"
    and "\<And>v x. valid v x \<Longrightarrow> length (wire v x) < 2 ^ 62"
  shows "ezsp_codec dec enc wire valid"
  using assms by (simp add: ezsp_codec_def ezsp_codec_axioms_def ezsp_encode_def)

lemma ezsp_fixed_decodeI:
  "ezsp_decode dec \<Longrightarrow> (\<And>v. reads_exactly dec v (width v)) \<Longrightarrow> ezsp_fixed_decode dec width"
  by (simp add: ezsp_fixed_decode_def ezsp_fixed_decode_axioms_def)

text \<open>The version may steer a decoder, and the choice of a branch does not look at the bytes.\<close>

definition with_version :: "(protocol_version \<Rightarrow> 'a decode) \<Rightarrow> 'a decode" where
  "with_version f r = f (reader_version r) r"

definition with_writer_version :: "(protocol_version \<Rightarrow> encode) \<Rightarrow> encode" where
  "with_writer_version f w = f (writer_version w) w"

lemma ezsp_decode_with_version [intro]:
  assumes "\<And>v. ezsp_decode (f v)"
  shows "ezsp_decode (with_version f)"
proof
  fix r r' :: reader and res assume "wf_reader r" "with_version f r = (res, r')"
  then show "\<exists>k \<le> length (peek_rest r). r' = advance k r"
    using ezsp_decode.advances [OF assms] by (simp add: with_version_def)
next
  fix r x k q
  assume a: "wf_reader r" "with_version f r = (Inr x, advance k r)" "k \<le> length (peek_rest r)"
    and q: "wf_reader q" "reader_version q = reader_version r"
      "take k (peek_rest q) = take k (peek_rest r)" "k \<le> length (peek_rest q)"
  have "f (reader_version r) q = (Inr x, advance k q)"
    by (rule ezsp_decode.local [OF assms a(1) a(2) [unfolded with_version_def] a(3) q])
  then show "with_version f q = (Inr x, advance k q)" by (simp add: with_version_def q(2))
qed

lemma parses_with_version: "parses (f v) v bs x \<Longrightarrow> parses (with_version f) v bs x"
  by (simp add: parses_def with_version_def)

lemma reads_exactly_with_version: "reads_exactly (f v) v n \<Longrightarrow> reads_exactly (with_version f) v n"
  by (simp add: reads_exactly_def with_version_def)

lemma appends_with_version: "appends (f v) v res bs \<Longrightarrow> appends (with_writer_version f) v res bs"
  by (simp add: appends_def with_writer_version_def)

lemma ezsp_decode_if [intro]: "ezsp_decode a \<Longrightarrow> ezsp_decode b \<Longrightarrow> ezsp_decode (if c then a else b)"
  by simp

section \<open>What a decoder has read\<close>

text \<open>
  \<open>reads_only dec v P\<close>: whenever the decoder succeeds under version \<open>v\<close>, the bytes it moved over
  and the value it answers are related by \<open>P\<close>. The converse of \<open>parses\<close>, built up in the same way.
\<close>

definition reads_only :: "'a decode \<Rightarrow> protocol_version \<Rightarrow> (bytes \<Rightarrow> 'a \<Rightarrow> bool) \<Rightarrow> bool" where
  "reads_only dec v P \<longleftrightarrow>
     (\<forall>r x r'. wf_reader r \<longrightarrow> reader_version r = v \<longrightarrow> dec r = (Inr x, r') \<longrightarrow>
        (\<exists>bs. peek_rest r = bs @ peek_rest r' \<and> wf_reader r' \<and> reader_version r' = v \<and> P bs x))"

lemma reads_only_ret: "reads_only (ret y) v (\<lambda>bs x. bs = [] \<and> x = y)"
  by (simp add: reads_only_def)

lemma reads_only_andthen:
  assumes m: "reads_only m v P" and f: "\<And>x. reads_only (f x) v (Q x)"
  shows "reads_only (andthen m f) v (\<lambda>bs y. \<exists>a b x. bs = a @ b \<and> P a x \<and> Q x b y)"
  unfolding reads_only_def
proof (intro allI impI)
  fix r y r' assume r: "wf_reader r" "reader_version r = v" and e: "andthen m f r = (Inr y, r')"
  from e obtain x s where x: "m r = (Inr x, s)" "f x s = (Inr y, r')" by (auto simp: andthen_eq_Inr)
  from m r x(1) obtain a where a: "peek_rest r = a @ peek_rest s" "wf_reader s" "reader_version s = v" "P a x"
    unfolding reads_only_def by blast
  from f [of x] a x(2) obtain b where "peek_rest s = b @ peek_rest r'" "wf_reader r'"
    "reader_version r' = v" "Q x b y"
    unfolding reads_only_def by blast
  with a show "\<exists>bs. peek_rest r = bs @ peek_rest r' \<and> wf_reader r' \<and> reader_version r' = v \<and>
    (\<exists>a b x. bs = a @ b \<and> P a x \<and> Q x b y)"
    by (intro exI [of _ "a @ b"]) auto
qed

lemma reads_only_mono: "reads_only dec v P \<Longrightarrow> (\<And>bs x. P bs x \<Longrightarrow> Q bs x) \<Longrightarrow> reads_only dec v Q"
  unfolding reads_only_def by blast

lemma reads_only_with_version: "reads_only (f v) v P \<Longrightarrow> reads_only (with_version f) v P"
  by (simp add: reads_only_def with_version_def)

lemma reads_only_take: "n < 2 ^ 63 \<Longrightarrow> reads_only (reader_take n) v (\<lambda>bs x. bs = x \<and> length x = n)"
  by (auto simp: reads_only_def reader_take_eq wf_reader_advance split: if_splits)

lemma reads_only_throw: "reads_only (throw e) v P"
  by (simp add: reads_only_def)

text \<open>A decoder that reads a fixed width and of which every input of that width is one output's bytes.\<close>

lemma reads_only_fixed:
  assumes "ezsp_decode dec" "reads_exactly dec v n" and "\<And>bs. length bs = n \<Longrightarrow> \<exists>x. parses dec v bs x \<and> P bs x"
  shows "reads_only dec v P"
  unfolding reads_only_def
proof (intro allI impI)
  fix r x r' assume r: "wf_reader r" "reader_version r = v" and d: "dec r = (Inr x, r')"
  have le: "n \<le> length (peek_rest r)"
    using reads_exactly_fail [OF assms(2) r] d by fastforce
  let ?bs = "take n (peek_rest r)"
  have s: "peek_rest r = ?bs @ drop n (peek_rest r)" by simp
  obtain y where y: "parses dec v ?bs y" "P ?bs y" using assms(3) [of ?bs] le by auto
  from y(1) r s have "dec r = (Inr y, advance (length ?bs) r)" unfolding parses_def by blast
  with d le have "y = x" "r' = advance n r" by auto
  with y le r show "\<exists>bs. peek_rest r = bs @ peek_rest r' \<and> wf_reader r' \<and> reader_version r' = v \<and> P bs x"
    by (intro exI [of _ ?bs]) (simp add: wf_reader_advance)
qed

lemma reads_only_u8: "reads_only reader_u8 v (\<lambda>bs x. bs = [x])"
proof (rule reads_only_fixed [OF _ reads_exactly_u8])
  fix bs :: bytes assume "length bs = Suc 0"
  then obtain b where "bs = [b]" by (cases bs) auto
  then show "\<exists>x. parses reader_u8 v bs x \<and> bs = [x]" using parses_u8 by auto
qed simp

lemma reads_only_u16: "reads_only reader_u16 v (\<lambda>bs x. bs = le_bytes 2 x)"
proof (rule reads_only_fixed [OF _ reads_exactly_u16])
  fix bs :: bytes assume "length bs = 2"
  then have "bs = le_bytes 2 (le_word bs :: u16)" using le_bytes_le_word' [of bs 2, where ?'a = 16] by simp
  then show "\<exists>x. parses reader_u16 v bs x \<and> bs = le_bytes 2 x" using parses_u16 by metis
qed simp

lemma reads_only_u32: "reads_only reader_u32 v (\<lambda>bs x. bs = le_bytes 4 x)"
proof (rule reads_only_fixed [OF _ reads_exactly_u32])
  fix bs :: bytes assume "length bs = 4"
  then have "bs = le_bytes 4 (le_word bs :: u32)" using le_bytes_le_word' [of bs 4, where ?'a = 32] by simp
  then show "\<exists>x. parses reader_u32 v bs x \<and> bs = le_bytes 4 x" using parses_u32 by metis
qed simp

lemma reads_only_length_prefixed:
  "reads_only reader_length_prefixed v (\<lambda>bs x. bs = word_of_nat (length x) # x \<and> length x \<le> 255)"
proof -
  have len: "unat (n :: u8) < 256" "unat (n :: u8) < 2 ^ 63" for n
    using unsigned_less [of n, where ?'a = nat] by simp_all
  then have "reads_only reader_length_prefixed v
    (\<lambda>bs x. \<exists>a b n. bs = a @ b \<and> a = [n] \<and> b = x \<and> length x = unat n)"
    unfolding reader_length_prefixed_def by (intro reads_only_andthen reads_only_u8 reads_only_take)
  then show ?thesis
    by (rule reads_only_mono) (use len(1) in \<open>force simp: less_Suc_eq_le [symmetric]\<close>)
qed

section \<open>The instances of the codec module\<close>

interpretation u8_codec: ezsp_codec reader_u8 writer_u8 "\<lambda>_ b. [b]" "\<lambda>_ _. True"
  by (rule ezsp_codecI) auto

interpretation u16_codec: ezsp_codec reader_u16 writer_u16 "\<lambda>_. le_bytes 2" "\<lambda>_ _. True"
  by (rule ezsp_codecI) auto

interpretation u32_codec: ezsp_codec reader_u32 writer_u32 "\<lambda>_. le_bytes 4" "\<lambda>_ _. True"
  by (rule ezsp_codecI) auto

interpretation u16_width: ezsp_fixed_decode reader_u16 "\<lambda>_. 2"
  by (rule ezsp_fixed_decodeI) auto

text \<open>\<open>impl EzspEncode for ()\<close> and \<open>impl EzspDecode for ()\<close>.\<close>

definition unit_encode :: "unit \<Rightarrow> encode" where
  "unit_encode _ = ret ()"

definition unit_decode :: "unit decode" where
  "unit_decode = ret ()"

interpretation unit_codec: ezsp_codec unit_decode unit_encode "\<lambda>_ _. []" "\<lambda>_ _. True"
  by (rule ezsp_codecI) (auto simp: unit_decode_def unit_encode_def)

interpretation length_prefixed_codec:
  ezsp_codec reader_length_prefixed writer_length_prefixed
    "\<lambda>_ bs. word_of_nat (length bs) # bs" "\<lambda>_ bs. length bs \<le> 255"
proof (rule ezsp_codecI)
  fix v and bs :: bytes
  show "\<exists>res out. appends (writer_length_prefixed bs) v res out"
    using writes_length_prefixed [of bs v] appends_length_prefixed_error [of bs v]
    by (cases "length bs \<le> 255") auto
qed auto

text \<open>A length byte that claims more than the frame holds is an error that says so.\<close>

lemma length_prefixed_eq:
  assumes "length bs < 2 ^ 62"
  shows "reader_length_prefixed (reader_new (len # bs) v) =
    (if unat len \<le> length bs
     then (Inr (take (unat len) bs), advance (Suc (unat len)) (reader_new (len # bs) v))
     else (Inl (TruncatedFrame (unat len) (length bs)), advance 1 (reader_new (len # bs) v)))"
proof -
  let ?r = "reader_new (len # bs) v"
  have wf: "wf_reader ?r" using assms by (intro wf_reader_new) simp
  have 1: "reader_u8 ?r = (Inr len, advance 1 ?r)"
    using parses_u8 [of v len] wf by (auto simp: parses_def)
  have wf1: "wf_reader (advance 1 ?r)" using wf by (rule wf_reader_advance) simp
  have "unat len < 2 ^ 63" using unsigned_less [of len, where ?'a = nat] by simp
  with wf1 show ?thesis
    by (simp add: reader_length_prefixed_def andthen_Inr [of reader_u8, OF 1] reader_take_eq)
qed

end
