(* ===== verification/TypesAps.thy ===== *)
theory TypesAps
  imports EzspCodec
begin

text \<open>
  The APS header and how a unicast is addressed (\<open>types/aps.rs\<close>). The header is a codec of
  eleven bytes under every protocol version.
\<close>

section \<open>Options\<close>

datatype aps_options = ApsOptions (options_raw: u16)

definition APS_NONE :: aps_options where [const_defs]: "APS_NONE = ApsOptions 0x0000"
definition APS_ENCRYPTION :: aps_options where [const_defs]: "APS_ENCRYPTION = ApsOptions 0x0020"
definition APS_RETRY :: aps_options where [const_defs]: "APS_RETRY = ApsOptions 0x0040"
definition ENABLE_ROUTE_DISCOVERY :: aps_options where [const_defs]: "ENABLE_ROUTE_DISCOVERY = ApsOptions 0x0100"
definition FORCE_ROUTE_DISCOVERY :: aps_options where [const_defs]: "FORCE_ROUTE_DISCOVERY = ApsOptions 0x0200"
definition SOURCE_EUI64 :: aps_options where [const_defs]: "SOURCE_EUI64 = ApsOptions 0x0400"
definition DESTINATION_EUI64 :: aps_options where [const_defs]: "DESTINATION_EUI64 = ApsOptions 0x0800"
definition ENABLE_ADDRESS_DISCOVERY :: aps_options where
  [const_defs]: "ENABLE_ADDRESS_DISCOVERY = ApsOptions 0x1000"

definition options_union :: "aps_options \<Rightarrow> aps_options \<Rightarrow> aps_options" where
  "options_union a b = ApsOptions (options_raw a OR options_raw b)"

definition options_contains :: "aps_options \<Rightarrow> aps_options \<Rightarrow> bool" where
  "options_contains a b \<longleftrightarrow> options_raw a AND options_raw b = options_raw b"

lemma options_contains_union: "options_contains (options_union a b) a \<and> options_contains (options_union a b) b"
  by (auto simp: options_contains_def options_union_def bit_simps intro!: bit_word_eqI)

section \<open>The APS header\<close>

record aps_frame =
  profile_id :: u16
  cluster_id :: u16
  source_endpoint :: u8
  destination_endpoint :: u8
  options :: aps_options
  group_id :: u16
  aps_sequence :: u8

definition APS_FRAME_LEN :: nat where [const_defs]: "APS_FRAME_LEN = 11"

definition aps_frame_encode :: "aps_frame \<Rightarrow> encode" where
  "aps_frame_encode f =
     andthen (writer_u16 (profile_id f)) (\<lambda>_.
     andthen (writer_u16 (cluster_id f)) (\<lambda>_.
     andthen (writer_u8 (source_endpoint f)) (\<lambda>_.
     andthen (writer_u8 (destination_endpoint f)) (\<lambda>_.
     andthen (writer_u16 (options_raw (options f))) (\<lambda>_.
     andthen (writer_u16 (group_id f)) (\<lambda>_.
     writer_u8 (aps_sequence f)))))))"

definition aps_frame_decode :: "aps_frame decode" where
  "aps_frame_decode =
     andthen reader_u16 (\<lambda>p. andthen reader_u16 (\<lambda>c. andthen reader_u8 (\<lambda>s.
     andthen reader_u8 (\<lambda>d. andthen reader_u16 (\<lambda>opts. andthen reader_u16 (\<lambda>g.
     andthen reader_u8 (\<lambda>n.
     ret \<lparr>profile_id = p, cluster_id = c, source_endpoint = s, destination_endpoint = d,
       options = ApsOptions opts, group_id = g, aps_sequence = n\<rparr>)))))))"

definition aps_frame_wire :: "aps_frame \<Rightarrow> bytes" where
  "aps_frame_wire f =
     le_bytes 2 (profile_id f) @ le_bytes 2 (cluster_id f) @ [source_endpoint f] @
     [destination_endpoint f] @ le_bytes 2 (options_raw (options f)) @ le_bytes 2 (group_id f) @
     [aps_sequence f]"

lemma length_aps_frame_wire [simp]: "length (aps_frame_wire f) = 11"
  by (simp add: aps_frame_wire_def)

lemma ezsp_decode_aps_frame [intro, simp]: "ezsp_decode aps_frame_decode"
  unfolding aps_frame_decode_def by (intro ezsp_decode_andthen) auto

lemma parses_aps_frame [intro]: "parses aps_frame_decode v (aps_frame_wire f) f"
proof -
  have "parses aps_frame_decode v (aps_frame_wire f @ [])
    \<lparr>profile_id = profile_id f, cluster_id = cluster_id f, source_endpoint = source_endpoint f,
      destination_endpoint = destination_endpoint f, options = ApsOptions (options_raw (options f)),
      group_id = group_id f, aps_sequence = aps_sequence f\<rparr>"
    unfolding aps_frame_decode_def aps_frame_wire_def append_assoc
    by (intro parses_andthen) (rule parses_u8 parses_u16 parses_ret)+
  then show ?thesis by (cases f) simp
qed

lemma writes_aps_frame [intro]: "writes (aps_frame_encode f) v (aps_frame_wire f)"
  unfolding aps_frame_encode_def aps_frame_wire_def
  by (intro appends_andthen writes_u8 writes_u16)

lemma reads_exactly_aps_frame [intro]: "reads_exactly aps_frame_decode v 11"
proof -
  have "reads_exactly aps_frame_decode v (2 + (2 + (1 + (1 + (2 + (2 + (1 + 0)))))))"
    unfolding aps_frame_decode_def by (intro reads_exactly_andthen) auto
  then show ?thesis by simp
qed

interpretation aps_frame_codec: ezsp_codec aps_frame_decode aps_frame_encode "\<lambda>_. aps_frame_wire" "\<lambda>_ _. True"
proof (rule ezsp_codecI)
  fix v and f :: aps_frame
  show "\<exists>res bs. appends (aps_frame_encode f) v res bs" by blast
qed auto

interpretation aps_frame_fixed: ezsp_fixed_decode aps_frame_decode "\<lambda>_. 11"
  by (rule ezsp_fixed_decodeI) auto

section \<open>Unicast addressing\<close>

datatype unicast_type =
    Direct
  | ViaAddressTable
  | ViaBinding
  | Multicast
  | Broadcast

fun unicast_type_raw :: "unicast_type \<Rightarrow> u8" where
  "unicast_type_raw Direct = 0x00"
| "unicast_type_raw ViaAddressTable = 0x01"
| "unicast_type_raw ViaBinding = 0x02"
| "unicast_type_raw Multicast = 0x03"
| "unicast_type_raw Broadcast = 0x04"

definition unicast_type_encode :: "unicast_type \<Rightarrow> encode" where
  "unicast_type_encode t = writer_u8 (unicast_type_raw t)"

lemma writes_unicast_type [intro]: "writes (unicast_type_encode t) v [unicast_type_raw t]"
  by (auto simp: unicast_type_encode_def)

lemma unicast_type_raw_inject: "unicast_type_raw a = unicast_type_raw b \<longleftrightarrow> a = b"
  by (cases a; cases b) auto

end
