(* ===== verification/TypesNetwork.thy ===== *)
theory TypesNetwork
  imports EzspCodec
begin

text \<open>
  Status values and the network-layer types (\<open>types/status.rs\<close>, \<open>types/network.rs\<close>), with their
  encoders and decoders. Those with both are interpreted as codecs: what is written is read back
  in any frame, and a frame that ends inside a value is refused. \<open>[u8; N]\<close> fields are lists; a
  value with a field of another length does not exist in Rust and is not \<open>valid\<close>.
\<close>

section \<open>Status\<close>

text \<open>\<open>SlStatus::decode\<close>: four bytes from EZSP 14 on, one byte before.\<close>

definition sl_status_decode :: "sl_status decode" where
  "sl_status_decode = with_version (\<lambda>v.
     if has_wide_status v then andthen reader_u32 (\<lambda>n. ret (SlStatus n))
     else andthen reader_u8 (\<lambda>n. ret (SlStatus (ucast n))))"

definition status_width :: "protocol_version \<Rightarrow> nat" where
  "status_width v = (if has_wide_status v then 4 else 1)"

lemma ezsp_decode_sl_status [intro, simp]: "ezsp_decode sl_status_decode"
  unfolding sl_status_decode_def by auto

lemma reads_exactly_sl_status [intro]: "reads_exactly sl_status_decode v (status_width v)"
  unfolding sl_status_decode_def status_width_def
  by (rule reads_exactly_with_version) (auto intro!: reads_exactly_end)

interpretation status_fixed: ezsp_fixed_decode sl_status_decode status_width
  by (rule ezsp_fixed_decodeI) auto

lemma parses_sl_status_wide:
  "has_wide_status v \<Longrightarrow> parses sl_status_decode v (le_bytes 4 n) (SlStatus n)"
  unfolding sl_status_decode_def by (rule parses_with_version) (auto intro: parses_end)

lemma parses_sl_status_narrow:
  "\<not> has_wide_status v \<Longrightarrow> parses sl_status_decode v [b] (SlStatus (ucast b))"
  unfolding sl_status_decode_def by (rule parses_with_version) (auto intro: parses_end)

section \<open>Addresses\<close>

datatype eui64 = Eui64 (eui64_raw: u64)

definition EUI64_WILDCARD :: eui64 where [const_defs]: "EUI64_WILDCARD = Eui64 (- 1)"

definition to_wire :: "eui64 \<Rightarrow> bytes" where
  "to_wire e = le_bytes 8 (eui64_raw e)"

definition from_wire :: "bytes \<Rightarrow> eui64" where
  "from_wire bs = Eui64 (le_word bs)"

definition eui64_encode :: "eui64 \<Rightarrow> encode" where
  "eui64_encode e = writer_put (to_wire e)"

definition eui64_decode :: "eui64 decode" where
  "eui64_decode = andthen (reader_array 8) (\<lambda>bs. ret (from_wire bs))"

lemma from_to_wire [simp]: "from_wire (to_wire e) = e"
  by (simp add: from_wire_def to_wire_def)

lemma to_from_wire: "length bs = 8 \<Longrightarrow> to_wire (from_wire bs) = bs"
  by (simp add: from_wire_def to_wire_def le_bytes_le_word')

lemma length_to_wire [simp]: "length (to_wire e) = 8"
  by (simp add: to_wire_def)

lemma ezsp_decode_eui64 [intro, simp]: "ezsp_decode eui64_decode"
  unfolding eui64_decode_def by auto

lemma parses_eui64 [intro]: "parses eui64_decode v (to_wire e) e"
proof -
  have "parses (reader_array 8) v (to_wire e) (to_wire e)" by auto
  from parses_end [OF this, of from_wire] show ?thesis by (simp add: eui64_decode_def)
qed

lemma writes_eui64 [intro]: "writes (eui64_encode e) v (to_wire e)"
  by (auto simp: eui64_encode_def)

lemma reads_exactly_eui64 [intro]: "reads_exactly eui64_decode v 8"
  unfolding eui64_decode_def by (rule reads_exactly_end) auto

interpretation eui64_fixed: ezsp_fixed_decode eui64_decode "\<lambda>_. 8"
  by (rule ezsp_fixed_decodeI) auto

interpretation eui64_codec: ezsp_codec eui64_decode eui64_encode "\<lambda>_. to_wire" "\<lambda>_ _. True"
  by (rule ezsp_codecI) auto

datatype node_id = NodeId (node_raw: u16)

definition COORDINATOR :: node_id where [const_defs]: "COORDINATOR = NodeId 0x0000"
definition BROADCAST_ALL :: node_id where [const_defs]: "BROADCAST_ALL = NodeId 0xffff"
definition BROADCAST_RX_ON_WHEN_IDLE :: node_id where [const_defs]: "BROADCAST_RX_ON_WHEN_IDLE = NodeId 0xfffd"
definition BROADCAST_ROUTERS :: node_id where [const_defs]: "BROADCAST_ROUTERS = NodeId 0xfffc"

definition node_id_encode :: "node_id \<Rightarrow> encode" where
  "node_id_encode n = writer_u16 (node_raw n)"

definition node_id_decode :: "node_id decode" where
  "node_id_decode = andthen reader_u16 (\<lambda>n. ret (NodeId n))"

lemma ezsp_decode_node_id [intro, simp]: "ezsp_decode node_id_decode"
  unfolding node_id_decode_def by auto

lemma parses_node_id [intro]: "parses node_id_decode v (le_bytes 2 (node_raw n)) n"
  using parses_end [OF parses_u16, of NodeId v "node_raw n"] by (simp add: node_id_decode_def)

lemma reads_exactly_node_id [intro]: "reads_exactly node_id_decode v 2"
  unfolding node_id_decode_def by (rule reads_exactly_end) auto

interpretation node_id_fixed: ezsp_fixed_decode node_id_decode "\<lambda>_. 2"
  by (rule ezsp_fixed_decodeI) auto

lemma writes_node_id [intro]: "writes (node_id_encode n) v (le_bytes 2 (node_raw n))"
  by (auto simp: node_id_encode_def)

interpretation node_id_codec:
  ezsp_codec node_id_decode node_id_encode "\<lambda>_ n. le_bytes 2 (node_raw n)" "\<lambda>_ _. True"
  by (rule ezsp_codecI) auto

section \<open>Flags, configuration items and policies\<close>

datatype network_init_bitmask = NetworkInitBitmask (init_raw: u16)

definition INIT_NONE :: network_init_bitmask where [const_defs]: "INIT_NONE = NetworkInitBitmask 0x0000"
definition PARENT_INFO_IN_TOKEN :: network_init_bitmask where
  [const_defs]: "PARENT_INFO_IN_TOKEN = NetworkInitBitmask 0x0001"
definition END_DEVICE_REJOIN_ON_REBOOT :: network_init_bitmask where
  [const_defs]: "END_DEVICE_REJOIN_ON_REBOOT = NetworkInitBitmask 0x0002"

definition init_union :: "network_init_bitmask \<Rightarrow> network_init_bitmask \<Rightarrow> network_init_bitmask" where
  "init_union a b = NetworkInitBitmask (init_raw a OR init_raw b)"

definition network_init_bitmask_encode :: "network_init_bitmask \<Rightarrow> encode" where
  "network_init_bitmask_encode b = writer_u16 (init_raw b)"

datatype config_id = ConfigId (config_raw: u8)
datatype policy_id = PolicyId (policy_raw: u8)
datatype decision = Decision (decision_raw: u8)
datatype value_id = ValueId (value_raw: u8)
datatype network_status = NetworkStatus (network_status_raw: u8)

definition CONFIG_STACK_PROFILE :: config_id where [const_defs]: "CONFIG_STACK_PROFILE = ConfigId 0x0c"
definition CONFIG_SECURITY_LEVEL :: config_id where [const_defs]: "CONFIG_SECURITY_LEVEL = ConfigId 0x0d"
definition CONFIG_MAX_HOPS :: config_id where [const_defs]: "CONFIG_MAX_HOPS = ConfigId 0x10"
definition CONFIG_MAX_END_DEVICE_CHILDREN :: config_id where
  [const_defs]: "CONFIG_MAX_END_DEVICE_CHILDREN = ConfigId 0x11"
definition CONFIG_INDIRECT_TRANSMISSION_TIMEOUT :: config_id where
  [const_defs]: "CONFIG_INDIRECT_TRANSMISSION_TIMEOUT = ConfigId 0x12"
definition CONFIG_END_DEVICE_POLL_TIMEOUT :: config_id where
  [const_defs]: "CONFIG_END_DEVICE_POLL_TIMEOUT = ConfigId 0x13"
definition CONFIG_TRUST_CENTER_ADDRESS_CACHE_SIZE :: config_id where
  [const_defs]: "CONFIG_TRUST_CENTER_ADDRESS_CACHE_SIZE = ConfigId 0x19"
definition CONFIG_KEY_TABLE_SIZE :: config_id where [const_defs]: "CONFIG_KEY_TABLE_SIZE = ConfigId 0x1e"
definition CONFIG_APS_UNICAST_MESSAGE_COUNT :: config_id where
  [const_defs]: "CONFIG_APS_UNICAST_MESSAGE_COUNT = ConfigId 0x03"

definition POLICY_TRUST_CENTER :: policy_id where [const_defs]: "POLICY_TRUST_CENTER = PolicyId 0x00"
definition POLICY_BINDING_MODIFICATION :: policy_id where
  [const_defs]: "POLICY_BINDING_MODIFICATION = PolicyId 0x01"
definition POLICY_UNICAST_REPLIES :: policy_id where [const_defs]: "POLICY_UNICAST_REPLIES = PolicyId 0x02"
definition POLICY_MESSAGE_CONTENTS_IN_CALLBACK :: policy_id where
  [const_defs]: "POLICY_MESSAGE_CONTENTS_IN_CALLBACK = PolicyId 0x04"
definition POLICY_TC_KEY_REQUEST :: policy_id where [const_defs]: "POLICY_TC_KEY_REQUEST = PolicyId 0x05"
definition POLICY_APP_KEY_REQUEST :: policy_id where [const_defs]: "POLICY_APP_KEY_REQUEST = PolicyId 0x06"

definition VALUE_VERSION_INFO :: value_id where [const_defs]: "VALUE_VERSION_INFO = ValueId 0x11"

definition ALLOW_JOINS :: decision where [const_defs]: "ALLOW_JOINS = Decision 0x01"
definition ALLOW_UNSECURED_REJOINS :: decision where [const_defs]: "ALLOW_UNSECURED_REJOINS = Decision 0x02"
definition SEND_KEY_IN_CLEAR :: decision where [const_defs]: "SEND_KEY_IN_CLEAR = Decision 0x04"
definition JOINS_USE_INSTALL_CODE_KEY :: decision where
  [const_defs]: "JOINS_USE_INSTALL_CODE_KEY = Decision 0x10"

definition ALLOW_TC_KEY_REQUEST_SAME_KEY :: decision where
  [const_defs]: "ALLOW_TC_KEY_REQUEST_SAME_KEY = Decision 0x51"
definition DENY_TC_KEY_REQUESTS :: decision where [const_defs]: "DENY_TC_KEY_REQUESTS = Decision 0x50"
definition DENY_APP_KEY_REQUESTS :: decision where [const_defs]: "DENY_APP_KEY_REQUESTS = Decision 0x60"
definition CHECK_BINDING_MODIFICATIONS :: decision where
  [const_defs]: "CHECK_BINDING_MODIFICATIONS = Decision 0x12"

definition decision_union :: "decision \<Rightarrow> decision \<Rightarrow> decision" where
  "decision_union a b = Decision (decision_raw a OR decision_raw b)"

definition NO_NETWORK :: network_status where [const_defs]: "NO_NETWORK = NetworkStatus 0x00"
definition JOINING :: network_status where [const_defs]: "JOINING = NetworkStatus 0x01"
definition JOINED_NETWORK :: network_status where [const_defs]: "JOINED_NETWORK = NetworkStatus 0x02"
definition JOINED_NETWORK_NO_PARENT :: network_status where
  [const_defs]: "JOINED_NETWORK_NO_PARENT = NetworkStatus 0x03"
definition LEAVING_NETWORK :: network_status where [const_defs]: "LEAVING_NETWORK = NetworkStatus 0x04"

definition is_joined :: "network_status \<Rightarrow> bool" where
  "is_joined s \<longleftrightarrow> s = JOINED_NETWORK \<or> s = JOINED_NETWORK_NO_PARENT"

section \<open>Network parameters\<close>

text \<open>The signed \<open>i8\<close> is the same eight bits as the byte on the wire; the cast changes nothing.\<close>

type_synonym i8 = "8 word"

record network_parameters =
  extended_pan_id :: bytes
  pan_id :: u16
  radio_tx_power :: i8
  radio_channel :: u8
  join_method :: u8
  nwk_manager_id :: u16
  nwk_update_id :: u8
  channels :: u32

definition network_parameters_encode :: "network_parameters \<Rightarrow> encode" where
  "network_parameters_encode p =
     andthen (writer_put (extended_pan_id p)) (\<lambda>_.
     andthen (writer_u16 (pan_id p)) (\<lambda>_.
     andthen (writer_u8 (radio_tx_power p)) (\<lambda>_.
     andthen (writer_u8 (radio_channel p)) (\<lambda>_.
     andthen (writer_u8 (join_method p)) (\<lambda>_.
     andthen (writer_u16 (nwk_manager_id p)) (\<lambda>_.
     andthen (writer_u8 (nwk_update_id p)) (\<lambda>_.
     writer_u32 (channels p))))))))"

definition network_parameters_decode :: "network_parameters decode" where
  "network_parameters_decode =
     andthen (reader_array 8) (\<lambda>x. andthen reader_u16 (\<lambda>p. andthen reader_u8 (\<lambda>t.
     andthen reader_u8 (\<lambda>c. andthen reader_u8 (\<lambda>j. andthen reader_u16 (\<lambda>m.
     andthen reader_u8 (\<lambda>u. andthen reader_u32 (\<lambda>ch.
     ret \<lparr>extended_pan_id = x, pan_id = p, radio_tx_power = t, radio_channel = c, join_method = j,
       nwk_manager_id = m, nwk_update_id = u, channels = ch\<rparr>))))))))"

definition network_parameters_wire :: "network_parameters \<Rightarrow> bytes" where
  "network_parameters_wire p =
     extended_pan_id p @ le_bytes 2 (pan_id p) @ [radio_tx_power p] @ [radio_channel p] @
     [join_method p] @ le_bytes 2 (nwk_manager_id p) @ [nwk_update_id p] @ le_bytes 4 (channels p)"

lemma ezsp_decode_network_parameters [intro, simp]: "ezsp_decode network_parameters_decode"
  unfolding network_parameters_decode_def by (intro ezsp_decode_andthen) auto

lemma parses_network_parameters [intro]:
  assumes "length (extended_pan_id p) = 8"
  shows "parses network_parameters_decode v (network_parameters_wire p) p"
proof -
  have "parses network_parameters_decode v (network_parameters_wire p @ [])
    \<lparr>extended_pan_id = extended_pan_id p, pan_id = pan_id p, radio_tx_power = radio_tx_power p,
      radio_channel = radio_channel p, join_method = join_method p, nwk_manager_id = nwk_manager_id p,
      nwk_update_id = nwk_update_id p, channels = channels p\<rparr>"
    unfolding network_parameters_decode_def network_parameters_wire_def append_assoc
    by (intro parses_andthen parses_u8 parses_u16 parses_u32 parses_ret parses_array) (use assms in auto)
  then show ?thesis by (cases p) simp
qed

lemma writes_network_parameters [intro]:
  "writes (network_parameters_encode p) v (network_parameters_wire p)"
  unfolding network_parameters_encode_def network_parameters_wire_def
  by (intro appends_andthen writes_u8 writes_u16 writes_u32 writes_put)

lemma reads_exactly_network_parameters [intro]:
  "reads_exactly network_parameters_decode v 20"
proof -
  have "reads_exactly network_parameters_decode v (8 + (2 + (1 + (1 + (1 + (2 + (1 + (4 + 0))))))))"
    unfolding network_parameters_decode_def
    by (intro reads_exactly_andthen) auto
  then show ?thesis by simp
qed

lemma length_network_parameters_wire:
  "length (network_parameters_wire p) = length (extended_pan_id p) + 12"
  by (simp add: network_parameters_wire_def)

interpretation network_parameters_codec:
  ezsp_codec network_parameters_decode network_parameters_encode "\<lambda>_. network_parameters_wire"
    "\<lambda>_ p. length (extended_pan_id p) = 8"
proof (rule ezsp_codecI)
  fix v and p :: network_parameters
  show "\<exists>res bs. appends (network_parameters_encode p) v res bs" by blast
qed (auto simp: length_network_parameters_wire)

end
