(* ===== verification/EzspCallback.thy ===== *)
theory EzspCallback
  imports TypesAps TypesNetwork
begin

text \<open>
  Asynchronous callbacks (\<open>ezsp/callback.rs\<close>): the variants, and the decoder that picks the
  layout by frame id. Unknown ids are carried with their bytes. Bytes left over after a known
  layout are ignored, which the source does on purpose for one callback and silently for all.
\<close>

datatype callback =
    StackStatus sl_status
  | TrustCenterJoin node_id eui64 u8 u8 node_id
  | IncomingMessage u8 aps_frame u8 i8 node_id u8 u8 bytes
  | MessageSent u8 u16 aps_frame u16 sl_status bytes
  | UnknownCallback frame_id bytes

text \<open>The four layouts, and the result of any of them: the reader is local to \<open>decode\<close>.\<close>

definition stack_status_decode :: "callback decode" where
  "stack_status_decode = andthen sl_status_decode (\<lambda>s. ret (StackStatus s))"

definition trust_center_join_decode :: "callback decode" where
  "trust_center_join_decode =
     andthen node_id_decode (\<lambda>n. andthen eui64_decode (\<lambda>e. andthen reader_u8 (\<lambda>u.
     andthen reader_u8 (\<lambda>d. andthen node_id_decode (\<lambda>p.
     ret (TrustCenterJoin n e u d p))))))"

definition message_tag_decode :: "u16 decode" where
  "message_tag_decode = with_version (\<lambda>v.
     if has_wide_message_tag v then reader_u16 else andthen reader_u8 (\<lambda>b. ret (ucast b)))"

definition message_sent_decode :: "callback decode" where
  "message_sent_decode =
     andthen reader_u8 (\<lambda>t. andthen reader_u16 (\<lambda>i. andthen aps_frame_decode (\<lambda>f.
     andthen message_tag_decode (\<lambda>tag. andthen sl_status_decode (\<lambda>s.
     andthen reader_length_prefixed (\<lambda>p.
     ret (MessageSent t i f tag s p)))))))"

definition incoming_message_decode :: "callback decode" where
  "incoming_message_decode =
     andthen reader_u8 (\<lambda>t. andthen aps_frame_decode (\<lambda>f. andthen reader_u8 (\<lambda>l.
     andthen reader_u8 (\<lambda>r. andthen node_id_decode (\<lambda>s. andthen reader_u8 (\<lambda>b.
     andthen reader_u8 (\<lambda>a. andthen reader_length_prefixed (\<lambda>p.
     ret (IncomingMessage t f l r s b a p)))))))))"

definition callback_decode :: "frame_id \<Rightarrow> bytes \<Rightarrow> protocol_version \<Rightarrow> ezsp_error + callback" where
  "callback_decode i ps v =
     (let input = reader_new ps v in
      if i = ID_STACK_STATUS_HANDLER then fst (stack_status_decode input)
      else if i = ID_TRUST_CENTER_JOIN_HANDLER then fst (trust_center_join_decode input)
      else if i = ID_MESSAGE_SENT_HANDLER then fst (message_sent_decode input)
      else if i = ID_INCOMING_MESSAGE_HANDLER then fst (incoming_message_decode input)
      else Inr (UnknownCallback i ps))"

fun callback_frame_id :: "callback \<Rightarrow> frame_id" where
  "callback_frame_id (StackStatus _) = ID_STACK_STATUS_HANDLER"
| "callback_frame_id (TrustCenterJoin _ _ _ _ _) = ID_TRUST_CENTER_JOIN_HANDLER"
| "callback_frame_id (IncomingMessage _ _ _ _ _ _ _ _) = ID_INCOMING_MESSAGE_HANDLER"
| "callback_frame_id (MessageSent _ _ _ _ _ _) = ID_MESSAGE_SENT_HANDLER"
| "callback_frame_id (UnknownCallback i _) = i"

section \<open>The layouts are decoders\<close>

lemma ezsp_decode_message_tag [intro, simp]: "ezsp_decode message_tag_decode"
  unfolding message_tag_decode_def by auto

lemma parses_message_tag:
  "parses message_tag_decode v (if has_wide_message_tag v then le_bytes 2 t else [b])
    (if has_wide_message_tag v then t else ucast b)"
  unfolding message_tag_decode_def
  by (rule parses_with_version) (use parses_end [OF parses_u8, of ucast v b] in auto)

interpretation stack_status_cb: ezsp_fixed_decode stack_status_decode status_width
  unfolding stack_status_decode_def by (rule ezsp_fixed_decodeI) (auto intro: reads_exactly_end)

lemma ezsp_decode_trust_center_join: "ezsp_decode trust_center_join_decode"
  unfolding trust_center_join_decode_def by (intro ezsp_decode_andthen) auto

interpretation trust_center_join_cb: ezsp_fixed_decode trust_center_join_decode "\<lambda>_. 14"
proof (rule ezsp_fixed_decodeI)
  have "reads_exactly trust_center_join_decode v (2 + (8 + (1 + (1 + (2 + 0)))))" for v
    unfolding trust_center_join_decode_def by (intro reads_exactly_andthen) auto
  then show "reads_exactly trust_center_join_decode v 14" for v by (simp add: eval_nat_numeral)
qed (rule ezsp_decode_trust_center_join)

interpretation message_sent_cb: ezsp_decode message_sent_decode
  unfolding message_sent_decode_def by (intro ezsp_decode_andthen) auto

interpretation incoming_message_cb: ezsp_decode incoming_message_decode
  unfolding incoming_message_decode_def by (intro ezsp_decode_andthen) auto

section \<open>What a callback on the wire decodes to\<close>

text \<open>
  The layout of a callback's parameters that the decoder assumes under a version: the fields in
  the order of \<open>Callback::decode\<close>, each in its width. Whether firmware from EZSP 14 on sends the
  fields in this order is not known to the crate (README, Known limitations), and nothing here
  says it does; C15 shows that these are the layouts the decoder reads, and no others.
\<close>

fun status_wire :: "protocol_version \<Rightarrow> sl_status \<Rightarrow> bytes" where
  "status_wire v (SlStatus n) = (if has_wide_status v then le_bytes 4 n else [ucast n])"

definition tag_wire :: "protocol_version \<Rightarrow> u16 \<Rightarrow> bytes" where
  "tag_wire v t = (if has_wide_message_tag v then le_bytes 2 t else [ucast t])"

fun callback_wire :: "protocol_version \<Rightarrow> callback \<Rightarrow> bytes" where
  "callback_wire v (StackStatus s) = status_wire v s"
| "callback_wire v (TrustCenterJoin n e u d p) =
     le_bytes 2 (node_raw n) @ to_wire e @ [u] @ [d] @ le_bytes 2 (node_raw p)"
| "callback_wire v (IncomingMessage t f l r s b a p) =
     [t] @ aps_frame_wire f @ [l] @ [r] @ le_bytes 2 (node_raw s) @ [b] @ [a] @
     (word_of_nat (length p) # p)"
| "callback_wire v (MessageSent t i f tag s p) =
     [t] @ le_bytes 2 i @ aps_frame_wire f @ tag_wire v tag @ status_wire v s @
     (word_of_nat (length p) # p)"
| "callback_wire v (UnknownCallback _ ps) = ps"

text \<open>What the narrow fields can carry, and what counts as unknown.\<close>

fun valid_callback :: "protocol_version \<Rightarrow> callback \<Rightarrow> bool" where
  "valid_callback v (StackStatus s) \<longleftrightarrow> has_wide_status v \<or> ucast (ucast (status_raw s) :: u8) = status_raw s"
| "valid_callback v (TrustCenterJoin _ _ _ _ _) \<longleftrightarrow> True"
| "valid_callback v (IncomingMessage _ _ _ _ _ _ _ p) \<longleftrightarrow> length p \<le> 255"
| "valid_callback v (MessageSent _ _ _ tag s p) \<longleftrightarrow> length p \<le> 255 \<and>
     (has_wide_status v \<or>
      (ucast (ucast (status_raw s) :: u8) = status_raw s \<and> ucast (ucast tag :: u8) = tag))"
| "valid_callback v (UnknownCallback i _) \<longleftrightarrow>
     i \<notin> {ID_STACK_STATUS_HANDLER, ID_TRUST_CENTER_JOIN_HANDLER, ID_MESSAGE_SENT_HANDLER,
       ID_INCOMING_MESSAGE_HANDLER}"

lemma parses_status:
  "has_wide_status v \<or> ucast (ucast (status_raw s) :: u8) = status_raw s \<Longrightarrow>
   parses sl_status_decode v (status_wire v s) s"
  using parses_sl_status_narrow [of v "ucast (status_raw s)"] parses_sl_status_wide [of v "status_raw s"]
  by (cases s; cases "has_wide_status v") auto

lemma parses_tag:
  assumes "has_wide_status v \<or> ucast (ucast t :: u8) = t"
  shows "parses message_tag_decode v (tag_wire v t) t"
  using parses_message_tag [of v t "ucast t"] assms
  by (cases "has_wide_status v") (simp_all add: tag_wire_def has_wide_message_tag_iff)

lemma parses_fst:
  assumes "parses dec v bs x" "length (bs @ rest) < 2 ^ 63"
  shows "fst (dec (reader_new (bs @ rest) v)) = Inr x"
  using assms wf_reader_new [OF assms(2), of v] by (simp add: parses_def)

lemma ids_distinct:
  "ID_TRUST_CENTER_JOIN_HANDLER \<noteq> ID_STACK_STATUS_HANDLER"
  "ID_MESSAGE_SENT_HANDLER \<noteq> ID_STACK_STATUS_HANDLER"
  "ID_MESSAGE_SENT_HANDLER \<noteq> ID_TRUST_CENTER_JOIN_HANDLER"
  "ID_INCOMING_MESSAGE_HANDLER \<noteq> ID_STACK_STATUS_HANDLER"
  "ID_INCOMING_MESSAGE_HANDLER \<noteq> ID_TRUST_CENTER_JOIN_HANDLER"
  "ID_INCOMING_MESSAGE_HANDLER \<noteq> ID_MESSAGE_SENT_HANDLER"
  by (simp_all add: const_defs)

lemma parses_incoming:
  "length p \<le> 255 \<Longrightarrow>
   parses incoming_message_decode v (callback_wire v (IncomingMessage t f l r s b a p) @ [])
     (IncomingMessage t f l r s b a p)"
  unfolding incoming_message_decode_def callback_wire.simps append_assoc
  by (intro parses_andthen)
    (rule parses_u8 parses_aps_frame parses_node_id parses_length_prefixed parses_ret | assumption)+

lemma parses_message_sent:
  "length p \<le> 255 \<Longrightarrow> has_wide_status v \<or> ucast (ucast (status_raw s) :: u8) = status_raw s \<Longrightarrow>
   has_wide_status v \<or> ucast (ucast tag :: u8) = tag \<Longrightarrow>
   parses message_sent_decode v (callback_wire v (MessageSent t i f tag s p) @ []) (MessageSent t i f tag s p)"
  unfolding message_sent_decode_def callback_wire.simps append_assoc
  by (intro parses_andthen)
    (rule parses_u8 parses_u16 parses_aps_frame parses_tag parses_status parses_length_prefixed parses_ret
      | assumption)+

lemma parses_join:
  "parses trust_center_join_decode v (callback_wire v (TrustCenterJoin n e u d p) @ [])
     (TrustCenterJoin n e u d p)"
  unfolding trust_center_join_decode_def callback_wire.simps append_assoc
  by (intro parses_andthen) (rule parses_u8 parses_eui64 parses_node_id parses_ret)+

lemma callback_decode_wire:
  assumes "valid_callback v c" "length (callback_wire v c @ rest) < 2 ^ 63"
    and "rest = [] \<or> (\<forall>i ps. c \<noteq> UnknownCallback i ps)"
  shows "callback_decode (callback_frame_id c) (callback_wire v c @ rest) v = Inr c"
proof (cases c)
  case (StackStatus s)
  with assms have "parses stack_status_decode v (callback_wire v c) c"
    unfolding stack_status_decode_def using parses_end [OF parses_status [of v s], of StackStatus] by simp
  from parses_fst [OF this assms(2)] StackStatus show ?thesis by (simp add: callback_decode_def)
next
  case (TrustCenterJoin n e u d p)
  with parses_join [of v n e u d p] have "parses trust_center_join_decode v (callback_wire v c) c" by simp
  from parses_fst [OF this assms(2)] TrustCenterJoin show ?thesis
    by (simp add: callback_decode_def ids_distinct)
next
  case (IncomingMessage t f l r s b a p)
  with parses_incoming [of p v t f l r s b a] assms(1)
  have "parses incoming_message_decode v (callback_wire v c) c" by simp
  from parses_fst [OF this assms(2)] IncomingMessage show ?thesis
    by (simp add: callback_decode_def ids_distinct)
next
  case (MessageSent t i f tag s p)
  with parses_message_sent [of p v s tag t i f] assms(1)
  have "parses message_sent_decode v (callback_wire v c) c" by auto
  from parses_fst [OF this assms(2)] MessageSent show ?thesis
    by (simp add: callback_decode_def ids_distinct)
next
  case (UnknownCallback i ps)
  with assms(1,3) show ?thesis by (simp add: callback_decode_def)
qed

section \<open>What a callback was decoded from\<close>

lemma reads_only_status:
  "reads_only sl_status_decode v (\<lambda>bs s. bs = status_wire v s \<and>
     (has_wide_status v \<or> ucast (ucast (status_raw s) :: u8) = status_raw s))"
proof (cases "has_wide_status v")
  case True
  then have "reads_only (if has_wide_status v then andthen reader_u32 (\<lambda>n. ret (SlStatus n))
     else andthen reader_u8 (\<lambda>n. ret (SlStatus (ucast n)))) v
     (\<lambda>bs y. \<exists>a b x. bs = a @ b \<and> a = le_bytes 4 x \<and> b = [] \<and> y = SlStatus x)"
    by (simp only: if_True) (intro reads_only_andthen reads_only_u32 reads_only_ret)
  then show ?thesis
    unfolding sl_status_decode_def
    by (intro reads_only_with_version, elim reads_only_mono) (use True in auto)
next
  case False
  then have "reads_only (if has_wide_status v then andthen reader_u32 (\<lambda>n. ret (SlStatus n))
     else andthen reader_u8 (\<lambda>n. ret (SlStatus (ucast n)))) v
     (\<lambda>bs y. \<exists>a b x. bs = a @ b \<and> a = [x] \<and> b = [] \<and> y = SlStatus (ucast x))"
    by (simp only: if_False) (intro reads_only_andthen reads_only_u8 reads_only_ret)
  then show ?thesis
    unfolding sl_status_decode_def
    by (intro reads_only_with_version, elim reads_only_mono) (use False in auto)
qed

lemma reads_only_tag:
  "reads_only message_tag_decode v (\<lambda>bs t. bs = tag_wire v t \<and>
     (has_wide_status v \<or> ucast (ucast t :: u8) = t))"
proof (cases "has_wide_status v")
  case True
  then have "reads_only (if has_wide_message_tag v then reader_u16 else andthen reader_u8 (\<lambda>b. ret (ucast b))) v
     (\<lambda>bs t. bs = le_bytes 2 t)"
    using reads_only_u16 by (simp add: has_wide_message_tag_iff)
  then show ?thesis
    unfolding message_tag_decode_def
    by (intro reads_only_with_version, elim reads_only_mono)
      (use True in \<open>auto simp: tag_wire_def has_wide_message_tag_iff\<close>)
next
  case False
  then have "reads_only (if has_wide_message_tag v then reader_u16 else andthen reader_u8 (\<lambda>b. ret (ucast b))) v
     (\<lambda>bs y. \<exists>a b x. bs = a @ b \<and> a = [x] \<and> b = [] \<and> y = ucast x)"
    by (simp only: has_wide_message_tag_iff if_False) (intro reads_only_andthen reads_only_u8 reads_only_ret)
  then show ?thesis
    unfolding message_tag_decode_def
    by (intro reads_only_with_version, elim reads_only_mono)
      (use False in \<open>auto simp: tag_wire_def has_wide_message_tag_iff\<close>)
qed

lemma reads_only_eui64: "reads_only eui64_decode v (\<lambda>bs e. bs = to_wire e)"
proof (rule reads_only_fixed [OF _ reads_exactly_eui64])
  fix bs :: bytes assume "length bs = 8"
  then have "bs = to_wire (from_wire bs)" by (simp add: to_from_wire)
  then show "\<exists>x. parses eui64_decode v bs x \<and> bs = to_wire x" using parses_eui64 by metis
qed simp

lemma reads_only_node_id: "reads_only node_id_decode v (\<lambda>bs n. bs = le_bytes 2 (node_raw n))"
proof -
  have "reads_only node_id_decode v (\<lambda>bs y. \<exists>a b x. bs = a @ b \<and> a = le_bytes 2 x \<and> b = [] \<and> y = NodeId x)"
    unfolding node_id_decode_def by (intro reads_only_andthen reads_only_u16 reads_only_ret)
  then show ?thesis by (rule reads_only_mono) auto
qed

lemma reads_only_aps_frame: "reads_only aps_frame_decode v (\<lambda>bs f. bs = aps_frame_wire f)"
  unfolding aps_frame_decode_def
  by (rule reads_only_mono, (rule reads_only_andthen reads_only_u8 reads_only_u16 reads_only_ret)+)
    (auto simp: aps_frame_wire_def)

lemma reads_only_stack_status:
  "reads_only stack_status_decode v (\<lambda>bs c. callback_frame_id c = ID_STACK_STATUS_HANDLER \<and>
     valid_callback v c \<and> bs = callback_wire v c)"
  unfolding stack_status_decode_def
  by (rule reads_only_mono, (rule reads_only_andthen reads_only_status reads_only_ret)+) auto

lemma reads_only_join:
  "reads_only trust_center_join_decode v (\<lambda>bs c. callback_frame_id c = ID_TRUST_CENTER_JOIN_HANDLER \<and>
     valid_callback v c \<and> bs = callback_wire v c)"
  unfolding trust_center_join_decode_def
  by (rule reads_only_mono, (rule reads_only_andthen reads_only_node_id reads_only_eui64 reads_only_u8 reads_only_ret)+)
    auto

lemma reads_only_message_sent:
  "reads_only message_sent_decode v (\<lambda>bs c. callback_frame_id c = ID_MESSAGE_SENT_HANDLER \<and>
     valid_callback v c \<and> bs = callback_wire v c)"
  unfolding message_sent_decode_def
  by (rule reads_only_mono, (rule reads_only_andthen reads_only_u8 reads_only_u16 reads_only_aps_frame
      reads_only_tag reads_only_status reads_only_length_prefixed reads_only_ret)+) auto

lemma reads_only_incoming:
  "reads_only incoming_message_decode v (\<lambda>bs c. callback_frame_id c = ID_INCOMING_MESSAGE_HANDLER \<and>
     valid_callback v c \<and> bs = callback_wire v c)"
  unfolding incoming_message_decode_def
  by (rule reads_only_mono, (rule reads_only_andthen reads_only_u8 reads_only_aps_frame
      reads_only_node_id reads_only_length_prefixed reads_only_ret)+) auto

lemma reads_only_fst:
  assumes "reads_only dec v P" "fst (dec (reader_new ps v)) = Inr c" "length ps < 2 ^ 63"
  shows "\<exists>bs rest. ps = bs @ rest \<and> P bs c"
proof -
  obtain r' where "dec (reader_new ps v) = (Inr c, r')" using assms(2) by (metis prod.collapse)
  with assms(1) wf_reader_new [OF assms(3), of v] show ?thesis unfolding reads_only_def by fastforce
qed

text \<open>
  C15. The decoder of callbacks is the exact inverse of the layouts it assumes. Under every
  protocol version, parameters that arrive with some frame id decode to a callback \<open>c\<close> exactly
  when they begin with the layout of \<open>c\<close> (\<open>callback_wire\<close>, the one the decoder assumes: field
  order and widths), the frame id is that of \<open>c\<close>, and the version can carry the fields of \<open>c\<close>.
  What follows a known layout is ignored: parameters with any bytes left over decode to the same
  callback, although \<open>decode\<close> documents an error for a known callback that does not match its
  layout. A frame id outside the four known ones keeps its bytes and is never an error.
\<close>

theorem callback_round_trip:
  assumes "length ps < 2 ^ 63"
  shows "callback_decode i ps v = Inr c \<longleftrightarrow>
    callback_frame_id c = i \<and> valid_callback v c \<and>
    (\<exists>rest. ps = callback_wire v c @ rest \<and>
      (rest = [] \<or> i \<in> {ID_STACK_STATUS_HANDLER, ID_TRUST_CENTER_JOIN_HANDLER,
        ID_MESSAGE_SENT_HANDLER, ID_INCOMING_MESSAGE_HANDLER}))"
proof
  assume d: "callback_decode i ps v = Inr c"
  consider "i = ID_STACK_STATUS_HANDLER" | "i = ID_TRUST_CENTER_JOIN_HANDLER"
    | "i = ID_MESSAGE_SENT_HANDLER" | "i = ID_INCOMING_MESSAGE_HANDLER"
    | "i \<notin> {ID_STACK_STATUS_HANDLER, ID_TRUST_CENTER_JOIN_HANDLER, ID_MESSAGE_SENT_HANDLER,
        ID_INCOMING_MESSAGE_HANDLER}" by blast
  then show "callback_frame_id c = i \<and> valid_callback v c \<and>
    (\<exists>rest. ps = callback_wire v c @ rest \<and>
      (rest = [] \<or> i \<in> {ID_STACK_STATUS_HANDLER, ID_TRUST_CENTER_JOIN_HANDLER,
        ID_MESSAGE_SENT_HANDLER, ID_INCOMING_MESSAGE_HANDLER}))"
  proof cases
    case 1
    with d reads_only_fst [OF reads_only_stack_status _ assms] show ?thesis
      by (fastforce simp: callback_decode_def)
  next
    case 2
    with d reads_only_fst [OF reads_only_join _ assms] show ?thesis
      by (fastforce simp: callback_decode_def ids_distinct)
  next
    case 3
    with d reads_only_fst [OF reads_only_message_sent _ assms] show ?thesis
      by (fastforce simp: callback_decode_def ids_distinct)
  next
    case 4
    with d reads_only_fst [OF reads_only_incoming _ assms] show ?thesis
      by (fastforce simp: callback_decode_def ids_distinct)
  next
    case 5
    with d show ?thesis by (auto simp: callback_decode_def)
  qed
next
  assume c: "callback_frame_id c = i \<and> valid_callback v c \<and>
    (\<exists>rest. ps = callback_wire v c @ rest \<and>
      (rest = [] \<or> i \<in> {ID_STACK_STATUS_HANDLER, ID_TRUST_CENTER_JOIN_HANDLER,
        ID_MESSAGE_SENT_HANDLER, ID_INCOMING_MESSAGE_HANDLER}))"
  then obtain rest where rest: "ps = callback_wire v c @ rest"
    "rest = [] \<or> (\<forall>i ps. c \<noteq> UnknownCallback i ps)" by (cases c) auto
  with callback_decode_wire [of v c rest] c assms show "callback_decode i ps v = Inr c" by simp
qed

lemma callback_round_trip_witness:
  "callback_decode ID_STACK_STATUS_HANDLER [0x90, 0xff] (ProtocolVersion 0x0d) = Inr (StackStatus (SlStatus 0x90))"
  using callback_round_trip [of "[0x90, 0xff]" ID_STACK_STATUS_HANDLER "ProtocolVersion 0x0d"
      "StackStatus (SlStatus 0x90)"]
  by (simp add: has_wide_status_def const_defs)

end
