(* ===== verification/TypesSecurity.thy ===== *)
theory TypesSecurity
  imports TypesNetwork
begin

text \<open>
  Keys and the structures that carry them (\<open>types/security.rs\<close>). A key is sixteen bytes; the
  redaction of \<open>Debug\<close> and \<open>Display\<close> is in \<open>Texts\<close>.
\<close>

section \<open>Keys\<close>

datatype security_key = SecurityKey (expose: bytes)

definition valid_key :: "security_key \<Rightarrow> bool" where
  "valid_key k \<longleftrightarrow> length (expose k) = 16"

definition ZIGBEE_ALLIANCE_09 :: security_key where
  [const_defs]: "ZIGBEE_ALLIANCE_09 = SecurityKey
     [0x5a, 0x69, 0x67, 0x42, 0x65, 0x65, 0x41, 0x6c, 0x6c, 0x69, 0x61, 0x6e, 0x63, 0x65, 0x30, 0x39]"

definition security_key_encode :: "security_key \<Rightarrow> encode" where
  "security_key_encode k = writer_put (expose k)"

definition security_key_decode :: "security_key decode" where
  "security_key_decode = andthen (reader_array 16) (\<lambda>bs. ret (SecurityKey bs))"

lemma ezsp_decode_security_key [intro, simp]: "ezsp_decode security_key_decode"
  unfolding security_key_decode_def by auto

lemma parses_security_key [intro]: "valid_key k \<Longrightarrow> parses security_key_decode v (expose k) k"
  using parses_end [of "reader_array 16" v "expose k" "expose k" SecurityKey]
    parses_array [of "expose k" 16 v]
  by (simp add: security_key_decode_def valid_key_def)

lemma writes_security_key [intro]: "writes (security_key_encode k) v (expose k)"
  by (auto simp: security_key_encode_def)

lemma reads_exactly_security_key [intro]: "reads_exactly security_key_decode v 16"
  unfolding security_key_decode_def by (rule reads_exactly_end) auto

interpretation security_key_codec:
  ezsp_codec security_key_decode security_key_encode "\<lambda>_. expose" "\<lambda>_. valid_key"
proof (rule ezsp_codecI)
  fix v and k :: security_key
  show "\<exists>res bs. appends (security_key_encode k) v res bs" by blast
qed (auto simp: valid_key_def)

section \<open>The security manager\<close>

datatype security_man_flags = SecurityManFlags (man_flags_raw: u8)
datatype security_key_type = SecurityKeyType (key_type_raw: u8)

definition MAN_FLAGS_NONE :: security_man_flags where [const_defs]: "MAN_FLAGS_NONE = SecurityManFlags 0x00"
definition KEY_INDEX_IS_VALID :: security_man_flags where
  [const_defs]: "KEY_INDEX_IS_VALID = SecurityManFlags 0x01"
definition EUI_IS_VALID :: security_man_flags where [const_defs]: "EUI_IS_VALID = SecurityManFlags 0x02"
definition KEY_TYPE_NETWORK :: security_key_type where [const_defs]: "KEY_TYPE_NETWORK = SecurityKeyType 0x01"
definition KEY_TYPE_TC_LINK :: security_key_type where [const_defs]: "KEY_TYPE_TC_LINK = SecurityKeyType 0x02"

record security_man_context =
  core_key_type :: security_key_type
  key_index :: u8
  derived_type :: u8
  context_eui64 :: eui64
  multi_network_index :: u8
  context_flags :: security_man_flags
  psa_key_alg_permission :: u32

definition network_key_context :: security_man_context where
  "network_key_context = \<lparr>core_key_type = KEY_TYPE_NETWORK, key_index = 0, derived_type = 0,
     context_eui64 = Eui64 0, multi_network_index = 0, context_flags = MAN_FLAGS_NONE,
     psa_key_alg_permission = 0\<rparr>"

definition security_man_context_encode :: "security_man_context \<Rightarrow> encode" where
  "security_man_context_encode c =
     andthen (writer_u8 (key_type_raw (core_key_type c))) (\<lambda>_.
     andthen (writer_u8 (key_index c)) (\<lambda>_.
     andthen (writer_u8 (derived_type c)) (\<lambda>_.
     andthen (eui64_encode (context_eui64 c)) (\<lambda>_.
     andthen (writer_u8 (multi_network_index c)) (\<lambda>_.
     andthen (writer_u8 (man_flags_raw (context_flags c))) (\<lambda>_.
     writer_u32 (psa_key_alg_permission c)))))))"

definition security_man_context_decode :: "security_man_context decode" where
  "security_man_context_decode =
     andthen reader_u8 (\<lambda>t. andthen reader_u8 (\<lambda>i. andthen reader_u8 (\<lambda>d.
     andthen eui64_decode (\<lambda>e. andthen reader_u8 (\<lambda>m. andthen reader_u8 (\<lambda>f.
     andthen reader_u32 (\<lambda>p.
     ret \<lparr>core_key_type = SecurityKeyType t, key_index = i, derived_type = d, context_eui64 = e,
       multi_network_index = m, context_flags = SecurityManFlags f, psa_key_alg_permission = p\<rparr>)))))))"

definition security_man_context_wire :: "security_man_context \<Rightarrow> bytes" where
  "security_man_context_wire c =
     [key_type_raw (core_key_type c)] @ [key_index c] @ [derived_type c] @ to_wire (context_eui64 c) @
     [multi_network_index c] @ [man_flags_raw (context_flags c)] @ le_bytes 4 (psa_key_alg_permission c)"

lemma length_security_man_context_wire [simp]: "length (security_man_context_wire c) = 17"
  by (simp add: security_man_context_wire_def)

lemma ezsp_decode_security_man_context [intro, simp]: "ezsp_decode security_man_context_decode"
  unfolding security_man_context_decode_def by (intro ezsp_decode_andthen) auto

lemma parses_security_man_context [intro]:
  "parses security_man_context_decode v (security_man_context_wire c) c"
proof -
  have "parses security_man_context_decode v (security_man_context_wire c @ [])
    \<lparr>core_key_type = SecurityKeyType (key_type_raw (core_key_type c)), key_index = key_index c,
      derived_type = derived_type c, context_eui64 = context_eui64 c,
      multi_network_index = multi_network_index c,
      context_flags = SecurityManFlags (man_flags_raw (context_flags c)),
      psa_key_alg_permission = psa_key_alg_permission c\<rparr>"
    unfolding security_man_context_decode_def security_man_context_wire_def append_assoc
    by (intro parses_andthen) (rule parses_u8 parses_u32 parses_eui64 parses_ret)+
  then show ?thesis by (cases c) simp
qed

lemma writes_security_man_context [intro]:
  "writes (security_man_context_encode c) v (security_man_context_wire c)"
  unfolding security_man_context_encode_def security_man_context_wire_def
  by (intro appends_andthen writes_u8 writes_u32 writes_eui64)

interpretation security_man_context_codec:
  ezsp_codec security_man_context_decode security_man_context_encode "\<lambda>_. security_man_context_wire"
    "\<lambda>_ _. True"
proof (rule ezsp_codecI)
  fix v and c :: security_man_context
  show "\<exists>res bs. appends (security_man_context_encode c) v res bs" by blast
qed auto

section \<open>Forming a network\<close>

datatype initial_security_bitmask = InitialSecurityBitmask (bitmask_raw: u16)

definition TRUST_CENTER_GLOBAL_LINK_KEY :: initial_security_bitmask where
  [const_defs]: "TRUST_CENTER_GLOBAL_LINK_KEY = InitialSecurityBitmask 0x0004"
definition TRUST_CENTER_USES_HASHED_LINK_KEY :: initial_security_bitmask where
  [const_defs]: "TRUST_CENTER_USES_HASHED_LINK_KEY = InitialSecurityBitmask 0x0084"
definition PRECONFIGURED_NETWORK_KEY_MODE :: initial_security_bitmask where
  [const_defs]: "PRECONFIGURED_NETWORK_KEY_MODE = InitialSecurityBitmask 0x0008"
definition HAVE_PRECONFIGURED_KEY :: initial_security_bitmask where
  [const_defs]: "HAVE_PRECONFIGURED_KEY = InitialSecurityBitmask 0x0100"
definition HAVE_NETWORK_KEY :: initial_security_bitmask where
  [const_defs]: "HAVE_NETWORK_KEY = InitialSecurityBitmask 0x0200"
definition GET_LINK_KEY_WHEN_JOINING :: initial_security_bitmask where
  [const_defs]: "GET_LINK_KEY_WHEN_JOINING = InitialSecurityBitmask 0x0400"
definition REQUIRE_ENCRYPTED_KEY :: initial_security_bitmask where
  [const_defs]: "REQUIRE_ENCRYPTED_KEY = InitialSecurityBitmask 0x0800"
definition NO_FRAME_COUNTER_RESET :: initial_security_bitmask where
  [const_defs]: "NO_FRAME_COUNTER_RESET = InitialSecurityBitmask 0x1000"

definition bitmask_union ::
  "initial_security_bitmask \<Rightarrow> initial_security_bitmask \<Rightarrow> initial_security_bitmask" where
  "bitmask_union a b = InitialSecurityBitmask (bitmask_raw a OR bitmask_raw b)"

definition bitmask_contains :: "initial_security_bitmask \<Rightarrow> initial_security_bitmask \<Rightarrow> bool" where
  "bitmask_contains a b \<longleftrightarrow> bitmask_raw a AND bitmask_raw b = bitmask_raw b"

record initial_security_state =
  bitmask :: initial_security_bitmask
  preconfigured_key :: security_key
  network_key :: security_key
  network_key_sequence_number :: u8
  preconfigured_trust_center_eui64 :: eui64

definition initial_security_state_encode :: "initial_security_state \<Rightarrow> encode" where
  "initial_security_state_encode s =
     andthen (writer_u16 (bitmask_raw (bitmask s))) (\<lambda>_.
     andthen (security_key_encode (preconfigured_key s)) (\<lambda>_.
     andthen (security_key_encode (network_key s)) (\<lambda>_.
     andthen (writer_u8 (network_key_sequence_number s)) (\<lambda>_.
     eui64_encode (preconfigured_trust_center_eui64 s)))))"

definition initial_security_state_wire :: "initial_security_state \<Rightarrow> bytes" where
  "initial_security_state_wire s =
     le_bytes 2 (bitmask_raw (bitmask s)) @ expose (preconfigured_key s) @ expose (network_key s) @
     [network_key_sequence_number s] @ to_wire (preconfigured_trust_center_eui64 s)"

lemma writes_initial_security_state [intro]:
  "writes (initial_security_state_encode s) v (initial_security_state_wire s)"
  unfolding initial_security_state_encode_def initial_security_state_wire_def
  by (intro appends_andthen writes_u8 writes_u16 writes_security_key writes_eui64)

interpretation initial_security_state_enc: ezsp_encode initial_security_state_encode
proof
  fix s v show "\<exists>res bs. appends (initial_security_state_encode s) v res bs" by blast
qed

end
