(* ===== verification/EzspCommand.thy ===== *)
theory EzspCommand
  imports TypesAps TypesSecurity
begin

text \<open>
  The typed commands (\<open>ezsp/command.rs\<close>): per command its request, its response, how both go
  over the wire, and the instance of the trait \<open>Command\<close>. The trait is a record of what it
  gives the connection: frame id, availability, the bytes of the request, the decoder of the
  answer. The locale \<open>ezsp_command\<close> is the contract the connection relies on, and every command
  is an interpretation of it; answers of a fixed layout are also interpreted with their width as
  a function of the protocol version.
\<close>

section \<open>The trait\<close>

record 'r command =
  command_id :: frame_id
  available :: "protocol_version \<Rightarrow> bool"
  params :: encode
  answer :: "'r decode"

text \<open>\<open>Command::is_available\<close> as the trait provides it.\<close>

definition default_available :: "protocol_version \<Rightarrow> bool" where
  "default_available v = is_supported v"

locale ezsp_command =
  fixes cmd :: "'c \<Rightarrow> 'r command"
  assumes params_append: "\<exists>res bs. appends (params (cmd x)) v res bs"
    and answer_decodes: "ezsp_decode (answer (cmd x))"
    and one_id: "command_id (cmd x) = command_id (cmd y)"
begin

text \<open>Whatever was in the writer before, the header for one, stays in front of the request.\<close>

lemma params_keep_header: "\<exists>bs. writer_bytes (snd (params (cmd x) w)) = writer_bytes w @ bs"
  using params_append [of x "writer_version w"] by (auto simp: appends_def)

lemma answer_stays_in_frame:
  "wf_reader r \<Longrightarrow> answer (cmd x) r = (res, r') \<Longrightarrow> wf_reader r' \<and> reader_bytes r' = reader_bytes r"
  using ezsp_decode.keeps_frame [OF answer_decodes] by blast

end

lemma ezsp_commandI:
  assumes "\<And>x v. \<exists>res bs. appends (params (cmd x)) v res bs" "\<And>x. ezsp_decode (answer (cmd x))"
    and "\<And>x y. command_id (cmd x) = command_id (cmd y)"
  shows "ezsp_command cmd"
  using assms by (simp add: ezsp_command_def)

text \<open>An answer is accepted by the connection when it decodes and leaves nothing over.\<close>

definition accepted :: "'r decode \<Rightarrow> protocol_version \<Rightarrow> bytes \<Rightarrow> bool" where
  "accepted dec v bs \<longleftrightarrow>
     (case dec (reader_new bs v) of (Inr _, r) \<Rightarrow> reader_is_empty r | _ \<Rightarrow> False)"

lemma accepted_iff: "accepted dec v bs \<longleftrightarrow> (\<exists>x r. dec (reader_new bs v) = (Inr x, r) \<and> reader_is_empty r)"
  by (auto simp: accepted_def split: prod.splits sum.splits)

context ezsp_fixed_decode begin

lemma accepted_iff_width: "length bs < 2 ^ 63 \<Longrightarrow> accepted dec v bs \<longleftrightarrow> length bs = width v"
  by (simp add: accepted_iff accepts_iff_width)

end

text \<open>Most commands answer with a status alone, or with a status and more.\<close>

lemma ezsp_decode_status_only: "ezsp_decode (andthen sl_status_decode (\<lambda>s. ret (f s)))"
  by auto

lemma reads_status_only: "reads_exactly (andthen sl_status_decode (\<lambda>s. ret (f s))) v (status_width v)"
  by (rule reads_exactly_end) auto

lemma reads_status_u8:
  "reads_exactly (andthen sl_status_decode (\<lambda>s. andthen reader_u8 (\<lambda>q. ret (f s q)))) v (status_width v + 1)"
  by (rule reads_exactly_andthen) (auto intro: reads_exactly_end)

section \<open>version\<close>

datatype version_request = Version (desired: protocol_version)

record version_response =
  protocol_version :: protocol_version
  stack_type :: u8
  stack_version :: u16

definition version_encode :: "version_request \<Rightarrow> encode" where
  "version_encode c = writer_u8 (raw (desired c))"

definition version_response_decode :: "version_response decode" where
  "version_response_decode =
     andthen reader_u8 (\<lambda>v. andthen reader_u8 (\<lambda>t. andthen reader_u16 (\<lambda>s.
     ret \<lparr>protocol_version = ProtocolVersion v, stack_type = t, stack_version = s\<rparr>)))"

definition version_command :: "version_request \<Rightarrow> version_response command" where
  "version_command c = \<lparr>command_id = ID_VERSION, available = (\<lambda>_. True),
     params = version_encode c, answer = version_response_decode\<rparr>"

lemma ezsp_decode_version [intro, simp]: "ezsp_decode version_response_decode"
  unfolding version_response_decode_def by (intro ezsp_decode_andthen) auto

lemma writes_version [intro]: "writes (version_encode c) v [raw (desired c)]"
  by (auto simp: version_encode_def)

interpretation version_cmd: ezsp_command version_command
  by (rule ezsp_commandI) (auto simp: version_command_def)

interpretation version_answer: ezsp_fixed_decode version_response_decode "\<lambda>_. 4"
proof (rule ezsp_fixed_decodeI)
  have "reads_exactly version_response_decode v (1 + (1 + (2 + 0)))" for v
    unfolding version_response_decode_def by (intro reads_exactly_andthen) auto
  then show "reads_exactly version_response_decode v 4" for v by (simp add: eval_nat_numeral)
qed auto

section \<open>getEui64\<close>

datatype get_eui64 = GetEui64
datatype get_eui64_response = GetEui64Response (answer_eui64: eui64)

definition get_eui64_encode :: "get_eui64 \<Rightarrow> encode" where
  "get_eui64_encode _ = ret ()"

definition get_eui64_response_decode :: "get_eui64_response decode" where
  "get_eui64_response_decode = andthen eui64_decode (\<lambda>e. ret (GetEui64Response e))"

definition get_eui64_command :: "get_eui64 \<Rightarrow> get_eui64_response command" where
  "get_eui64_command c = \<lparr>command_id = ID_GET_EUI64, available = default_available,
     params = get_eui64_encode c, answer = get_eui64_response_decode\<rparr>"

interpretation get_eui64_cmd: ezsp_command get_eui64_command
  by (rule ezsp_commandI) (auto simp: get_eui64_command_def get_eui64_encode_def get_eui64_response_decode_def)

interpretation get_eui64_answer: ezsp_fixed_decode get_eui64_response_decode "\<lambda>_. 8"
  unfolding get_eui64_response_decode_def by (rule ezsp_fixed_decodeI) (auto intro: reads_exactly_end)

section \<open>networkInit\<close>

datatype network_init = NetworkInit (init_bitmask: network_init_bitmask)
datatype network_init_response = NetworkInitResponse (init_status: sl_status)

definition network_init_encode :: "network_init \<Rightarrow> encode" where
  "network_init_encode c = network_init_bitmask_encode (init_bitmask c)"

definition network_init_response_decode :: "network_init_response decode" where
  "network_init_response_decode = andthen sl_status_decode (\<lambda>s. ret (NetworkInitResponse s))"

definition network_init_command :: "network_init \<Rightarrow> network_init_response command" where
  "network_init_command c = \<lparr>command_id = ID_NETWORK_INIT, available = default_available,
     params = network_init_encode c, answer = network_init_response_decode\<rparr>"

lemma writes_network_init_bitmask [intro]: "writes (network_init_bitmask_encode b) v (le_bytes 2 (init_raw b))"
  by (auto simp: network_init_bitmask_encode_def)

interpretation network_init_cmd: ezsp_command network_init_command
  by (rule ezsp_commandI)
    (auto simp: network_init_command_def network_init_encode_def network_init_response_decode_def)

interpretation network_init_answer: ezsp_fixed_decode network_init_response_decode status_width
  unfolding network_init_response_decode_def
  by (rule ezsp_fixed_decodeI [OF ezsp_decode_status_only reads_status_only])

section \<open>permitJoining\<close>

datatype permit_joining = PermitJoining (duration: u8)
datatype permit_joining_response = PermitJoiningResponse (permit_status: sl_status)

definition MAX_DURATION :: u8 where [const_defs]: "MAX_DURATION = 254"

definition for_seconds :: "u8 \<Rightarrow> permit_joining" where
  "for_seconds seconds = PermitJoining (if seconds > MAX_DURATION then MAX_DURATION else seconds)"

definition permit_close :: permit_joining where
  "permit_close = PermitJoining 0"

definition permit_joining_encode :: "permit_joining \<Rightarrow> encode" where
  "permit_joining_encode c = writer_u8 (duration c)"

definition permit_joining_response_decode :: "permit_joining_response decode" where
  "permit_joining_response_decode = andthen sl_status_decode (\<lambda>s. ret (PermitJoiningResponse s))"

definition permit_joining_command :: "permit_joining \<Rightarrow> permit_joining_response command" where
  "permit_joining_command c = \<lparr>command_id = ID_PERMIT_JOINING, available = default_available,
     params = permit_joining_encode c, answer = permit_joining_response_decode\<rparr>"

interpretation permit_joining_cmd: ezsp_command permit_joining_command
  by (rule ezsp_commandI)
    (auto simp: permit_joining_command_def permit_joining_encode_def permit_joining_response_decode_def)

interpretation permit_joining_answer: ezsp_fixed_decode permit_joining_response_decode status_width
  unfolding permit_joining_response_decode_def
  by (rule ezsp_fixed_decodeI [OF ezsp_decode_status_only reads_status_only])

text \<open>The value 255, which leaves the network open for good, is never produced by \<open>for_seconds\<close>.\<close>

lemma for_seconds_bounded: "duration (for_seconds s) \<le> 254 \<and> (s \<le> 254 \<longrightarrow> duration (for_seconds s) = s)"
  by (auto simp: for_seconds_def const_defs not_less)

section \<open>setConfigurationValue\<close>

record set_configuration_value =
  scv_config_id :: config_id
  scv_value :: u16

datatype set_configuration_value_response = SetConfigurationValueResponse (scv_status: sl_status)

definition set_configuration_value_response_decode :: "set_configuration_value_response decode" where
  "set_configuration_value_response_decode = andthen sl_status_decode (\<lambda>s. ret (SetConfigurationValueResponse s))"

definition set_configuration_value_encode :: "set_configuration_value \<Rightarrow> encode" where
  "set_configuration_value_encode c =
     andthen (writer_u8 (config_raw (scv_config_id c))) (\<lambda>_. writer_u16 (scv_value c))"

lemma writes_set_configuration_value [intro]:
  "writes (set_configuration_value_encode c) v ([config_raw (scv_config_id c)] @ le_bytes 2 (scv_value c))"
  unfolding set_configuration_value_encode_def by (rule appends_andthen) auto

definition set_configuration_value_command :: "set_configuration_value \<Rightarrow> set_configuration_value_response command" where
  "set_configuration_value_command c = \<lparr>command_id = ID_SET_CONFIGURATION_VALUE, available = default_available,
     params = set_configuration_value_encode c, answer = set_configuration_value_response_decode\<rparr>"

interpretation set_configuration_value_cmd: ezsp_command set_configuration_value_command
proof (rule ezsp_commandI)
  fix x :: set_configuration_value and v
  show "\<exists>res bs. appends (params (set_configuration_value_command x)) v res bs"
    unfolding set_configuration_value_command_def by (simp, blast)
qed (auto simp: set_configuration_value_command_def set_configuration_value_response_decode_def)

interpretation set_configuration_value_answer: ezsp_fixed_decode set_configuration_value_response_decode status_width
  unfolding set_configuration_value_response_decode_def
  by (rule ezsp_fixed_decodeI [OF ezsp_decode_status_only reads_status_only])

section \<open>setPolicy\<close>

record set_policy =
  sp_policy_id :: policy_id
  sp_decision :: decision

datatype set_policy_response = SetPolicyResponse (sp_status: sl_status)

definition set_policy_response_decode :: "set_policy_response decode" where
  "set_policy_response_decode = andthen sl_status_decode (\<lambda>s. ret (SetPolicyResponse s))"

definition set_policy_encode :: "set_policy \<Rightarrow> encode" where
  "set_policy_encode c =
     andthen (writer_u8 (policy_raw (sp_policy_id c))) (\<lambda>_. writer_u8 (decision_raw (sp_decision c)))"

lemma writes_set_policy [intro]:
  "writes (set_policy_encode c) v ([policy_raw (sp_policy_id c)] @ [decision_raw (sp_decision c)])"
  unfolding set_policy_encode_def by (rule appends_andthen) auto

definition set_policy_command :: "set_policy \<Rightarrow> set_policy_response command" where
  "set_policy_command c = \<lparr>command_id = ID_SET_POLICY, available = default_available,
     params = set_policy_encode c, answer = set_policy_response_decode\<rparr>"

interpretation set_policy_cmd: ezsp_command set_policy_command
proof (rule ezsp_commandI)
  fix x :: set_policy and v
  show "\<exists>res bs. appends (params (set_policy_command x)) v res bs"
    unfolding set_policy_command_def by (simp, blast)
qed (auto simp: set_policy_command_def set_policy_response_decode_def)

interpretation set_policy_answer: ezsp_fixed_decode set_policy_response_decode status_width
  unfolding set_policy_response_decode_def
  by (rule ezsp_fixed_decodeI [OF ezsp_decode_status_only reads_status_only])

section \<open>addEndpoint\<close>

record add_endpoint =
  endpoint :: u8
  ep_profile_id :: u16
  device_id :: u16
  app_flags :: u8
  input_clusters :: "u16 list"
  output_clusters :: "u16 list"

datatype add_endpoint_response = AddEndpointResponse (ae_status: sl_status)

definition add_endpoint_response_decode :: "add_endpoint_response decode" where
  "add_endpoint_response_decode = andthen sl_status_decode (\<lambda>s. ret (AddEndpointResponse s))"

text \<open>The loop over a cluster list, and \<open>u8::try_from(len)\<close>.\<close>

primrec put_clusters :: "u16 list \<Rightarrow> encode" where
  "put_clusters [] = ret ()"
| "put_clusters (c # cs) = andthen (writer_u16 c) (\<lambda>_. put_clusters cs)"

definition count_u8 :: "'b list \<Rightarrow> (writer, ezsp_error, u8) action" where
  "count_u8 xs = (if length xs > 255 then throw (PayloadTooLong (length xs) 255)
     else ret (word_of_nat (length xs)))"

definition add_endpoint_encode :: "add_endpoint \<Rightarrow> encode" where
  "add_endpoint_encode c =
     andthen (writer_u8 (endpoint c)) (\<lambda>_.
     andthen (writer_u16 (ep_profile_id c)) (\<lambda>_.
     andthen (writer_u16 (device_id c)) (\<lambda>_.
     andthen (writer_u8 (app_flags c)) (\<lambda>_.
     andthen (count_u8 (input_clusters c)) (\<lambda>inputs.
     andthen (count_u8 (output_clusters c)) (\<lambda>outputs.
     andthen (writer_u8 inputs) (\<lambda>_.
     andthen (writer_u8 outputs) (\<lambda>_.
     andthen (put_clusters (input_clusters c)) (\<lambda>_.
     put_clusters (output_clusters c))))))))))"

lemma writes_put_clusters [intro]: "writes (put_clusters cs) v (concat (map (le_bytes 2) cs))"
proof (induction cs)
  case (Cons c cs)
  from appends_andthen [OF writes_u16, of "\<lambda>_. put_clusters cs"] Cons show ?case by simp
qed (simp add: writes_ret del: ret_apply)

lemma count_u8_ok: "length xs \<le> 255 \<Longrightarrow> andthen (count_u8 xs) f = f (word_of_nat (length xs))"
  by (simp add: count_u8_def)

lemma count_u8_error:
  "length xs > 255 \<Longrightarrow> andthen (count_u8 xs) f = throw (PayloadTooLong (length xs) 255)"
  by (rule ext) (simp add: count_u8_def)

lemma writes_add_endpoint:
  assumes "length (input_clusters c) \<le> 255" "length (output_clusters c) \<le> 255"
  shows "writes (add_endpoint_encode c) v
    ([endpoint c] @ le_bytes 2 (ep_profile_id c) @ le_bytes 2 (device_id c) @ [app_flags c] @
     [word_of_nat (length (input_clusters c))] @ [word_of_nat (length (output_clusters c))] @
     concat (map (le_bytes 2) (input_clusters c)) @ concat (map (le_bytes 2) (output_clusters c)))"
  unfolding add_endpoint_encode_def count_u8_ok [OF assms(1)] count_u8_ok [OF assms(2)]
  by (intro appends_andthen) (rule writes_u8 writes_u16 writes_put_clusters)+

lemma appends_add_endpoint_error:
  assumes "length (input_clusters c) > 255 \<or> length (output_clusters c) > 255"
  shows "\<exists>n. n > 255 \<and> appends (add_endpoint_encode c) v (Inl (PayloadTooLong n 255))
    ([endpoint c] @ le_bytes 2 (ep_profile_id c) @ le_bytes 2 (device_id c) @ [app_flags c] @ [])"
proof -
  let ?f = "\<lambda>inputs. andthen (count_u8 (output_clusters c)) (\<lambda>outputs. andthen (writer_u8 inputs) (\<lambda>_.
     andthen (writer_u8 outputs) (\<lambda>_. andthen (put_clusters (input_clusters c)) (\<lambda>_.
     put_clusters (output_clusters c)))))"
  have "\<exists>n. n > 255 \<and> andthen (count_u8 (input_clusters c)) ?f = throw (PayloadTooLong n 255)"
  proof (cases "length (input_clusters c) > 255")
    case True
    then show ?thesis by (auto simp: count_u8_error simp del: throw_apply)
  next
    case False
    with assms show ?thesis by (auto simp: count_u8_ok count_u8_error simp del: throw_apply)
  qed
  then obtain n where n: "n > 255" "andthen (count_u8 (input_clusters c)) ?f = throw (PayloadTooLong n 255)"
    by blast
  have "appends (add_endpoint_encode c) v (Inl (PayloadTooLong n 255))
    ([endpoint c] @ le_bytes 2 (ep_profile_id c) @ le_bytes 2 (device_id c) @ [app_flags c] @ [])"
    unfolding add_endpoint_encode_def n(2)
    by (intro appends_andthen) (rule writes_u8 writes_u16 appends_throw)+
  with n(1) show ?thesis by blast
qed

definition add_endpoint_command :: "add_endpoint \<Rightarrow> add_endpoint_response command" where
  "add_endpoint_command c = \<lparr>command_id = ID_ADD_ENDPOINT, available = default_available,
     params = add_endpoint_encode c, answer = add_endpoint_response_decode\<rparr>"

interpretation add_endpoint_cmd: ezsp_command add_endpoint_command
proof (rule ezsp_commandI)
  fix x :: add_endpoint and v
  show "\<exists>res bs. appends (params (add_endpoint_command x)) v res bs"
    using writes_add_endpoint [of x v] appends_add_endpoint_error [of x v]
    unfolding add_endpoint_command_def command.simps not_less [symmetric] by blast
qed (auto simp: add_endpoint_command_def add_endpoint_response_decode_def)

interpretation add_endpoint_answer: ezsp_fixed_decode add_endpoint_response_decode status_width
  unfolding add_endpoint_response_decode_def
  by (rule ezsp_fixed_decodeI [OF ezsp_decode_status_only reads_status_only])

section \<open>importTransientKey\<close>

record import_transient_key =
  itk_eui64 :: eui64
  itk_key :: security_key
  itk_flags :: security_man_flags

datatype import_transient_key_response = ImportTransientKeyResponse (itk_status: sl_status)

definition import_transient_key_encode :: "import_transient_key \<Rightarrow> encode" where
  "import_transient_key_encode c =
     andthen (eui64_encode (itk_eui64 c)) (\<lambda>_.
     andthen (security_key_encode (itk_key c)) (\<lambda>_.
     with_writer_version (\<lambda>v.
       if has_transient_key_flags v then writer_u8 (man_flags_raw (itk_flags c)) else ret ())))"

text \<open>Four bytes at every version: a security-manager command answers with an \<open>sl_status_t\<close>.\<close>

definition import_transient_key_response_decode :: "import_transient_key_response decode" where
  "import_transient_key_response_decode =
     andthen reader_u32 (\<lambda>n. ret (ImportTransientKeyResponse (SlStatus n)))"

lemma writes_import_transient_key [intro]:
  "writes (import_transient_key_encode c) v
    (to_wire (itk_eui64 c) @ expose (itk_key c) @
     (if has_transient_key_flags v then [man_flags_raw (itk_flags c)] else []))"
proof -
  have "writes (if has_transient_key_flags v then writer_u8 (man_flags_raw (itk_flags c)) else ret ()) v
    (if has_transient_key_flags v then [man_flags_raw (itk_flags c)] else [])"
    using writes_u8 writes_ret by (cases "has_transient_key_flags v") (simp_all del: ret_apply)
  then show ?thesis
    unfolding import_transient_key_encode_def
    by (intro appends_andthen) (rule writes_eui64 writes_security_key appends_with_version | assumption)+
qed

definition import_transient_key_command :: "import_transient_key \<Rightarrow> import_transient_key_response command" where
  "import_transient_key_command c = \<lparr>command_id = ID_IMPORT_TRANSIENT_KEY, available = default_available,
     params = import_transient_key_encode c, answer = import_transient_key_response_decode\<rparr>"

interpretation import_transient_key_cmd: ezsp_command import_transient_key_command
proof (rule ezsp_commandI)
  fix x :: import_transient_key and v
  show "\<exists>res bs. appends (params (import_transient_key_command x)) v res bs"
    unfolding import_transient_key_command_def by (simp, blast)
qed (auto simp: import_transient_key_command_def import_transient_key_response_decode_def)

interpretation import_transient_key_answer: ezsp_fixed_decode import_transient_key_response_decode "\<lambda>_. 4"
  unfolding import_transient_key_response_decode_def
  by (rule ezsp_fixed_decodeI) (auto intro: reads_exactly_end)

section \<open>getConfigurationValue and getValue\<close>

datatype get_configuration_value = GetConfigurationValue (gcv_config_id: config_id)

record get_configuration_value_response =
  gcv_status :: sl_status
  gcv_value :: u16

definition get_configuration_value_encode :: "get_configuration_value \<Rightarrow> encode" where
  "get_configuration_value_encode c = writer_u8 (config_raw (gcv_config_id c))"

lemma writes_get_configuration_value [intro]:
  "writes (get_configuration_value_encode c) v [config_raw (gcv_config_id c)]"
  by (auto simp: get_configuration_value_encode_def)

definition get_configuration_value_response_decode :: "get_configuration_value_response decode" where
  "get_configuration_value_response_decode =
     andthen sl_status_decode (\<lambda>s. andthen reader_u16 (\<lambda>n.
     ret \<lparr>gcv_status = s, gcv_value = n\<rparr>))"

definition get_configuration_value_command :: "get_configuration_value \<Rightarrow> get_configuration_value_response command" where
  "get_configuration_value_command c = \<lparr>command_id = ID_GET_CONFIGURATION_VALUE, available = default_available,
     params = get_configuration_value_encode c, answer = get_configuration_value_response_decode\<rparr>"

interpretation get_configuration_value_cmd: ezsp_command get_configuration_value_command
proof (rule ezsp_commandI)
  fix x :: get_configuration_value and v
  show "\<exists>res bs. appends (params (get_configuration_value_command x)) v res bs"
    unfolding get_configuration_value_command_def by (simp, blast)
qed (auto simp: get_configuration_value_command_def get_configuration_value_response_decode_def)

interpretation get_configuration_value_answer:
  ezsp_fixed_decode get_configuration_value_response_decode "\<lambda>v. status_width v + 2"
proof (rule ezsp_fixed_decodeI)
  show "reads_exactly get_configuration_value_response_decode v (status_width v + 2)" for v
    unfolding get_configuration_value_response_decode_def
    by (rule reads_exactly_andthen [OF reads_exactly_sl_status reads_exactly_end [OF reads_exactly_u16]])
qed (auto simp: get_configuration_value_response_decode_def)

datatype get_value = GetValue (gv_value_id: value_id)

record get_value_response =
  gv_status :: sl_status
  gv_value :: bytes

definition get_value_encode :: "get_value \<Rightarrow> encode" where
  "get_value_encode c = writer_u8 (value_raw (gv_value_id c))"

lemma writes_get_value [intro]: "writes (get_value_encode c) v [value_raw (gv_value_id c)]"
  by (auto simp: get_value_encode_def)

definition get_value_response_decode :: "get_value_response decode" where
  "get_value_response_decode =
     andthen sl_status_decode (\<lambda>s. andthen reader_length_prefixed (\<lambda>bs.
     ret \<lparr>gv_status = s, gv_value = bs\<rparr>))"

definition get_value_command :: "get_value \<Rightarrow> get_value_response command" where
  "get_value_command c = \<lparr>command_id = ID_GET_VALUE, available = default_available,
     params = get_value_encode c, answer = get_value_response_decode\<rparr>"

interpretation get_value_cmd: ezsp_command get_value_command
proof (rule ezsp_commandI)
  fix x :: get_value and v
  show "\<exists>res bs. appends (params (get_value_command x)) v res bs"
    unfolding get_value_command_def by (simp, blast)
qed (auto simp: get_value_command_def get_value_response_decode_def)

section \<open>setManufacturerCode and clearTransientLinkKeys\<close>

datatype set_manufacturer_code = SetManufacturerCode (smc_code: u16)

definition set_manufacturer_code_encode :: "set_manufacturer_code \<Rightarrow> encode" where
  "set_manufacturer_code_encode c = writer_u16 (smc_code c)"

lemma writes_set_manufacturer_code [intro]:
  "writes (set_manufacturer_code_encode c) v (le_bytes 2 (smc_code c))"
  by (auto simp: set_manufacturer_code_encode_def)

datatype set_manufacturer_code_response = SetManufacturerCodeResponse

definition set_manufacturer_code_response_decode :: "set_manufacturer_code_response decode" where
  "set_manufacturer_code_response_decode = ret SetManufacturerCodeResponse"

interpretation set_manufacturer_code_answer: ezsp_fixed_decode set_manufacturer_code_response_decode "\<lambda>_. 0"
  unfolding set_manufacturer_code_response_decode_def by (rule ezsp_fixed_decodeI) auto

definition set_manufacturer_code_command :: "set_manufacturer_code \<Rightarrow> set_manufacturer_code_response command" where
  "set_manufacturer_code_command c = \<lparr>command_id = ID_SET_MANUFACTURER_CODE, available = default_available,
     params = set_manufacturer_code_encode c, answer = set_manufacturer_code_response_decode\<rparr>"

interpretation set_manufacturer_code_cmd: ezsp_command set_manufacturer_code_command
proof (rule ezsp_commandI)
  fix x :: set_manufacturer_code and v
  show "\<exists>res bs. appends (params (set_manufacturer_code_command x)) v res bs"
    unfolding set_manufacturer_code_command_def by (simp, blast)
qed (auto simp: set_manufacturer_code_command_def set_manufacturer_code_response_decode_def)

datatype clear_transient_link_keys = ClearTransientLinkKeys

definition clear_transient_link_keys_encode :: "clear_transient_link_keys \<Rightarrow> encode" where
  "clear_transient_link_keys_encode _ = ret ()"

lemma writes_clear_transient_link_keys [intro]: "writes (clear_transient_link_keys_encode c) v []"
  unfolding clear_transient_link_keys_encode_def by (rule writes_ret)

datatype clear_transient_link_keys_response = ClearTransientLinkKeysResponse

definition clear_transient_link_keys_response_decode :: "clear_transient_link_keys_response decode" where
  "clear_transient_link_keys_response_decode = ret ClearTransientLinkKeysResponse"

interpretation clear_transient_link_keys_answer: ezsp_fixed_decode clear_transient_link_keys_response_decode "\<lambda>_. 0"
  unfolding clear_transient_link_keys_response_decode_def by (rule ezsp_fixed_decodeI) auto

definition clear_transient_link_keys_command :: "clear_transient_link_keys \<Rightarrow> clear_transient_link_keys_response command" where
  "clear_transient_link_keys_command c = \<lparr>command_id = ID_CLEAR_TRANSIENT_LINK_KEYS, available = default_available,
     params = clear_transient_link_keys_encode c, answer = clear_transient_link_keys_response_decode\<rparr>"

interpretation clear_transient_link_keys_cmd: ezsp_command clear_transient_link_keys_command
proof (rule ezsp_commandI)
  fix x :: clear_transient_link_keys and v
  show "\<exists>res bs. appends (params (clear_transient_link_keys_command x)) v res bs"
    unfolding clear_transient_link_keys_command_def by (simp, blast)
qed (auto simp: clear_transient_link_keys_command_def clear_transient_link_keys_response_decode_def)

section \<open>getNetworkParameters, setInitialSecurityState and formNetwork\<close>

datatype get_network_parameters = GetNetworkParameters

definition get_network_parameters_encode :: "get_network_parameters \<Rightarrow> encode" where
  "get_network_parameters_encode _ = ret ()"

lemma writes_get_network_parameters [intro]: "writes (get_network_parameters_encode c) v []"
  unfolding get_network_parameters_encode_def by (rule writes_ret)

record get_network_parameters_response =
  gnp_status :: sl_status
  node_type :: u8
  gnp_parameters :: network_parameters

definition get_network_parameters_response_decode :: "get_network_parameters_response decode" where
  "get_network_parameters_response_decode =
     andthen sl_status_decode (\<lambda>s. andthen reader_u8 (\<lambda>t. andthen network_parameters_decode (\<lambda>p.
     ret \<lparr>gnp_status = s, node_type = t, gnp_parameters = p\<rparr>)))"

definition get_network_parameters_command :: "get_network_parameters \<Rightarrow> get_network_parameters_response command" where
  "get_network_parameters_command c = \<lparr>command_id = ID_GET_NETWORK_PARAMETERS, available = default_available,
     params = get_network_parameters_encode c, answer = get_network_parameters_response_decode\<rparr>"

interpretation get_network_parameters_cmd: ezsp_command get_network_parameters_command
proof (rule ezsp_commandI)
  fix x :: get_network_parameters and v
  show "\<exists>res bs. appends (params (get_network_parameters_command x)) v res bs"
    unfolding get_network_parameters_command_def by (simp, blast)
qed (auto simp: get_network_parameters_command_def get_network_parameters_response_decode_def)

interpretation get_network_parameters_answer:
  ezsp_fixed_decode get_network_parameters_response_decode "\<lambda>v. status_width v + 21"
proof (rule ezsp_fixed_decodeI)
  have "reads_exactly get_network_parameters_response_decode v (status_width v + (1 + (20 + 0)))" for v
    unfolding get_network_parameters_response_decode_def by (intro reads_exactly_andthen) auto
  then show "reads_exactly get_network_parameters_response_decode v (status_width v + 21)" for v by simp
qed (auto simp: get_network_parameters_response_decode_def)

datatype set_initial_security_state = SetInitialSecurityState (siss_state: initial_security_state)

datatype set_initial_security_state_response = SetInitialSecurityStateResponse (siss_status: sl_status)

definition set_initial_security_state_response_decode :: "set_initial_security_state_response decode" where
  "set_initial_security_state_response_decode = andthen sl_status_decode (\<lambda>s. ret (SetInitialSecurityStateResponse s))"

definition set_initial_security_state_encode :: "set_initial_security_state \<Rightarrow> encode" where
  "set_initial_security_state_encode c = initial_security_state_encode (siss_state c)"

lemma writes_set_initial_security_state [intro]:
  "writes (set_initial_security_state_encode c) v (initial_security_state_wire (siss_state c))"
  by (auto simp: set_initial_security_state_encode_def)

definition set_initial_security_state_command :: "set_initial_security_state \<Rightarrow> set_initial_security_state_response command" where
  "set_initial_security_state_command c = \<lparr>command_id = ID_SET_INITIAL_SECURITY_STATE, available = default_available,
     params = set_initial_security_state_encode c, answer = set_initial_security_state_response_decode\<rparr>"

interpretation set_initial_security_state_cmd: ezsp_command set_initial_security_state_command
proof (rule ezsp_commandI)
  fix x :: set_initial_security_state and v
  show "\<exists>res bs. appends (params (set_initial_security_state_command x)) v res bs"
    unfolding set_initial_security_state_command_def by (simp, blast)
qed (auto simp: set_initial_security_state_command_def set_initial_security_state_response_decode_def)

interpretation set_initial_security_state_answer: ezsp_fixed_decode set_initial_security_state_response_decode status_width
  unfolding set_initial_security_state_response_decode_def
  by (rule ezsp_fixed_decodeI [OF ezsp_decode_status_only reads_status_only])

datatype form_network = FormNetwork (fn_parameters: network_parameters)

datatype form_network_response = FormNetworkResponse (fn_status: sl_status)

definition form_network_response_decode :: "form_network_response decode" where
  "form_network_response_decode = andthen sl_status_decode (\<lambda>s. ret (FormNetworkResponse s))"

definition form_network_encode :: "form_network \<Rightarrow> encode" where
  "form_network_encode c = network_parameters_encode (fn_parameters c)"

lemma writes_form_network [intro]:
  "writes (form_network_encode c) v (network_parameters_wire (fn_parameters c))"
  by (auto simp: form_network_encode_def)

definition form_network_command :: "form_network \<Rightarrow> form_network_response command" where
  "form_network_command c = \<lparr>command_id = ID_FORM_NETWORK, available = default_available,
     params = form_network_encode c, answer = form_network_response_decode\<rparr>"

interpretation form_network_cmd: ezsp_command form_network_command
proof (rule ezsp_commandI)
  fix x :: form_network and v
  show "\<exists>res bs. appends (params (form_network_command x)) v res bs"
    unfolding form_network_command_def by (simp, blast)
qed (auto simp: form_network_command_def form_network_response_decode_def)

interpretation form_network_answer: ezsp_fixed_decode form_network_response_decode status_width
  unfolding form_network_response_decode_def
  by (rule ezsp_fixed_decodeI [OF ezsp_decode_status_only reads_status_only])

section \<open>exportKey, networkState and getNetworkKeyInfo\<close>

datatype export_key = ExportKey (ek_context: security_man_context)

record export_key_response =
  ek_key :: security_key
  ek_status :: sl_status

definition export_key_encode :: "export_key \<Rightarrow> encode" where
  "export_key_encode c = security_man_context_encode (ek_context c)"

lemma writes_export_key [intro]: "writes (export_key_encode c) v (security_man_context_wire (ek_context c))"
  by (auto simp: export_key_encode_def)

text \<open>Key first, status second.\<close>

definition export_key_response_decode :: "export_key_response decode" where
  "export_key_response_decode =
     andthen security_key_decode (\<lambda>k. andthen reader_u32 (\<lambda>n.
     ret \<lparr>ek_key = k, ek_status = SlStatus n\<rparr>))"

definition export_key_command :: "export_key \<Rightarrow> export_key_response command" where
  "export_key_command c = \<lparr>command_id = ID_EXPORT_KEY, available = default_available,
     params = export_key_encode c, answer = export_key_response_decode\<rparr>"

interpretation export_key_cmd: ezsp_command export_key_command
proof (rule ezsp_commandI)
  fix x :: export_key and v
  show "\<exists>res bs. appends (params (export_key_command x)) v res bs"
    unfolding export_key_command_def by (simp, blast)
qed (auto simp: export_key_command_def export_key_response_decode_def)

interpretation export_key_answer: ezsp_fixed_decode export_key_response_decode "\<lambda>_. 20"
proof (rule ezsp_fixed_decodeI)
  have "reads_exactly export_key_response_decode v (16 + (4 + 0))" for v
    unfolding export_key_response_decode_def by (intro reads_exactly_andthen) auto
  then show "reads_exactly export_key_response_decode v 20" for v by simp
qed (auto simp: export_key_response_decode_def)

datatype network_state = NetworkState

definition network_state_encode :: "network_state \<Rightarrow> encode" where
  "network_state_encode _ = ret ()"

lemma writes_network_state [intro]: "writes (network_state_encode c) v []"
  unfolding network_state_encode_def by (rule writes_ret)

datatype network_state_response = NetworkStateResponse (ns_state: network_status)

definition network_state_response_decode :: "network_state_response decode" where
  "network_state_response_decode = andthen reader_u8 (\<lambda>s. ret (NetworkStateResponse (NetworkStatus s)))"

definition network_state_command :: "network_state \<Rightarrow> network_state_response command" where
  "network_state_command c = \<lparr>command_id = ID_NETWORK_STATE, available = default_available,
     params = network_state_encode c, answer = network_state_response_decode\<rparr>"

interpretation network_state_cmd: ezsp_command network_state_command
proof (rule ezsp_commandI)
  fix x :: network_state and v
  show "\<exists>res bs. appends (params (network_state_command x)) v res bs"
    unfolding network_state_command_def by (simp, blast)
qed (auto simp: network_state_command_def network_state_response_decode_def)

interpretation network_state_answer: ezsp_fixed_decode network_state_response_decode "\<lambda>_. Suc 0"
  unfolding network_state_response_decode_def by (rule ezsp_fixed_decodeI) (auto intro: reads_exactly_end)

datatype get_network_key_info = GetNetworkKeyInfo

definition get_network_key_info_encode :: "get_network_key_info \<Rightarrow> encode" where
  "get_network_key_info_encode _ = ret ()"

lemma writes_get_network_key_info [intro]: "writes (get_network_key_info_encode c) v []"
  unfolding get_network_key_info_encode_def by (rule writes_ret)

record get_network_key_info_response =
  gnki_status :: sl_status
  network_key_set :: bool
  alternate_network_key_set :: bool
  gnki_key_sequence_number :: u8
  alt_network_key_sequence_number :: u8
  network_key_frame_counter :: u32

definition get_network_key_info_response_decode :: "get_network_key_info_response decode" where
  "get_network_key_info_response_decode =
     andthen reader_u32 (\<lambda>s. andthen reader_u8 (\<lambda>k. andthen reader_u8 (\<lambda>a.
     andthen reader_u8 (\<lambda>n. andthen reader_u8 (\<lambda>m. andthen reader_u32 (\<lambda>c.
     ret \<lparr>gnki_status = SlStatus s, network_key_set = (k \<noteq> 0), alternate_network_key_set = (a \<noteq> 0),
       gnki_key_sequence_number = n, alt_network_key_sequence_number = m,
       network_key_frame_counter = c\<rparr>))))))"

lemma ezsp_decode_get_network_key_info [intro, simp]: "ezsp_decode get_network_key_info_response_decode"
  unfolding get_network_key_info_response_decode_def by (intro ezsp_decode_andthen) auto

definition get_network_key_info_command :: "get_network_key_info \<Rightarrow> get_network_key_info_response command" where
  "get_network_key_info_command c = \<lparr>command_id = ID_GET_NETWORK_KEY_INFO, available = default_available,
     params = get_network_key_info_encode c, answer = get_network_key_info_response_decode\<rparr>"

interpretation get_network_key_info_cmd: ezsp_command get_network_key_info_command
proof (rule ezsp_commandI)
  fix x :: get_network_key_info and v
  show "\<exists>res bs. appends (params (get_network_key_info_command x)) v res bs"
    unfolding get_network_key_info_command_def by (simp, blast)
qed (auto simp: get_network_key_info_command_def)

interpretation get_network_key_info_answer: ezsp_fixed_decode get_network_key_info_response_decode "\<lambda>_. 12"
proof (rule ezsp_fixed_decodeI)
  have "reads_exactly get_network_key_info_response_decode v (4 + (1 + (1 + (1 + (1 + (4 + 0))))))" for v
    unfolding get_network_key_info_response_decode_def by (intro reads_exactly_andthen) auto
  then show "reads_exactly get_network_key_info_response_decode v 12" for v by (simp add: eval_nat_numeral)
qed auto

end
