(* ===== verification/EzspFrame.thy ===== *)
theory EzspFrame
  imports EzspCodec
begin

text \<open>
  EZSP frame headers (\<open>ezsp/frame.rs\<close>): the legacy header of the bootstrap \<open>version\<close> command and
  the extended header of everything after it, the control byte, and the parser of received
  frames. The lemmas give the exact bytes of a header, the parser as a total function of the
  frame's bytes, and what each format cannot express.
\<close>

section \<open>Formats and the control byte\<close>

datatype header_format = Legacy | Extended

fun byte_len :: "header_format \<Rightarrow> nat" where
  "byte_len Legacy = 3"
| "byte_len Extended = 5"

datatype direction = Command | Response

record frame_control =
  direction :: direction
  is_callback :: bool
  callback_pending :: bool
  overflow :: bool
  truncated :: bool
  raw_low :: u8

definition DIRECTION_RESPONSE :: u8 where [const_defs]: "DIRECTION_RESPONSE = 0x80"
definition OVERFLOW :: u8 where [const_defs]: "OVERFLOW = 0x01"
definition TRUNCATED :: u8 where [const_defs]: "TRUNCATED = 0x02"
definition CALLBACK_PENDING :: u8 where [const_defs]: "CALLBACK_PENDING = 0x04"
definition ASYNC_CALLBACK :: u8 where [const_defs]: "ASYNC_CALLBACK = 0x10"

definition control_command :: frame_control where
  "control_command = \<lparr>direction = Command, is_callback = False, callback_pending = False,
     overflow = False, truncated = False, raw_low = 0x00\<rparr>"

definition from_low_byte :: "u8 \<Rightarrow> frame_control" where
  "from_low_byte low = \<lparr>
     direction = (if low AND DIRECTION_RESPONSE = 0 then Command else Response),
     is_callback = (low AND ASYNC_CALLBACK \<noteq> 0),
     callback_pending = (low AND CALLBACK_PENDING \<noteq> 0),
     overflow = (low AND OVERFLOW \<noteq> 0),
     truncated = (low AND TRUNCATED \<noteq> 0),
     raw_low = low\<rparr>"

definition to_low_byte :: "frame_control \<Rightarrow> u8" where
  "to_low_byte c = (case direction c of Command \<Rightarrow> 0x00 | Response \<Rightarrow> DIRECTION_RESPONSE)"

lemma from_low_byte_bits:
  "direction (from_low_byte low) = Response \<longleftrightarrow> bit low 7"
  "is_callback (from_low_byte low) \<longleftrightarrow> bit low 4" "callback_pending (from_low_byte low) \<longleftrightarrow> bit low 2"
  "overflow (from_low_byte low) \<longleftrightarrow> bit low 0" "truncated (from_low_byte low) \<longleftrightarrow> bit low 1"
  "raw_low (from_low_byte low) = low"
  by (simp_all add: from_low_byte_def const_defs u8_bit_tests)

section \<open>Frames\<close>

record ezsp_frame =
  sequence :: u8
  frame_control :: frame_control
  frame_id :: frame_id
  parameters :: bytes

definition MAX_FRAME_LENGTH :: nat where [const_defs]: "MAX_FRAME_LENGTH = 218"
definition EXTENDED_FRAME_FORMAT_VERSION :: u8 where [const_defs]: "EXTENDED_FRAME_FORMAT_VERSION = 0x01"

definition LEGACY_ID_REASON :: string where
  "LEGACY_ID_REASON = ''a legacy header cannot carry a frame id above 0xff''"

definition write_header :: "u8 \<Rightarrow> frame_id \<Rightarrow> header_format \<Rightarrow> encode" where
  "write_header sq i format =
     andthen (writer_u8 sq) (\<lambda>_.
     case format of
       Legacy \<Rightarrow>
         (if \<not> fits_legacy i then throw (MalformedHeader LEGACY_ID_REASON)
          else andthen (writer_u8 (to_low_byte control_command)) (\<lambda>_.
               writer_u8 (ucast (id_raw i AND 0xff))))
     | Extended \<Rightarrow>
         andthen (writer_u8 (to_low_byte control_command)) (\<lambda>_.
         andthen (writer_u8 EXTENDED_FRAME_FORMAT_VERSION) (\<lambda>_.
         writer_u16 (id_raw i))))"

text \<open>\<open>bytes.get(i)\<close> with \<open>ok_or\<close> the given error.\<close>

definition get_or :: "ezsp_error \<Rightarrow> nat \<Rightarrow> bytes \<Rightarrow> ezsp_error + u8" where
  "get_or e i bs = (if i < length bs then Inr (bs ! i) else Inl e)"

definition parse :: "bytes \<Rightarrow> header_format \<Rightarrow> ezsp_error + ezsp_frame" where
  "parse bs format =
     (if length bs > MAX_FRAME_LENGTH then Inl (FrameTooLong (length bs) MAX_FRAME_LENGTH)
      else if length bs < byte_len format then Inl (TruncatedFrame (byte_len format) (length bs))
      else
        (case get_or (TruncatedFrame 1 0) 0 bs of
           Inl e \<Rightarrow> Inl e
         | Inr sq \<Rightarrow>
        (case get_or (TruncatedFrame 2 (length bs)) 1 bs of
           Inl e \<Rightarrow> Inl e
         | Inr low \<Rightarrow>
        (case format of
           Legacy \<Rightarrow>
             (case get_or (TruncatedFrame 3 (length bs)) 2 bs of
                Inl e \<Rightarrow> Inl e
              | Inr i \<Rightarrow> Inr \<lparr>sequence = sq, frame_control = from_low_byte low,
                  frame_id = FrameId (ucast i), parameters = drop 3 bs\<rparr>)
         | Extended \<Rightarrow>
             (case get_or (TruncatedFrame 4 (length bs)) 3 bs of
                Inl e \<Rightarrow> Inl e
              | Inr lo \<Rightarrow>
             (case get_or (TruncatedFrame 5 (length bs)) 4 bs of
                Inl e \<Rightarrow> Inl e
              | Inr hi \<Rightarrow> Inr \<lparr>sequence = sq, frame_control = from_low_byte low,
                  frame_id = FrameId (le_word [lo, hi]), parameters = drop 5 bs\<rparr>))))))"

definition frame_parameters :: "ezsp_frame \<Rightarrow> protocol_version \<Rightarrow> reader" where
  "frame_parameters f v = reader_new (parameters f) v"

section \<open>Writing\<close>

definition header_wire :: "u8 \<Rightarrow> frame_id \<Rightarrow> header_format \<Rightarrow> bytes" where
  "header_wire sq i format = (case format of
     Legacy \<Rightarrow> [sq, 0, ucast (id_raw i)]
   | Extended \<Rightarrow> [sq, 0, 1] @ le_bytes 2 (id_raw i))"

lemma to_low_byte_command [simp]: "to_low_byte control_command = 0"
  by (simp add: to_low_byte_def control_command_def)

lemma writes_header:
  assumes "format = Legacy \<longrightarrow> fits_legacy i"
  shows "writes (write_header sq i format) v (header_wire sq i format)"
proof (cases format)
  case Legacy
  have "ucast (id_raw i AND 0xff) = (ucast (id_raw i) :: u8)"
  proof (rule bit_word_eqI)
    fix n assume n: "n < LENGTH(8)"
    have "bit (0xff :: u16) n" if "n < 8"
      using less_8_cases [OF that] by auto
    with n show "bit (ucast (id_raw i AND 0xff) :: u8) n = bit (ucast (id_raw i) :: u8) n"
      by (auto simp: bit_simps simp del: bit_numeral_word_iff)
  qed
  with Legacy assms show ?thesis
    by (simp add: write_header_def header_wire_def appends_def writer_u8_def writer_put_def)
next
  case Extended
  then show ?thesis
    by (simp add: write_header_def header_wire_def appends_def writer_u8_def writer_u16_def
        writer_put_def const_defs)
qed

lemma header_refused:
  "\<not> fits_legacy i \<Longrightarrow>
   appends (write_header sq i Legacy) v (Inl (MalformedHeader LEGACY_ID_REASON)) [sq]"
  by (simp add: write_header_def appends_def writer_u8_def writer_put_def)

lemma length_header_wire [simp]: "length (header_wire sq i format) = byte_len format"
  by (cases format) (simp_all add: header_wire_def)

interpretation header_enc: ezsp_encode "\<lambda>(sq, i, format). write_header sq i format"
proof
  fix x :: "u8 \<times> frame_id \<times> header_format" and v
  obtain sq i format where x: "x = (sq, i, format)" by (cases x)
  have "\<exists>res bs. appends (write_header sq i format) v res bs"
  proof (cases "format = Legacy \<longrightarrow> fits_legacy i")
    case True
    then show ?thesis using writes_header by blast
  next
    case False
    then show ?thesis using header_refused by blast
  qed
  then show "\<exists>res bs. appends (case x of (sq, i, format) \<Rightarrow> write_header sq i format) v res bs"
    by (simp add: x)
qed

section \<open>Parsing\<close>

text \<open>The parser without the bounds checks that the length check makes unreachable.\<close>

definition header_id :: "bytes \<Rightarrow> header_format \<Rightarrow> frame_id" where
  "header_id bs format = (case format of
     Legacy \<Rightarrow> FrameId (ucast (bs ! 2)) | Extended \<Rightarrow> FrameId (le_word [bs ! 3, bs ! 4]))"

lemma parse_eq:
  "parse bs format =
     (if length bs > 218 then Inl (FrameTooLong (length bs) 218)
      else if length bs < byte_len format then Inl (TruncatedFrame (byte_len format) (length bs))
      else Inr \<lparr>sequence = bs ! 0, frame_control = from_low_byte (bs ! 1),
        frame_id = header_id bs format, parameters = drop (byte_len format) bs\<rparr>)"
proof (cases "length bs > 218 \<or> length bs < byte_len format")
  case True
  then show ?thesis by (auto simp: parse_def const_defs)
next
  case False
  then have len: "\<not> length bs > 218" "\<not> length bs < byte_len format" by simp_all
  have "3 \<le> length bs" using len(2) by (cases format) auto
  then have get: "get_or e 0 bs = Inr (bs ! 0)" "get_or e 1 bs = Inr (bs ! 1)" "get_or e 2 bs = Inr (bs ! 2)" for e
    unfolding get_or_def by auto
  show ?thesis
  proof (cases format)
    case Legacy
    with len get show ?thesis by (simp only: parse_def header_id_def sum.case header_format.case
        MAX_FRAME_LENGTH_def if_False byte_len.simps)
  next
    case Extended
    with len have "get_or e 3 bs = Inr (bs ! 3)" "get_or e 4 bs = Inr (bs ! 4)" for e
      unfolding get_or_def by auto
    with Extended len get show ?thesis by (simp only: parse_def header_id_def sum.case header_format.case
        MAX_FRAME_LENGTH_def if_False byte_len.simps)
  qed
qed

text \<open>
  An outgoing header, read by the same format with the direction bit set by the answering side:
  the sequence, the frame id and the parameters come back.
\<close>

lemma parse_header_wire:
  assumes "format = Legacy \<longrightarrow> fits_legacy i" and "byte_len format + length ps \<le> 218"
  shows "\<exists>f. parse (header_wire sq i format @ ps) format = Inr f \<and> sequence f = sq \<and> frame_id f = i \<and>
    parameters f = ps \<and> frame_control f = from_low_byte 0"
proof (cases format)
  case Legacy
  have "ucast (ucast (id_raw i) :: u8) = id_raw i"
  proof -
    from assms Legacy have "id_raw i \<le> 0xff" by (simp add: fits_legacy_def)
    then have "unat (id_raw i) < 2 ^ 8" by (simp add: word_le_nat_alt)
    then have "take_bit 8 (id_raw i) = id_raw i"
      by (simp add: word_unat_eq_iff unsigned_take_bit_eq take_bit_nat_eq_self)
    moreover have "ucast (ucast (id_raw i) :: u8) = take_bit 8 (id_raw i)"
      by (rule bit_word_eqI) (auto simp: bit_simps)
    ultimately show ?thesis by simp
  qed
  with Legacy assms(2) show ?thesis
    by (simp add: parse_eq header_wire_def header_id_def)
next
  case Extended
  obtain a b where ab: "le_bytes 2 (id_raw i) = [a, b]" by (rule length_2E [OF length_le_bytes])
  have "le_word (le_bytes 2 (id_raw i)) = id_raw i" by (rule le_word_le_bytes) simp
  then have "le_word [a, b] = id_raw i" by (simp only: ab)
  with Extended assms(2) ab show ?thesis
    by (simp add: parse_eq header_wire_def header_id_def del: le_word.simps le_bytes.simps)
qed

end
