(* ===== verification/Correlation.thy ===== *)
theory Correlation
  imports EzspFrame
begin

text \<open>
  Matching responses to commands (\<open>ezsp/correlation.rs\<close>): the one outstanding command, the
  sequence counter, and the classification of every received frame. The lemmas follow arbitrary
  sequences of calls: every answer belongs to the command that is outstanding, and answers it
  once.
\<close>

section \<open>State\<close>

record pending =
  pending_sequence :: u8
  pending_frame_id :: frame_id

datatype classified =
    Answer bytes
  | CallbackFrame frame_id bytes
  | Stale frame_id u8

record correlator =
  pending :: "pending option"
  next_seq :: u8
  stale_frames :: u64

definition correlator_new :: correlator where
  "correlator_new = \<lparr>pending = None, next_seq = 0, stale_frames = 0\<rparr>"

definition is_busy :: "correlator \<Rightarrow> bool" where
  "is_busy c \<longleftrightarrow> pending c \<noteq> None"

definition awaited_frame_id :: "correlator \<Rightarrow> frame_id option" where
  "awaited_frame_id c = (case pending c of Some p \<Rightarrow> Some (pending_frame_id p) | None \<Rightarrow> None)"

section \<open>Operations\<close>

definition begin_command :: "frame_id \<Rightarrow> (correlator, ezsp_error, u8) action" where
  "begin_command i c =
     (case pending c of
        Some p \<Rightarrow> (Inl (SequenceMismatch (pending_sequence p)), c)
      | None \<Rightarrow>
          (let sq = next_seq c in
           (Inr sq, c\<lparr>next_seq := next_seq c + 1,
              pending := Some \<lparr>pending_sequence = sq, pending_frame_id = i\<rparr>\<rparr>)))"

definition count_stale :: "ezsp_frame \<Rightarrow> correlator \<Rightarrow> classified \<times> correlator" where
  "count_stale f c = (Stale (frame_id f) (sequence f), c\<lparr>stale_frames := saturating_inc (stale_frames c)\<rparr>)"

definition classify :: "ezsp_frame \<Rightarrow> correlator \<Rightarrow> classified \<times> correlator" where
  "classify f c =
     (if is_callback (frame_control f) then (CallbackFrame (frame_id f) (parameters f), c)
      else if direction (frame_control f) \<noteq> Response then count_stale f c
      else
        (case pending c of
           Some p \<Rightarrow>
             if pending_sequence p = sequence f \<and> pending_frame_id p = frame_id f
             then (Answer (parameters f), c\<lparr>pending := None\<rparr>)
             else count_stale f c
         | None \<Rightarrow> count_stale f c))"

definition time_out :: "(correlator, ezsp_error, unit) action" where
  "time_out c =
     (case pending c of
        Some p \<Rightarrow> (Inl (Timeout (pending_frame_id p)), c\<lparr>pending := None\<rparr>)
      | None \<Rightarrow> (Inr (), c\<lparr>pending := None\<rparr>))"

definition on_ncp_reset :: "(correlator, ezsp_error, unit) action" where
  "on_ncp_reset c =
     (let c' = c\<lparr>next_seq := 0\<rparr> in
      case pending c' of
        Some p \<Rightarrow> (Inl (NcpReset (pending_frame_id p)), c'\<lparr>pending := None\<rparr>)
      | None \<Rightarrow> (Inr (), c'\<lparr>pending := None\<rparr>))"

section \<open>One frame\<close>

definition answers :: "ezsp_frame \<Rightarrow> correlator \<Rightarrow> bool" where
  "answers f c \<longleftrightarrow> \<not> is_callback (frame_control f) \<and> direction (frame_control f) = Response \<and>
     pending c = Some \<lparr>pending_sequence = sequence f, pending_frame_id = frame_id f\<rparr>"

lemma classify_answer: "answers f c \<Longrightarrow> classify f c = (Answer (parameters f), c\<lparr>pending := None\<rparr>)"
  by (simp add: answers_def classify_def)

lemma classify_callback: "is_callback (frame_control f) \<Longrightarrow> classify f c = (CallbackFrame (frame_id f) (parameters f), c)"
  by (simp add: classify_def)

lemma classify_stale:
  "\<not> is_callback (frame_control f) \<Longrightarrow> \<not> answers f c \<Longrightarrow> classify f c = count_stale f c"
  by (auto simp: classify_def answers_def split: option.split)

lemma classify_cases:
  obtains "answers f c" "classify f c = (Answer (parameters f), c\<lparr>pending := None\<rparr>)"
  | "\<not> answers f c" "is_callback (frame_control f)"
    "classify f c = (CallbackFrame (frame_id f) (parameters f), c)"
  | "\<not> answers f c" "\<not> is_callback (frame_control f)" "classify f c = count_stale f c"
proof -
  consider "answers f c" | "is_callback (frame_control f)" | "\<not> answers f c" "\<not> is_callback (frame_control f)"
    by blast
  then show ?thesis
  proof cases
    case 1
    then show ?thesis using that(1) classify_answer by blast
  next
    case 2
    then have "\<not> answers f c" by (simp add: answers_def)
    with 2 show ?thesis using that(2) classify_callback by blast
  next
    case 3
    then show ?thesis using that(3) classify_stale by blast
  qed
qed

section \<open>Sequences of calls\<close>

datatype call =
    Begin frame_id
  | Receive ezsp_frame
  | TimeOut
  | ResetSeen

datatype outcome =
    Began "ezsp_error + u8"
  | Classified classified
  | Ended "ezsp_error + unit"

fun call_correlator :: "call \<Rightarrow> correlator \<Rightarrow> outcome \<times> correlator" where
  "call_correlator (Begin i) c = (let (r, c') = begin_command i c in (Began r, c'))"
| "call_correlator (Receive f) c = (let (r, c') = classify f c in (Classified r, c'))"
| "call_correlator TimeOut c = (let (r, c') = time_out c in (Ended r, c'))"
| "call_correlator ResetSeen c = (let (r, c') = on_ncp_reset c in (Ended r, c'))"

primrec calls :: "call list \<Rightarrow> correlator \<Rightarrow> outcome list \<times> correlator" where
  "calls [] c = ([], c)"
| "calls (x # xs) c =
     (let (r, c1) = call_correlator x c; (rs, c2) = calls xs c1 in (r # rs, c2))"

lemma calls_Cons:
  "fst (calls (x # xs) c) = fst (call_correlator x c) # fst (calls xs (snd (call_correlator x c)))"
  "snd (calls (x # xs) c) = snd (calls xs (snd (call_correlator x c)))"
  by (simp_all split: prod.splits)

lemma calls_append:
  "fst (calls (xs @ ys) c) = fst (calls xs c) @ fst (calls ys (snd (calls xs c)))"
  "snd (calls (xs @ ys) c) = snd (calls ys (snd (calls xs c)))"
  by (induction xs arbitrary: c) (simp_all add: calls_Cons del: calls.simps(2))

lemma length_calls: "length (fst (calls xs c)) = length xs"
  by (induction xs arbitrary: c) (simp_all add: calls_Cons del: calls.simps(2))

lemma calls_snoc:
  "calls xs c = (rs, c1) \<Longrightarrow> call_correlator x c1 = (r, c2) \<Longrightarrow> calls (xs @ [x]) c = (rs @ [r], c2)"
  by (rule prod_eqI) (simp_all add: calls_append)

text \<open>
  \<open>opened_at xs rs j p\<close>: call \<open>j\<close> made \<open>p\<close> outstanding, and nothing since ended it.
\<close>

definition ends_pending :: "call \<Rightarrow> outcome \<Rightarrow> bool" where
  "ends_pending x r \<longleftrightarrow> x = TimeOut \<or> x = ResetSeen \<or> (\<exists>ps. r = Classified (Answer ps)) \<or> (\<exists>sq. r = Began (Inr sq))"

definition opened_at :: "call list \<Rightarrow> outcome list \<Rightarrow> nat \<Rightarrow> pending \<Rightarrow> bool" where
  "opened_at xs rs j p \<longleftrightarrow>
     j < length xs \<and> xs ! j = Begin (pending_frame_id p) \<and> rs ! j = Began (Inr (pending_sequence p)) \<and>
     (\<forall>k. j < k \<longrightarrow> k < length xs \<longrightarrow> \<not> ends_pending (xs ! k) (rs ! k))"

lemma opened_at_snoc:
  "opened_at xs rs j p \<Longrightarrow> length rs = length xs \<Longrightarrow> \<not> ends_pending x r \<Longrightarrow> opened_at (xs @ [x]) (rs @ [r]) j p"
  by (auto simp: opened_at_def nth_append less_Suc_eq)

lemma pending_opened:
  "pending (snd (calls xs correlator_new)) = Some p \<Longrightarrow>
   \<exists>j. opened_at xs (fst (calls xs correlator_new)) j p"
proof (induction xs arbitrary: p rule: rev_induct)
  case Nil
  then show ?case by (simp add: correlator_new_def)
next
  case (snoc x xs)
  obtain rs c where c: "calls xs correlator_new = (rs, c)" by (cases "calls xs correlator_new")
  obtain r c' where r: "call_correlator x c = (r, c')" by (cases "call_correlator x c")
  have len: "length rs = length xs" using length_calls [of xs correlator_new] c by simp
  have p': "pending c' = Some p" using snoc.prems calls_snoc [OF c r] by simp
  have IH: "\<exists>j. opened_at (xs @ [x]) (rs @ [r]) j p" if "pending c = Some p" "\<not> ends_pending x r"
    using snoc.IH [of p] that c len opened_at_snoc by fastforce
  have "\<exists>j. opened_at (xs @ [x]) (rs @ [r]) j p"
  proof (cases x)
    case (Begin i)
    show ?thesis
    proof (cases "pending c")
      case None
      with Begin r p' have "r = Began (Inr (next_seq c))" "p = \<lparr>pending_sequence = next_seq c, pending_frame_id = i\<rparr>"
        by (auto simp: begin_command_def Let_def)
      with Begin len have "opened_at (xs @ [x]) (rs @ [r]) (length xs) p"
        by (simp add: opened_at_def nth_append)
      then show ?thesis by blast
    next
      case (Some q)
      with Begin r p' have "pending c = Some p" "\<not> ends_pending x r"
        by (auto simp: begin_command_def ends_pending_def)
      then show ?thesis by (rule IH)
    qed
  next
    case (Receive f)
    have "pending c = Some p \<and> \<not> ends_pending x r"
      by (rule classify_cases [of f c])
        (use r p' Receive in \<open>auto simp: ends_pending_def count_stale_def\<close>)
    then show ?thesis by (intro IH) simp_all
  next
    case TimeOut
    with r p' show ?thesis by (auto simp: time_out_def split: option.splits)
  next
    case ResetSeen
    with r p' show ?thesis by (auto simp: on_ncp_reset_def Let_def split: option.splits)
  qed
  then show ?case by (simp add: calls_snoc [OF c r])
qed

lemma calls_nth:
  assumes "i < length xs"
  shows "fst (calls xs c) ! i = fst (call_correlator (xs ! i) (snd (calls (take i xs) c)))"
proof -
  have "fst (calls xs c) = fst (calls (take i xs @ [xs ! i] @ drop (Suc i) xs) c)"
    using assms by (simp add: id_take_nth_drop [symmetric])
  then show ?thesis
    using assms length_calls [of "take i xs" c]
    by (simp add: calls_append calls_Cons nth_append del: calls.simps(2))
qed

lemma fst_calls_take: "fst (calls (take i xs) c) = take i (fst (calls xs c))"
proof -
  have "fst (calls xs c) = fst (calls (take i xs @ drop i xs) c)" by simp
  then show ?thesis
    using length_calls [of "take i xs" c] length_calls [of xs c]
    by (cases "i \<le> length xs") (simp_all add: calls_append del: append_take_drop_id)
qed

text \<open>
  C10. An answer belongs to the command it is given to. In every sequence of calls on a fresh
  correlator, when a received frame is classified as an answer, an earlier call registered a
  command with that frame's id and was given that frame's sequence number, no call in between
  registered another command, took an answer, timed out or reset, and the frame is a response
  that is not flagged as a callback. In particular no command is answered twice.
\<close>

theorem answer_belongs_to_its_command:
  assumes "i < length xs" and "fst (calls xs correlator_new) ! i = Classified (Answer ps)"
  shows "\<exists>f j. xs ! i = Receive f \<and> parameters f = ps \<and> direction (frame_control f) = Response \<and>
    \<not> is_callback (frame_control f) \<and> j < i \<and> xs ! j = Begin (frame_id f) \<and>
    fst (calls xs correlator_new) ! j = Began (Inr (sequence f)) \<and>
    (\<forall>k. j < k \<longrightarrow> k < i \<longrightarrow> \<not> ends_pending (xs ! k) (fst (calls xs correlator_new) ! k))"
proof -
  let ?c = "snd (calls (take i xs) correlator_new)" and ?rs = "fst (calls xs correlator_new)"
  have "fst (call_correlator (xs ! i) ?c) = Classified (Answer ps)"
    using assms calls_nth by metis
  then obtain f where f: "xs ! i = Receive f" and cl: "fst (classify f ?c) = Answer ps"
    by (cases "xs ! i") (auto split: prod.splits)
  have ans: "answers f ?c" and ps: "parameters f = ps"
    by (rule classify_cases [of f ?c]; use cl in \<open>simp add: count_stale_def\<close>)+
  then have "pending ?c = Some \<lparr>pending_sequence = sequence f, pending_frame_id = frame_id f\<rparr>"
    by (simp add: answers_def)
  then obtain j where j: "opened_at (take i xs) (take i ?rs) j
      \<lparr>pending_sequence = sequence f, pending_frame_id = frame_id f\<rparr>"
    using pending_opened fst_calls_take by metis
  with f ps ans assms(1) show ?thesis
    by (intro exI [of _ f] exI [of _ j]) (auto simp: answers_def opened_at_def)
qed

definition sample_answer :: ezsp_frame where
  "sample_answer = \<lparr>sequence = 0, frame_control = from_low_byte 0x80, frame_id = ID_GET_EUI64, parameters = [1]\<rparr>"

lemma answer_belongs_to_its_command_witness:
  "fst (calls [Begin ID_GET_EUI64, Receive sample_answer] correlator_new) ! 1 = Classified (Answer [1]) \<and>
   (\<exists>f. Receive sample_answer = Receive f \<and> frame_id f = ID_GET_EUI64)"
proof -
  let ?xs = "[Begin ID_GET_EUI64, Receive sample_answer]"
  have out: "fst (calls ?xs correlator_new) ! 1 = Classified (Answer [1])"
    by (simp add: begin_command_def classify_def correlator_new_def sample_answer_def from_low_byte_def
        const_defs Let_def)
  from answer_belongs_to_its_command [of 1 ?xs, OF _ out] obtain f j where
    "?xs ! 1 = Receive f" "j < 1" "?xs ! j = Begin (frame_id f)" by auto
  with out show ?thesis by auto
qed

primrec finished_commands :: "frame_id list \<Rightarrow> call list" where
  "finished_commands [] = []"
| "finished_commands (i # is) = Begin i # TimeOut # finished_commands is"

lemma next_seq_finished:
  "pending c = None \<Longrightarrow>
   next_seq (snd (calls (finished_commands is) c)) = next_seq c + word_of_nat (length is) \<and>
   pending (snd (calls (finished_commands is) c)) = None"
  by (induction "is" arbitrary: c)
    (simp_all add: calls_Cons begin_command_def time_out_def Let_def algebra_simps del: calls.simps(2))

text \<open>
  The sequence number of a command is the number of commands registered before it on this
  correlator, modulo 256: after \<open>n\<close> registrations on a fresh correlator, each ended before the
  next, the following one gets \<open>n mod 256\<close> (the byte that wraps), and a second registration while
  that one is outstanding is refused with an error that names it.
\<close>

theorem sequence_counts_commands:
  "fst (calls (finished_commands is @ [Begin i, Begin j]) correlator_new) =
    fst (calls (finished_commands is) correlator_new) @
      [Began (Inr (word_of_nat (length is))), Began (Inl (SequenceMismatch (word_of_nat (length is))))]"
  using next_seq_finished [of correlator_new "is"]
  by (simp add: calls_append calls_Cons begin_command_def Let_def correlator_new_def del: calls.simps(2))

end
