(* ===== verification/Transport.thy ===== *)
theory Transport
  imports Prelude "HOL-Library.Sublist"
begin

text \<open>
  The byte pipe to the NCP (\<open>transport/mod.rs\<close>) and the scripted one for tests
  (\<open>transport/fake.rs\<close>). The trait is a record of two operations on the transport's own state; a
  read may also be pending when the caller's deadline passes. The locale \<open>byte_pipe\<close> is what the
  runtime relies on: what is written is appended, and reading does not write.
\<close>

section \<open>The trait\<close>

datatype transport_error =
    Open string string
  | Io string string
  | TransportClosed

text \<open>The messages of \<open>#[error(..)]\<close>, which the runtime passes on as the reason.\<close>

fun transport_error_text :: "transport_error \<Rightarrow> string" where
  "transport_error_text (Open path reason) = ''cannot open '' @ path @ '': '' @ reason"
| "transport_error_text (Io operation reason) = operation @ '' failed: '' @ reason"
| "transport_error_text TransportClosed = ''the transport closed''"

datatype read_result =
    ReadOk bytes
  | ReadFailed transport_error
  | ReadPending

record 't transport_ops =
  t_write :: "bytes \<Rightarrow> 't \<Rightarrow> (transport_error + unit) \<times> 't"
  t_read :: "'t \<Rightarrow> read_result \<times> 't"

locale byte_pipe =
  fixes ops :: "'t transport_ops" and sent :: "'t \<Rightarrow> bytes"
  assumes write_ok: "t_write ops bs t = (Inr u, t') \<Longrightarrow> sent t' = sent t @ bs"
    and write_failed: "t_write ops bs t = (Inl e, t') \<Longrightarrow> prefix (sent t') (sent t @ bs) \<and> prefix (sent t) (sent t')"
    and read_silent: "t_read ops t = (r, t') \<Longrightarrow> sent t' = sent t"

section \<open>The scripted transport\<close>

record fake_transport =
  to_read :: "bytes list"
  written :: bytes
  fail_next_read :: "transport_error option"
  closed :: bool

definition fake_with_chunks :: "bytes list \<Rightarrow> fake_transport" where
  "fake_with_chunks cs = \<lparr>to_read = cs, written = [], fail_next_read = None, closed = False\<rparr>"

definition push_chunk :: "bytes \<Rightarrow> fake_transport \<Rightarrow> fake_transport" where
  "push_chunk c t = t\<lparr>to_read := to_read t @ [c]\<rparr>"

definition set_fail_next_read :: "transport_error \<Rightarrow> fake_transport \<Rightarrow> fake_transport" where
  "set_fail_next_read e t = t\<lparr>fail_next_read := Some e\<rparr>"

definition close_fake :: "fake_transport \<Rightarrow> fake_transport" where
  "close_fake t = t\<lparr>closed := True\<rparr>"

definition is_drained :: "fake_transport \<Rightarrow> bool" where
  "is_drained t \<longleftrightarrow> to_read t = []"

definition fake_write :: "bytes \<Rightarrow> fake_transport \<Rightarrow> (transport_error + unit) \<times> fake_transport" where
  "fake_write bs t = (Inr (), t\<lparr>written := written t @ bs\<rparr>)"

definition fake_read :: "fake_transport \<Rightarrow> read_result \<times> fake_transport" where
  "fake_read t =
     (case fail_next_read t of
        Some e \<Rightarrow> (ReadFailed e, t\<lparr>fail_next_read := None\<rparr>)
      | None \<Rightarrow>
          (case to_read t of
             c # cs \<Rightarrow> (ReadOk c, t\<lparr>to_read := cs\<rparr>)
           | [] \<Rightarrow> if closed t then (ReadFailed TransportClosed, t) else (ReadPending, t)))"

definition fake_ops :: "fake_transport transport_ops" where
  "fake_ops = \<lparr>t_write = fake_write, t_read = fake_read\<rparr>"

interpretation fake: byte_pipe fake_ops written
  by unfold_locales (auto simp: fake_ops_def fake_write_def fake_read_def split: option.splits list.splits if_splits)

lemma fake_read_order:
  assumes "fail_next_read t = None" "to_read t = c # cs"
  shows "fake_read t = (ReadOk c, t\<lparr>to_read := cs\<rparr>)"
  using assms by (simp add: fake_read_def)

end
