(* ===== verification/Ncp.thy ===== *)
theory Ncp
  imports AshConnection AshDecoder EzspCallback EzspCommand Correlation Transport
begin

text \<open>
  The runtime (\<open>ncp.rs\<close>): one conversation with the NCP over a transport. The methods are
  actions on the record \<open>ncp\<close>, generic in the transport. A deadline is the number of turns of
  the read loop it leaves time for, a parameter of every method that waits: the theorems hold
  for every number. The lines that the runtime logs about frames are part of the state, because
  what they may contain is one of its promises; \<open>heard\<close> is a history of the payloads given to
  \<open>dispatch\<close>, which no code reads.
\<close>

section \<open>State\<close>

definition STACK_TYPE_MESH :: u8 where [const_defs]: "STACK_TYPE_MESH = 0x02"

datatype log_line =
    SentFrame frame_id header_format bytes
  | SentRedacted frame_id header_format nat
  | ReceivedFrame bytes
  | ReceivedRedacted nat

record 't ncp =
  transport :: 't
  ash :: connection
  decoder :: decoder
  correlator :: correlator
  version :: protocol_version
  ncp_stack_version :: u16
  callbacks :: "callback list"
  response :: "bytes option"
  initial_version_sent :: bool
  pending_format :: "header_format option"
  log_lines :: "log_line list"
  heard :: "bytes list"

type_synonym ('t, 'a) ncp_action = "('t ncp, ezsp_error, 'a) action"

definition ncp_start :: "'t \<Rightarrow> 't ncp" where
  "ncp_start t = \<lparr>transport = t, ash = connection_new, decoder = decoder_new,
     correlator = correlator_new, version = PREFERRED, ncp_stack_version = 0, callbacks = [],
     response = None, initial_version_sent = False, pending_format = None, log_lines = [], heard = []\<rparr>"

section \<open>Reading and dispatching\<close>

definition map_transport :: "transport_error \<Rightarrow> ezsp_error" where
  "map_transport e = ezsp_error.Transport (transport_error_text e)"

definition write_frame :: "'t transport_ops \<Rightarrow> ash_frame \<Rightarrow> ('t, unit) ncp_action" where
  "write_frame ops f s =
     (case encode f of
        Inl e \<Rightarrow> (Inl (Ash e), s)
      | Inr bs \<Rightarrow>
          (case t_write ops bs (transport s) of
             (Inl e, t) \<Rightarrow> (Inl (map_transport e), s\<lparr>transport := t\<rparr>)
           | (Inr _, t) \<Rightarrow> (Inr (), s\<lparr>transport := t\<rparr>)))"

definition take_callbacks :: "'t ncp \<Rightarrow> callback list \<times> 't ncp" where
  "take_callbacks s = (callbacks s, s\<lparr>callbacks := []\<rparr>)"

definition take_response :: "'t ncp \<Rightarrow> bytes option \<times> 't ncp" where
  "take_response s = (response s, s\<lparr>response := None\<rparr>)"

definition received_line :: "bytes \<Rightarrow> 't ncp \<Rightarrow> log_line" where
  "received_line p s =
     (case awaited_frame_id (correlator s) of
        Some i \<Rightarrow> if carries_key_material i then ReceivedRedacted (length p) else ReceivedFrame p
      | None \<Rightarrow> ReceivedFrame p)"

definition dispatch :: "bytes \<Rightarrow> 't ncp \<Rightarrow> 't ncp" where
  "dispatch p s =
     (let format = (case pending_format s of Some f \<Rightarrow> f | None \<Rightarrow> Extended);
          s1 = s\<lparr>log_lines := log_lines s @ [received_line p s], heard := heard s @ [p]\<rparr>
      in case parse p format of
           Inl _ \<Rightarrow> s1
         | Inr f \<Rightarrow>
             (case classify f (correlator s1) of
                (Answer ps, k) \<Rightarrow> s1\<lparr>correlator := k, response := Some ps, pending_format := None\<rparr>
              | (CallbackFrame i ps, k) \<Rightarrow>
                  (case callback_decode i ps (version s1) of
                     Inr cb \<Rightarrow> s1\<lparr>correlator := k, callbacks := callbacks s1 @ [cb]\<rparr>
                   | Inl _ \<Rightarrow> s1\<lparr>correlator := k\<rparr>)
              | (Stale _ _, k) \<Rightarrow> s1\<lparr>correlator := k\<rparr>))"

text \<open>The reply the connection asks for, if any.\<close>

definition write_outbound :: "'t transport_ops \<Rightarrow> outbound \<Rightarrow> ('t, unit) ncp_action" where
  "write_outbound ops out = (case out of Send f \<Rightarrow> write_frame ops f | Nothing \<Rightarrow> ret ())"

definition on_decoded :: "'t transport_ops \<Rightarrow> decoded \<Rightarrow> ('t, unit) ncp_action" where
  "on_decoded ops d s =
     (case d of
        Frame f \<Rightarrow>
          (let ((payload, out), c) = on_frame f (ash s)
           in andthen (write_outbound ops out)
                (\<lambda>_ s'. (Inr (), case payload of Some p \<Rightarrow> dispatch p s' | None \<Rightarrow> s'))
                (s\<lparr>ash := c\<rparr>))
      | Rejected e \<Rightarrow>
          (let (out, c) = on_decode_failure e (ash s) in write_outbound ops out (s\<lparr>ash := c\<rparr>)))"

primrec on_decoded_all :: "'t transport_ops \<Rightarrow> decoded list \<Rightarrow> ('t, unit) ncp_action" where
  "on_decoded_all ops [] = ret ()"
| "on_decoded_all ops (d # ds) = andthen (on_decoded ops d) (\<lambda>_. on_decoded_all ops ds)"

definition consume :: "'t transport_ops \<Rightarrow> bytes \<Rightarrow> ('t, unit) ncp_action" where
  "consume ops bs s =
     (let (out, d) = feed bs (decoder s) in on_decoded_all ops out (s\<lparr>decoder := d\<rparr>))"

text \<open>
  \<open>pump_until\<close>: \<open>stop\<close> is the closure, with the variable it captures. The first argument is
  the number of reads the deadline leaves time for.
\<close>

primrec pump_until ::
  "nat \<Rightarrow> 't transport_ops \<Rightarrow> ('t ncp \<Rightarrow> bool \<times> 'x \<times> 't ncp) \<Rightarrow> 't ncp \<Rightarrow> (ezsp_error + unit) \<times> 'x \<times> 't ncp" where
  "pump_until 0 ops stop s = (let (_, x, s1) = stop s in (Inr (), x, s1))"
| "pump_until (Suc n) ops stop s =
     (let (finished, x, s1) = stop s in
      if finished then (Inr (), x, s1)
      else
        (case t_read ops (transport s1) of
           (ReadOk bs, t) \<Rightarrow>
             (case consume ops bs (s1\<lparr>transport := t\<rparr>) of
                (Inl e, s2) \<Rightarrow> (Inl e, x, s2)
              | (Inr _, s2) \<Rightarrow> pump_until n ops stop s2)
         | (ReadFailed e, t) \<Rightarrow> (Inl (map_transport e), x, s1\<lparr>transport := t\<rparr>)
         | (ReadPending, t) \<Rightarrow> (Inr (), x, s1\<lparr>transport := t\<rparr>)))"

section \<open>Commands\<close>

definition choose_format :: "'r command \<Rightarrow> 't ncp \<Rightarrow> header_format" where
  "choose_format c s =
     (if command_id c = ID_VERSION \<and> \<not> initial_version_sent s then Legacy else Extended)"

definition sent_line :: "frame_id \<Rightarrow> header_format \<Rightarrow> bytes \<Rightarrow> log_line" where
  "sent_line i format bs =
     (if carries_key_material i then SentRedacted i format (length bs) else SentFrame i format bs)"

definition request_bytes :: "'r command \<Rightarrow> u8 \<Rightarrow> header_format \<Rightarrow> encode" where
  "request_bytes c sq format = andthen (write_header sq (command_id c) format) (\<lambda>_. params c)"

text \<open>\<open>Ncp::command\<close> up to the write of the ASH frame.\<close>

definition send_command :: "'t transport_ops \<Rightarrow> 'r command \<Rightarrow> ('t, unit) ncp_action" where
  "send_command ops c s =
     (if \<not> available c (version s)
      then (Inl (UnsupportedCommand (command_id c) (version s)), s)
      else
        (let format = choose_format c s in
         case begin_command (command_id c) (correlator s) of
           (Inl e, k) \<Rightarrow> (Inl e, s\<lparr>correlator := k\<rparr>)
         | (Inr sq, k) \<Rightarrow>
             (let s1 = s\<lparr>correlator := k, pending_format := Some format\<rparr> in
              case request_bytes c sq format (writer_new (version s1)) of
                (Inl e, _) \<Rightarrow> (Inl e, s1)
              | (Inr _, w) \<Rightarrow>
                  (let bs = writer_bytes w in
                   if length bs > MAX_FRAME_LENGTH
                   then (Inl (FrameTooLong (length bs) MAX_FRAME_LENGTH), s1)
                   else
                     (let s2 = s1\<lparr>log_lines := log_lines s1 @ [sent_line (command_id c) format bs]\<rparr>;
                          s3 = (if format = Legacy then s2\<lparr>initial_version_sent := True\<rparr> else s2)
                      in case send_data bs (ash s3) of
                           (Inl e, a) \<Rightarrow> (Inl (Ash e), s3\<lparr>ash := a\<rparr>)
                         | (Inr f, a) \<Rightarrow> write_frame ops f (s3\<lparr>ash := a\<rparr>))))))"

text \<open>The closure of \<open>Ncp::command\<close>.\<close>

definition answer_arrived :: "'t ncp \<Rightarrow> bool \<times> bytes option \<times> 't ncp" where
  "answer_arrived s =
     (let (r, s1) = take_response s in (r \<noteq> None \<or> \<not> is_connected (ash s1), r, s1))"

definition decode_answer :: "'r command \<Rightarrow> bytes \<Rightarrow> ('t, 'r) ncp_action" where
  "decode_answer c ps s =
     (case answer c (reader_new ps (version s)) of
        (Inl e, _) \<Rightarrow> (Inl e, s)
      | (Inr x, r) \<Rightarrow>
          if \<not> reader_is_empty r then (Inl (TrailingBytes (command_id c) (remaining r)), s)
          else (Inr x, s))"

definition report_no_answer :: "'r command \<Rightarrow> ezsp_error + unit \<Rightarrow> ('t, 'r) ncp_action" where
  "report_no_answer c waited s =
     (let (lost, s1) =
        (if \<not> is_connected (ash s)
         then (let (r, k) = on_ncp_reset (correlator s) in (r, s\<lparr>correlator := k\<rparr>))
         else (Inr (), s))
      in case lost of
           Inl e \<Rightarrow> (Inl e, s1)
         | Inr _ \<Rightarrow>
             (case waited of
                Inl e \<Rightarrow> (Inl e, s1)
              | Inr _ \<Rightarrow>
                  (case time_out (correlator s1) of
                     (Inl e, k) \<Rightarrow> (Inl e, s1\<lparr>correlator := k\<rparr>)
                   | (Inr _, k) \<Rightarrow> (Inl (Timeout (command_id c)), s1\<lparr>correlator := k\<rparr>))))"

definition await_answer :: "nat \<Rightarrow> 't transport_ops \<Rightarrow> 'r command \<Rightarrow> ('t, 'r) ncp_action" where
  "await_answer n ops c s =
     (let (waited, r, s1) = pump_until n ops answer_arrived s
      in case r of
           Some ps \<Rightarrow> decode_answer c ps s1
         | None \<Rightarrow> report_no_answer c waited s1)"

definition run_command :: "nat \<Rightarrow> 't transport_ops \<Rightarrow> 'r command \<Rightarrow> ('t, 'r) ncp_action" where
  "run_command n ops c = andthen (send_command ops c) (\<lambda>_. await_answer n ops c)"

definition poll :: "nat \<Rightarrow> 't transport_ops \<Rightarrow> ('t, callback list) ncp_action" where
  "poll n ops s =
     (case pump_until n ops (\<lambda>s. (callbacks s \<noteq> [], (), s)) s of
        (Inl e, _, s1) \<Rightarrow> (Inl e, s1)
      | (Inr _, _, s1) \<Rightarrow> (let (cs, s2) = take_callbacks s1 in (Inr cs, s2)))"

section \<open>Reset, negotiation and connection\<close>

text \<open>
  The attempts of \<open>Ncp::reset\<close>; \<open>clock k\<close> is the time for the attempt with \<open>k\<close> more to come.
\<close>

primrec reset_attempts :: "nat \<Rightarrow> (nat \<Rightarrow> nat) \<Rightarrow> 't transport_ops \<Rightarrow> ('t, unit) ncp_action" where
  "reset_attempts 0 clock ops s = (Inl (Ash ResetFailed), s)"
| "reset_attempts (Suc k) clock ops s =
     (let s1 = s\<lparr>decoder := decoder_reset (decoder s)\<rparr>;
          (out, a) = begin_reset (ash s1);
          s2 = s1\<lparr>ash := a\<rparr>
      in case out of
           Nothing \<Rightarrow> (Inl (Ash ResetFailed), s2)
         | Send rst \<Rightarrow>
             (case write_frame ops rst s2 of
                (Inl e, s3) \<Rightarrow> (Inl e, s3)
              | (Inr _, s3) \<Rightarrow>
                  (let (waited, _, s4) = pump_until (clock k) ops (\<lambda>s. (is_connected (ash s), (), s)) s3
                   in if waited = Inr () \<and> is_connected (ash s4)
                      then (Inr (), s4\<lparr>correlator := correlator_new, initial_version_sent := False\<rparr>)
                      else reset_attempts k clock ops s4)))"

definition reset :: "(nat \<Rightarrow> nat) \<Rightarrow> 't transport_ops \<Rightarrow> ('t, unit) ncp_action" where
  "reset clock ops = reset_attempts (unat MAX_RESET_ATTEMPTS) clock ops"

definition negotiate :: "nat \<Rightarrow> nat \<Rightarrow> 't transport_ops \<Rightarrow> ('t, version_response) ncp_action" where
  "negotiate n1 n2 ops =
     andthen (run_command n1 ops (version_command (Version PREFERRED))) (\<lambda>first.
       if stack_type first \<noteq> STACK_TYPE_MESH then throw (UnsupportedVersion (protocol_version first))
       else if \<not> is_supported (protocol_version first)
       then throw (UnsupportedVersion (protocol_version first))
       else if protocol_version first = PREFERRED then ret first
       else
         (let agreed = protocol_version first in
          andthen (run_command n2 ops (version_command (Version agreed))) (\<lambda>second.
            if protocol_version second \<noteq> agreed then throw (UnsupportedVersion (protocol_version second))
            else ret second)))"

definition connect :: "(nat \<Rightarrow> nat) \<Rightarrow> nat \<Rightarrow> nat \<Rightarrow> 't transport_ops \<Rightarrow> 't \<Rightarrow> ezsp_error + 't ncp" where
  "connect clock n1 n2 ops t =
     (case andthen (reset clock ops) (\<lambda>_. negotiate n1 n2 ops) (ncp_start t) of
        (Inl e, _) \<Rightarrow> Inl e
      | (Inr v, s) \<Rightarrow> Inr (s\<lparr>version := protocol_version v, ncp_stack_version := stack_version v\<rparr>))"

end
