(* ===== verification/EzspMessaging.thy ===== *)
theory EzspMessaging
  imports EzspCommand
begin

text \<open>
  The commands that send application messages (\<open>ezsp/command.rs\<close>): \<open>sendUnicast\<close>,
  \<open>sendBroadcast\<close> and \<open>sendMulticast\<close>. The message tag is one byte below EZSP 14 and two from
  there on; the lemmas give the exact bytes of each request under both.
\<close>

section \<open>The message tag\<close>

text \<open>The same conditional of the three encoders: \<open>u16\<close>, or the low byte alone.\<close>

definition message_tag_encode :: "u16 \<Rightarrow> encode" where
  "message_tag_encode t = with_writer_version (\<lambda>v.
     if has_wide_message_tag v then writer_u16 t else writer_u8 (ucast (t AND 0xff)))"

definition message_tag_wire :: "protocol_version \<Rightarrow> u16 \<Rightarrow> bytes" where
  "message_tag_wire v t = (if has_wide_message_tag v then le_bytes 2 t else [ucast t])"

lemma ucast_low_byte: "ucast (t AND 0xff :: u16) = (ucast t :: u8)"
proof (rule bit_word_eqI)
  fix n assume n: "n < LENGTH(8)"
  have "bit (0xff :: u16) n" if "n < 8"
    using less_8_cases [OF that] by auto
  with n show "bit (ucast (t AND 0xff) :: u8) n = bit (ucast t :: u8) n"
    by (auto simp: bit_simps simp del: bit_numeral_word_iff)
qed

lemma writes_message_tag [intro]: "writes (message_tag_encode t) v (message_tag_wire v t)"
  unfolding message_tag_encode_def message_tag_wire_def
  by (rule appends_with_version) (auto simp: ucast_low_byte)

text \<open>The payload and its length byte end each request.\<close>

lemma exists_append_payload:
  assumes "writes m v a"
  shows "\<exists>res bs. appends (andthen m (\<lambda>_. writer_length_prefixed p)) v res bs"
  using assms writes_length_prefixed [of p v] appends_length_prefixed_error [of p v]
  by (intro appends_exists_andthen) (blast, cases "length p \<le> 255", auto)

section \<open>sendUnicast\<close>

record send_unicast =
  su_unicast_type :: unicast_type
  index_or_destination :: u16
  su_aps_frame :: aps_frame
  su_message_tag :: u16
  su_message :: bytes

record send_unicast_response =
  su_status :: sl_status
  su_aps_sequence :: u8

definition send_unicast_encode :: "send_unicast \<Rightarrow> encode" where
  "send_unicast_encode c =
     andthen (unicast_type_encode (su_unicast_type c)) (\<lambda>_.
     andthen (writer_u16 (index_or_destination c)) (\<lambda>_.
     andthen (aps_frame_encode (su_aps_frame c)) (\<lambda>_.
     andthen (message_tag_encode (su_message_tag c)) (\<lambda>_.
     writer_length_prefixed (su_message c)))))"

definition send_unicast_response_decode :: "send_unicast_response decode" where
  "send_unicast_response_decode =
     andthen sl_status_decode (\<lambda>s. andthen reader_u8 (\<lambda>q.
     ret \<lparr>su_status = s, su_aps_sequence = q\<rparr>))"

definition send_unicast_header :: "protocol_version \<Rightarrow> send_unicast \<Rightarrow> bytes" where
  "send_unicast_header v c = [unicast_type_raw (su_unicast_type c)] @ le_bytes 2 (index_or_destination c) @ aps_frame_wire (su_aps_frame c) @ 
     message_tag_wire v (su_message_tag c)"

lemma send_unicast_header_appends:
  assumes "appends (writer_length_prefixed (su_message c)) v res bs"
  shows "appends (send_unicast_encode c) v res (send_unicast_header v c @ bs)"
  unfolding send_unicast_encode_def send_unicast_header_def append_assoc
  by (intro appends_andthen)
    (rule writes_unicast_type writes_u16 writes_u8 writes_aps_frame writes_message_tag assms)+

lemma writes_send_unicast:
  "length (su_message c) \<le> 255 \<Longrightarrow>
   writes (send_unicast_encode c) v (send_unicast_header v c @ word_of_nat (length (su_message c)) # su_message c)"
  by (rule send_unicast_header_appends) (rule writes_length_prefixed)

lemma send_unicast_too_long:
  "length (su_message c) > 255 \<Longrightarrow>
   appends (send_unicast_encode c) v (Inl (PayloadTooLong (length (su_message c)) 255)) (send_unicast_header v c @ [])"
  by (rule send_unicast_header_appends) (rule appends_length_prefixed_error)

definition send_unicast_command :: "send_unicast \<Rightarrow> send_unicast_response command" where
  "send_unicast_command c = \<lparr>command_id = ID_SEND_UNICAST, available = default_available,
     params = send_unicast_encode c, answer = send_unicast_response_decode\<rparr>"

interpretation send_unicast_cmd: ezsp_command send_unicast_command
proof (rule ezsp_commandI)
  fix x :: send_unicast and v
  show "\<exists>res bs. appends (params (send_unicast_command x)) v res bs"
    using writes_send_unicast [of x v] send_unicast_too_long [of x v]
    unfolding send_unicast_command_def command.simps not_less [symmetric] by blast
qed (auto simp: send_unicast_command_def send_unicast_response_decode_def)

interpretation send_unicast_answer: ezsp_fixed_decode send_unicast_response_decode "\<lambda>v. status_width v + 1"
  unfolding send_unicast_response_decode_def by (rule ezsp_fixed_decodeI [OF _ reads_status_u8]) auto

section \<open>sendBroadcast\<close>

record send_broadcast =
  sb_destination :: node_id
  sb_aps_frame :: aps_frame
  radius :: u8
  sb_message_tag :: u16
  sb_message :: bytes

record send_broadcast_response =
  sb_status :: sl_status
  sb_aps_sequence :: u8

definition send_broadcast_encode :: "send_broadcast \<Rightarrow> encode" where
  "send_broadcast_encode c =
     andthen (writer_u16 (node_raw (sb_destination c))) (\<lambda>_.
     andthen (aps_frame_encode (sb_aps_frame c)) (\<lambda>_.
     andthen (writer_u8 (radius c)) (\<lambda>_.
     andthen (message_tag_encode (sb_message_tag c)) (\<lambda>_.
     writer_length_prefixed (sb_message c)))))"

definition send_broadcast_response_decode :: "send_broadcast_response decode" where
  "send_broadcast_response_decode =
     andthen sl_status_decode (\<lambda>s. andthen reader_u8 (\<lambda>q.
     ret \<lparr>sb_status = s, sb_aps_sequence = q\<rparr>))"

definition send_broadcast_header :: "protocol_version \<Rightarrow> send_broadcast \<Rightarrow> bytes" where
  "send_broadcast_header v c = le_bytes 2 (node_raw (sb_destination c)) @ aps_frame_wire (sb_aps_frame c) @ [radius c] @ 
     message_tag_wire v (sb_message_tag c)"

lemma send_broadcast_header_appends:
  assumes "appends (writer_length_prefixed (sb_message c)) v res bs"
  shows "appends (send_broadcast_encode c) v res (send_broadcast_header v c @ bs)"
  unfolding send_broadcast_encode_def send_broadcast_header_def append_assoc
  by (intro appends_andthen)
    (rule writes_unicast_type writes_u16 writes_u8 writes_aps_frame writes_message_tag assms)+

lemma writes_send_broadcast:
  "length (sb_message c) \<le> 255 \<Longrightarrow>
   writes (send_broadcast_encode c) v (send_broadcast_header v c @ word_of_nat (length (sb_message c)) # sb_message c)"
  by (rule send_broadcast_header_appends) (rule writes_length_prefixed)

lemma send_broadcast_too_long:
  "length (sb_message c) > 255 \<Longrightarrow>
   appends (send_broadcast_encode c) v (Inl (PayloadTooLong (length (sb_message c)) 255)) (send_broadcast_header v c @ [])"
  by (rule send_broadcast_header_appends) (rule appends_length_prefixed_error)

definition send_broadcast_command :: "send_broadcast \<Rightarrow> send_broadcast_response command" where
  "send_broadcast_command c = \<lparr>command_id = ID_SEND_BROADCAST, available = default_available,
     params = send_broadcast_encode c, answer = send_broadcast_response_decode\<rparr>"

interpretation send_broadcast_cmd: ezsp_command send_broadcast_command
proof (rule ezsp_commandI)
  fix x :: send_broadcast and v
  show "\<exists>res bs. appends (params (send_broadcast_command x)) v res bs"
    using writes_send_broadcast [of x v] send_broadcast_too_long [of x v]
    unfolding send_broadcast_command_def command.simps not_less [symmetric] by blast
qed (auto simp: send_broadcast_command_def send_broadcast_response_decode_def)

interpretation send_broadcast_answer: ezsp_fixed_decode send_broadcast_response_decode "\<lambda>v. status_width v + 1"
  unfolding send_broadcast_response_decode_def by (rule ezsp_fixed_decodeI [OF _ reads_status_u8]) auto

section \<open>sendMulticast\<close>

record send_multicast =
  sm_aps_frame :: aps_frame
  hops :: u8
  nonmember_radius :: u8
  sm_message_tag :: u16
  sm_message :: bytes

record send_multicast_response =
  sm_status :: sl_status
  sm_aps_sequence :: u8

definition send_multicast_encode :: "send_multicast \<Rightarrow> encode" where
  "send_multicast_encode c =
     andthen (aps_frame_encode (sm_aps_frame c)) (\<lambda>_.
     andthen (writer_u8 (hops c)) (\<lambda>_.
     andthen (writer_u8 (nonmember_radius c)) (\<lambda>_.
     andthen (message_tag_encode (sm_message_tag c)) (\<lambda>_.
     writer_length_prefixed (sm_message c)))))"

definition send_multicast_response_decode :: "send_multicast_response decode" where
  "send_multicast_response_decode =
     andthen sl_status_decode (\<lambda>s. andthen reader_u8 (\<lambda>q.
     ret \<lparr>sm_status = s, sm_aps_sequence = q\<rparr>))"

definition send_multicast_header :: "protocol_version \<Rightarrow> send_multicast \<Rightarrow> bytes" where
  "send_multicast_header v c = aps_frame_wire (sm_aps_frame c) @ [hops c] @ [nonmember_radius c] @ 
     message_tag_wire v (sm_message_tag c)"

lemma send_multicast_header_appends:
  assumes "appends (writer_length_prefixed (sm_message c)) v res bs"
  shows "appends (send_multicast_encode c) v res (send_multicast_header v c @ bs)"
  unfolding send_multicast_encode_def send_multicast_header_def append_assoc
  by (intro appends_andthen)
    (rule writes_unicast_type writes_u16 writes_u8 writes_aps_frame writes_message_tag assms)+

lemma writes_send_multicast:
  "length (sm_message c) \<le> 255 \<Longrightarrow>
   writes (send_multicast_encode c) v (send_multicast_header v c @ word_of_nat (length (sm_message c)) # sm_message c)"
  by (rule send_multicast_header_appends) (rule writes_length_prefixed)

lemma send_multicast_too_long:
  "length (sm_message c) > 255 \<Longrightarrow>
   appends (send_multicast_encode c) v (Inl (PayloadTooLong (length (sm_message c)) 255)) (send_multicast_header v c @ [])"
  by (rule send_multicast_header_appends) (rule appends_length_prefixed_error)

definition send_multicast_command :: "send_multicast \<Rightarrow> send_multicast_response command" where
  "send_multicast_command c = \<lparr>command_id = ID_SEND_MULTICAST, available = default_available,
     params = send_multicast_encode c, answer = send_multicast_response_decode\<rparr>"

interpretation send_multicast_cmd: ezsp_command send_multicast_command
proof (rule ezsp_commandI)
  fix x :: send_multicast and v
  show "\<exists>res bs. appends (params (send_multicast_command x)) v res bs"
    using writes_send_multicast [of x v] send_multicast_too_long [of x v]
    unfolding send_multicast_command_def command.simps not_less [symmetric] by blast
qed (auto simp: send_multicast_command_def send_multicast_response_decode_def)

interpretation send_multicast_answer: ezsp_fixed_decode send_multicast_response_decode "\<lambda>v. status_width v + 1"
  unfolding send_multicast_response_decode_def by (rule ezsp_fixed_decodeI [OF _ reads_status_u8]) auto

end
