(* ===== verification/EzspLayout.thy ===== *)
theory EzspLayout
  imports Ncp EzspMessaging
begin

text \<open>
  The bytes of EZSP frames, across the modules that make them (\<open>ezsp/frame.rs\<close>,
  \<open>ezsp/command.rs\<close>, \<open>ezsp/codec.rs\<close>, \<open>types/\<close>): whole requests for every protocol version, headers
  and received frames, which answers a version accepts, and values inside frames.
\<close>


section \<open>Requests on the wire\<close>

lemma appends_new:
  "appends e v res bs \<Longrightarrow> e (writer_new v) = (res, \<lparr>writer_bytes = bs, writer_version = v\<rparr>)"
  by (simp add: appends_def writer_new_def)

text \<open>A request with the extended header: the header, then what the encoder appends.\<close>

lemma request_bytes_extended:
  assumes "appends (params c) v res bs"
  shows "request_bytes c sq Extended (writer_new v) =
    (res, \<lparr>writer_bytes = [sq, 0, 1] @ le_bytes 2 (id_raw (command_id c)) @ bs, writer_version = v\<rparr>)"
proof -
  have "appends (request_bytes c sq Extended) v res (header_wire sq (command_id c) Extended @ bs)"
    unfolding request_bytes_def by (rule appends_andthen [OF writes_header assms]) simp
  from appends_new [OF this] show ?thesis by (simp add: header_wire_def)
qed

text \<open>
  The bytes of a \<open>sendUnicast\<close> request, and its only error. For every message, sequence number
  and version: the extended header with frame id 0x0034, the type, the destination, the eleven
  bytes of the APS frame, the message tag, in one byte below EZSP 14 and in two from there on,
  and the message after its length byte; a message of more than 255 bytes is refused with the
  error that names its length.
\<close>

theorem send_unicast_request:
  "request_bytes (send_unicast_command c) sq Extended (writer_new v) =
    (let front = [sq, 0, 1, 0x34, 0, unicast_type_raw (su_unicast_type c)] @ le_bytes 2 (index_or_destination c) @
       aps_frame_wire (su_aps_frame c) @
       (if raw v < 14 then [ucast (su_message_tag c)] else le_bytes 2 (su_message_tag c))
     in if length (su_message c) \<le> 255
       then (Inr (), \<lparr>writer_bytes = front @ word_of_nat (length (su_message c)) # su_message c, writer_version = v\<rparr>)
       else (Inl (PayloadTooLong (length (su_message c)) 255), \<lparr>writer_bytes = front, writer_version = v\<rparr>))"
proof -
  have id: "le_bytes 2 (id_raw (command_id (send_unicast_command c))) = [0x34, 0]"
    by (simp add: send_unicast_command_def const_defs le_bytes_2)
  have tag: "message_tag_wire v t = (if raw v < 14 then [ucast t] else le_bytes 2 t)" for t
    by (auto simp: message_tag_wire_def has_wide_message_tag_def const_defs not_le dest: leD)
  show ?thesis
  proof (cases "length (su_message c) \<le> 255")
    case True
    then have "appends (params (send_unicast_command c)) v (Inr ())
        (send_unicast_header v c @ word_of_nat (length (su_message c)) # su_message c)"
      using writes_send_unicast by (simp add: send_unicast_command_def)
    from request_bytes_extended [OF this, of sq] True show ?thesis
      by (simp add: id tag send_unicast_header_def Let_def)
  next
    case False
    then have "appends (params (send_unicast_command c)) v (Inl (PayloadTooLong (length (su_message c)) 255))
        (send_unicast_header v c @ [])"
      using send_unicast_too_long [of c v] by (simp add: send_unicast_command_def)
    from request_bytes_extended [OF this, of sq] False show ?thesis
      by (simp add: id tag send_unicast_header_def Let_def)
  qed
qed

text \<open>
  The layout of \<open>importTransientKey\<close> follows the version: the address, the key, and below
  EZSP 14 one more byte with the flags; from EZSP 14 on the flags are not on the wire at all.
\<close>

theorem import_transient_key_request:
  "request_bytes (import_transient_key_command c) sq Extended (writer_new v) =
    (Inr (), \<lparr>writer_bytes = [sq, 0, 1, 0x11, 0x01] @ to_wire (itk_eui64 c) @ expose (itk_key c) @
       (if raw v < 14 then [man_flags_raw (itk_flags c)] else []), writer_version = v\<rparr>)"
proof -
  have id: "le_bytes 2 (id_raw (command_id (import_transient_key_command c))) = [0x11, 0x01]"
    by (simp add: import_transient_key_command_def const_defs le_bytes_2)
  have "writes (params (import_transient_key_command c)) v (to_wire (itk_eui64 c) @ expose (itk_key c) @
     (if has_transient_key_flags v then [man_flags_raw (itk_flags c)] else []))"
    unfolding import_transient_key_command_def command.simps by (rule writes_import_transient_key)
  from request_bytes_extended [OF this, of sq] show ?thesis
    by (simp add: id has_transient_key_flags_def const_defs)
qed

text \<open>
  \<open>addEndpoint\<close> counts its clusters in bytes: with at most 255 clusters each way the request is
  the four fixed fields, the two counts, and the clusters in little-endian order; more input
  clusters than a byte can count are refused first, then more output clusters, and the error
  names the length.
\<close>

theorem add_endpoint_request:
  "request_bytes (add_endpoint_command c) sq Extended (writer_new v) =
    (let front = [sq, 0, 1, 0x02, 0, endpoint c] @ le_bytes 2 (ep_profile_id c) @ le_bytes 2 (device_id c) @ [app_flags c];
         inputs = length (input_clusters c); outputs = length (output_clusters c)
     in if inputs > 255 then (Inl (PayloadTooLong inputs 255), \<lparr>writer_bytes = front, writer_version = v\<rparr>)
       else if outputs > 255 then (Inl (PayloadTooLong outputs 255), \<lparr>writer_bytes = front, writer_version = v\<rparr>)
       else (Inr (), \<lparr>writer_bytes = front @ [word_of_nat inputs, word_of_nat outputs] @
         concat (map (le_bytes 2) (input_clusters c)) @ concat (map (le_bytes 2) (output_clusters c)), writer_version = v\<rparr>))"
proof -
  let ?front = "[endpoint c] @ le_bytes 2 (ep_profile_id c) @ le_bytes 2 (device_id c) @ [app_flags c]"
  have id: "le_bytes 2 (id_raw (command_id (add_endpoint_command c))) = [0x02, 0]"
    by (simp add: add_endpoint_command_def const_defs le_bytes_2)
  have refused: "appends (add_endpoint_encode c) v (Inl e) (?front @ [])"
    if "andthen (count_u8 (input_clusters c)) (\<lambda>inputs. andthen (count_u8 (output_clusters c)) (\<lambda>outputs.
       andthen (writer_u8 inputs) (\<lambda>_. andthen (writer_u8 outputs) (\<lambda>_.
       andthen (put_clusters (input_clusters c)) (\<lambda>_. put_clusters (output_clusters c)))))) = throw e" for e
    unfolding add_endpoint_encode_def that append_assoc
    by (intro appends_andthen) (rule writes_u8 writes_u16 appends_throw)+
  consider "length (input_clusters c) > 255" | "length (input_clusters c) \<le> 255" "length (output_clusters c) > 255"
    | "length (input_clusters c) \<le> 255" "length (output_clusters c) \<le> 255" by linarith
  then show ?thesis
  proof cases
    case 1
    then have "appends (params (add_endpoint_command c)) v (Inl (PayloadTooLong (length (input_clusters c)) 255)) (?front @ [])"
      unfolding add_endpoint_command_def command.simps by (intro refused) (simp only: count_u8_error)
    from request_bytes_extended [OF this, of sq] 1 show ?thesis by (simp add: id Let_def)
  next
    case 2
    then have "appends (params (add_endpoint_command c)) v (Inl (PayloadTooLong (length (output_clusters c)) 255)) (?front @ [])"
      unfolding add_endpoint_command_def command.simps by (intro refused) (simp only: count_u8_ok count_u8_error)
    from request_bytes_extended [OF this, of sq] 2 show ?thesis by (simp add: id Let_def)
  next
    case 3
    from writes_add_endpoint [OF this, of v] have "writes (params (add_endpoint_command c)) v
        (?front @ [word_of_nat (length (input_clusters c)), word_of_nat (length (output_clusters c))] @
         concat (map (le_bytes 2) (input_clusters c)) @ concat (map (le_bytes 2) (output_clusters c)))"
      by (simp add: add_endpoint_command_def)
    from request_bytes_extended [OF this, of sq] 3 show ?thesis by (simp add: id Let_def)
  qed
qed

section \<open>Headers and frames\<close>

text \<open>
  C31. A header that was written is read back: a frame id the format can carry, with any sequence
  number and any parameters that fit the frame, comes out of the parser of the same format with
  the same sequence number, id and parameters, as a command frame with no flag set.
\<close>

theorem header_round_trip:
  assumes "format = Legacy \<longrightarrow> fits_legacy i" and "byte_len format + length ps \<le> MAX_FRAME_LENGTH"
  shows "\<exists>w. write_header sq i format (writer_new v) = (Inr (), w) \<and>
    parse (writer_bytes w @ ps) format =
      Inr \<lparr>sequence = sq, frame_control = control_command, frame_id = i, parameters = ps\<rparr>"
proof -
  have "write_header sq i format (writer_new v) =
      (Inr (), \<lparr>writer_bytes = header_wire sq i format, writer_version = v\<rparr>)"
    by (rule writes_new [OF writes_header [OF assms(1)]])
  moreover have "from_low_byte 0 = control_command"
    by (simp add: from_low_byte_def control_command_def const_defs)
  ultimately show ?thesis
    using parse_header_wire [OF assms(1), of ps sq] assms(2) by (auto simp: const_defs)
qed

lemma header_round_trip_witness:
  "\<exists>w. write_header 7 ID_VERSION Legacy (writer_new PREFERRED) = (Inr (), w) \<and>
    parse (writer_bytes w @ [0x13]) Legacy =
      Inr \<lparr>sequence = 7, frame_control = control_command, frame_id = ID_VERSION, parameters = [0x13]\<rparr>"
  by (rule header_round_trip) (simp_all add: fits_legacy_def const_defs)

text \<open>
  The parser of received frames is total: on any bytes and either format the result is the
  frame with the fields at their fixed positions, the flags of its control byte and the rest as
  parameters, unless the bytes are more than a frame can have or fewer than its header. No byte
  string makes it report a malformed header, although its documentation names that error.
\<close>

theorem parse_is_total:
  "parse bs format =
    (if length bs > 218 then Inl (FrameTooLong (length bs) 218)
     else if length bs < byte_len format then Inl (TruncatedFrame (byte_len format) (length bs))
     else Inr \<lparr>sequence = bs ! 0,
       frame_control = \<lparr>direction = (if bit (bs ! 1) 7 then Response else Command), is_callback = bit (bs ! 1) 4,
         callback_pending = bit (bs ! 1) 2, overflow = bit (bs ! 1) 0, truncated = bit (bs ! 1) 1, raw_low = bs ! 1\<rparr>,
       frame_id = FrameId (case format of Legacy \<Rightarrow> ucast (bs ! 2) | Extended \<Rightarrow> le_word [bs ! 3, bs ! 4]),
       parameters = drop (byte_len format) bs\<rparr>)"
proof -
  have "from_low_byte low = \<lparr>direction = (if bit low 7 then Response else Command), is_callback = bit low 4,
      callback_pending = bit low 2, overflow = bit low 0, truncated = bit low 1, raw_low = low\<rparr>" for low
    by (simp add: from_low_byte_def const_defs u8_bit_tests)
  then show ?thesis by (cases format) (simp_all add: parse_eq header_id_def del: le_word.simps)
qed

section \<open>Answers and the protocol version\<close>

text \<open>
  What each of the twenty-one commands accepts as the whole of its answer's parameters: the
  answers that begin with a status and continue with a fixed number of bytes, and those without
  a status of the version's width. The remaining one is \<open>getValue\<close>, a status and a
  length-prefixed value.
\<close>

definition status_answers :: "(protocol_version \<Rightarrow> bytes \<Rightarrow> bool) list" where
  "status_answers =
     [accepted network_init_response_decode, accepted permit_joining_response_decode,
      accepted set_configuration_value_response_decode, accepted set_policy_response_decode,
      accepted add_endpoint_response_decode, accepted send_unicast_response_decode,
      accepted get_configuration_value_response_decode, accepted get_network_parameters_response_decode,
      accepted set_initial_security_state_response_decode, accepted form_network_response_decode,
      accepted send_broadcast_response_decode, accepted send_multicast_response_decode]"

definition plain_answers :: "(protocol_version \<Rightarrow> bytes \<Rightarrow> bool) list" where
  "plain_answers =
     [accepted version_response_decode, accepted get_eui64_response_decode,
      accepted import_transient_key_response_decode, accepted set_manufacturer_code_response_decode,
      accepted clear_transient_link_keys_response_decode, accepted export_key_response_decode,
      accepted network_state_response_decode, accepted get_network_key_info_response_decode]"

lemmas status_widths = network_init_answer.accepted_iff_width permit_joining_answer.accepted_iff_width
  set_configuration_value_answer.accepted_iff_width set_policy_answer.accepted_iff_width
  add_endpoint_answer.accepted_iff_width send_unicast_answer.accepted_iff_width
  get_configuration_value_answer.accepted_iff_width get_network_parameters_answer.accepted_iff_width
  set_initial_security_state_answer.accepted_iff_width form_network_answer.accepted_iff_width
  send_broadcast_answer.accepted_iff_width send_multicast_answer.accepted_iff_width

lemmas plain_widths = version_answer.accepted_iff_width get_eui64_answer.accepted_iff_width
  import_transient_key_answer.accepted_iff_width set_manufacturer_code_answer.accepted_iff_width
  clear_transient_link_keys_answer.accepted_iff_width export_key_answer.accepted_iff_width
  network_state_answer.accepted_iff_width get_network_key_info_answer.accepted_iff_width

lemma status_width_differs: "has_wide_status v \<noteq> has_wide_status w \<Longrightarrow> status_width v \<noteq> status_width w"
  by (auto simp: status_width_def)

text \<open>The answer to \<open>getValue\<close> may fit both widths: here a value of three bytes, and an empty one.\<close>

lemma get_value_fits_both: "accepted get_value_response_decode v [0, 3, 0, 0, 0]"
proof (cases "has_wide_status v")
  case True
  have b: "le_bytes 4 (0x300 :: u32) = [0, 3, 0, 0]" by code_simp
  have "parses get_value_response_decode v (le_bytes 4 (0x300 :: u32) @ (word_of_nat (length ([] :: bytes)) # []) @ [])
      \<lparr>gv_status = SlStatus 0x300, gv_value = []\<rparr>"
    unfolding get_value_response_decode_def
    using True by (intro parses_andthen) (rule parses_sl_status_wide parses_length_prefixed parses_ret | simp)+
  then show ?thesis
    using wf_reader_new [of "[0, 3, 0, 0, 0]" v]
    by (auto simp: b parses_def accepted_iff reader_is_empty_def remaining_peek)
next
  case False
  have "parses get_value_response_decode v ([0] @ (word_of_nat (length ([0, 0, 0] :: bytes)) # [0, 0, 0]) @ [])
      \<lparr>gv_status = SlStatus (ucast (0 :: u8)), gv_value = [0, 0, 0]\<rparr>"
    unfolding get_value_response_decode_def
    using False by (intro parses_andthen) (rule parses_sl_status_narrow parses_length_prefixed parses_ret | simp)+
  then show ?thesis
    using wf_reader_new [of "[0, 3, 0, 0, 0]" v]
    by (auto simp: parses_def accepted_iff reader_is_empty_def remaining_peek)
qed

text \<open>
  C32. Which answers betray a wrong idea of the version. For two versions on different sides of
  EZSP 14, where the width of a status changes: parameters that one of the twelve commands whose
  answer is a status and fields of a fixed width accepts under the one, with nothing left over,
  are refused under the other; the eight commands whose answer has no status of the version's
  width accept the same parameters under both; and \<open>getValue\<close>, whose answer is a status and a
  value of any length, is the exception: there are parameters it accepts under both.
\<close>

theorem misversioned_answer_refused:
  assumes "has_wide_status v \<noteq> has_wide_status w" and "length bs < 2 ^ 63"
  shows "(\<forall>a \<in> set status_answers. \<not> (a v bs \<and> a w bs)) \<and>
    (\<forall>a \<in> set plain_answers. a v bs \<longleftrightarrow> a w bs) \<and>
    (\<exists>cs. accepted get_value_response_decode v cs \<and> accepted get_value_response_decode w cs)"
proof -
  have "\<forall>a \<in> set status_answers. \<not> (a v bs \<and> a w bs)"
    using status_width_differs [OF assms(1)] by (auto simp: status_answers_def status_widths [OF assms(2)])
  moreover have "\<forall>a \<in> set plain_answers. a v bs \<longleftrightarrow> a w bs"
    by (simp add: plain_answers_def plain_widths [OF assms(2)])
  ultimately show ?thesis using get_value_fits_both by blast
qed

lemma misversioned_answer_refused_witness:
  "accepted permit_joining_response_decode (ProtocolVersion 13) [0] \<and>
   \<not> accepted permit_joining_response_decode (ProtocolVersion 14) [0]"
proof -
  have v: "has_wide_status (ProtocolVersion 13) \<noteq> has_wide_status (ProtocolVersion 14)"
    by (simp add: has_wide_status_def const_defs)
  have "accepted permit_joining_response_decode (ProtocolVersion 13) [0]"
    by (simp add: permit_joining_answer.accepted_iff_width status_width_def has_wide_status_def const_defs)
  with misversioned_answer_refused [OF v, of "[0]"] show ?thesis by (simp add: status_answers_def)
qed

section \<open>Values inside frames\<close>

text \<open>
  A length byte that promises more than the frame holds is refused: whatever the length byte
  and whatever follows it, the reader returns exactly the bytes the length byte names, or the
  error with what was needed and what was left.
\<close>

theorem length_byte_never_overreads:
  assumes "length bs < 2 ^ 62"
  shows "fst (reader_length_prefixed (reader_new (len # bs) v)) =
    (if unat len \<le> length bs then Inr (take (unat len) bs) else Inl (TruncatedFrame (unat len) (length bs)))"
  using assms by (simp add: length_prefixed_eq)

lemma length_byte_never_overreads_witness:
  "fst (reader_length_prefixed (reader_new [200, 1, 2] PREFERRED)) = Inl (TruncatedFrame 200 2)"
  using length_byte_never_overreads [of "[1, 2]" 200 PREFERRED] by simp

text \<open>
  Network parameters survive the wire and are never cut short: what \<open>formNetwork\<close> encodes,
  the decoder of \<open>getNetworkParameters\<close> reads back in front of anything, moving over exactly its
  bytes, and every proper prefix of it is refused.
\<close>

theorem network_parameters_on_the_wire:
  assumes "length (extended_pan_id p) = 8" "length rest < 2 ^ 62"
  shows "\<exists>bs. network_parameters_encode p (writer_new v) = (Inr (), \<lparr>writer_bytes = bs, writer_version = v\<rparr>) \<and>
    length bs = 20 \<and>
    network_parameters_decode (reader_new (bs @ rest) v) = (Inr p, advance 20 (reader_new (bs @ rest) v)) \<and>
    (\<forall>q. strict_prefix q bs \<longrightarrow> (\<exists>e. fst (network_parameters_decode (reader_new q v)) = Inl e))"
proof -
  have "length (network_parameters_wire p) = 20" using assms(1) by (simp add: length_network_parameters_wire)
  with network_parameters_codec.round_trip [of p rest v] network_parameters_codec.truncated_refused [of p _ v] assms
  show ?thesis by auto
qed

definition sample_parameters :: network_parameters where
  "sample_parameters = \<lparr>extended_pan_id = [1, 2, 3, 4, 5, 6, 7, 8], pan_id = 0x1a62, radio_tx_power = 8,
     radio_channel = 15, join_method = 0, nwk_manager_id = 0, nwk_update_id = 0, channels = 0x07fff800\<rparr>"

lemma network_parameters_on_the_wire_witness:
  "\<exists>bs. network_parameters_encode sample_parameters (writer_new PREFERRED) =
      (Inr (), \<lparr>writer_bytes = bs, writer_version = PREFERRED\<rparr>) \<and>
    network_parameters_decode (reader_new (bs @ [0, 0]) PREFERRED) =
      (Inr sample_parameters, advance 20 (reader_new (bs @ [0, 0]) PREFERRED))"
  using network_parameters_on_the_wire [of sample_parameters "[0, 0]" PREFERRED]
  by (auto simp: sample_parameters_def)

end
