(* ===== verification/NcpRun.thy ===== *)
theory NcpRun
  imports Ncp
begin

text \<open>
  What one call of the runtime does (\<open>ncp.rs\<close>): everything the read loop changes, besides the
  transport, the ASH connection and the decoder, it changes by dispatching payloads in order.
  The lemmas follow the correlator, the parked response, the log and the written bytes through
  \<open>dispatch\<close>, \<open>consume\<close>, \<open>pump_until\<close> and \<open>command\<close>; the properties say which payload a
  command's result comes from, what a failed command leaves behind, and what is logged and
  written.
\<close>

section \<open>The read loop as a sequence of dispatches\<close>

definition dispatched :: "bytes list \<Rightarrow> 't ncp \<Rightarrow> 't ncp \<Rightarrow> bool" where
  "dispatched ps s s' \<longleftrightarrow>
     (\<exists>t a d. s' = (fold dispatch ps s)\<lparr>transport := t, ash := a, decoder := d\<rparr>)"

lemma received_line_link [simp]:
  "received_line p (s\<lparr>transport := t\<rparr>) = received_line p s"
  "received_line p (s\<lparr>ash := a\<rparr>) = received_line p s"
  "received_line p (s\<lparr>decoder := d\<rparr>) = received_line p s"
  by (simp_all add: received_line_def cong: option.case_cong)

lemma dispatch_link:
  "dispatch p (s\<lparr>transport := t, ash := a, decoder := d\<rparr>) =
    (dispatch p s)\<lparr>transport := t, ash := a, decoder := d\<rparr>"
  by (simp add: dispatch_def Let_def split: sum.split prod.split classified.split option.split)

lemma fold_dispatch_link:
  "fold dispatch ps (s\<lparr>transport := t, ash := a, decoder := d\<rparr>) =
    (fold dispatch ps s)\<lparr>transport := t, ash := a, decoder := d\<rparr>"
  by (induction ps arbitrary: s) (simp_all add: dispatch_link)

lemma dispatched_refl [simp]: "dispatched [] s s"
  unfolding dispatched_def
  by (rule exI [of _ "transport s"], rule exI [of _ "ash s"], rule exI [of _ "decoder s"]) simp

lemma dispatched_trans:
  assumes "dispatched ps s s1" "dispatched qs s1 s2"
  shows "dispatched (ps @ qs) s s2"
  using assms unfolding dispatched_def by (auto simp: fold_dispatch_link) blast

lemma dispatched_link:
  "dispatched [] s (s\<lparr>transport := t\<rparr>)" "dispatched [] s (s\<lparr>ash := a\<rparr>)" "dispatched [] s (s\<lparr>decoder := d\<rparr>)"
  unfolding dispatched_def
    apply (rule exI [of _ t], rule exI [of _ "ash s"], rule exI [of _ "decoder s"], simp)
   apply (rule exI [of _ "transport s"], rule exI [of _ a], rule exI [of _ "decoder s"], simp)
  apply (rule exI [of _ "transport s"], rule exI [of _ "ash s"], rule exI [of _ d], simp)
  done

lemma dispatched_one: "dispatched [p] s (dispatch p s)"
  unfolding dispatched_def
  by (rule exI [of _ "transport (dispatch p s)"], rule exI [of _ "ash (dispatch p s)"],
      rule exI [of _ "decoder (dispatch p s)"]) simp

lemma write_frame_link: "write_frame ops f s = (r, s') \<Longrightarrow> \<exists>t. s' = s\<lparr>transport := t\<rparr>"
  by (rule exI [of _ "transport s'"]) (auto simp: write_frame_def split: sum.splits prod.splits)

lemma write_outbound_dispatched: "write_outbound ops out s = (r, s') \<Longrightarrow> dispatched [] s s'"
  by (cases out) (auto simp: write_outbound_def dest!: write_frame_link intro: dispatched_link)

lemma on_decoded_dispatched: "on_decoded ops d s = (r, s') \<Longrightarrow> \<exists>ps. dispatched ps s s'"
proof (cases d)
  case (Frame f)
  assume e: "on_decoded ops d s = (r, s')"
  obtain payload out c where o: "on_frame f (ash s) = ((payload, out), c)" by (metis surj_pair)
  obtain r1 s1 where w: "write_outbound ops out (s\<lparr>ash := c\<rparr>) = (r1, s1)" by (metis surj_pair)
  have 1: "dispatched [] s s1"
    using dispatched_trans [OF dispatched_link(2) write_outbound_dispatched [OF w]] by simp
  show ?thesis
  proof (cases r1)
    case (Inl x)
    with e Frame o w 1 show ?thesis by (auto simp: on_decoded_def)
  next
    case (Inr u)
    with e Frame o w have "s' = (case payload of Some p \<Rightarrow> dispatch p s1 | None \<Rightarrow> s1)"
      by (simp add: on_decoded_def)
    then show ?thesis
      using 1 dispatched_trans [OF 1 dispatched_one] by (cases payload) auto
  qed
next
  case (Rejected x)
  assume "on_decoded ops d s = (r, s')"
  with Rejected show ?thesis
    using dispatched_trans [OF dispatched_link(2) write_outbound_dispatched]
    by (fastforce simp: on_decoded_def split: prod.splits)
qed

lemma on_decoded_all_dispatched: "on_decoded_all ops ds s = (r, s') \<Longrightarrow> \<exists>ps. dispatched ps s s'"
proof (induction ds arbitrary: s)
  case Nil
  then have "s' = s" by simp
  then show ?case using dispatched_refl by blast
next
  case (Cons d ds)
  obtain r1 s1 where d: "on_decoded ops d s = (r1, s1)" by (metis surj_pair)
  obtain ps where ps: "dispatched ps s s1" using on_decoded_dispatched [OF d] by blast
  show ?case
  proof (cases r1)
    case (Inl e)
    with Cons.prems d ps show ?thesis by auto
  next
    case (Inr u)
    with Cons.prems d Cons.IH [of s1] obtain qs where "dispatched qs s1 s'" by auto
    then show ?thesis using dispatched_trans [OF ps] by blast
  qed
qed

lemma consume_dispatched: "consume ops bs s = (r, s') \<Longrightarrow> \<exists>ps. dispatched ps s s'"
  using dispatched_trans [OF dispatched_link(3)] on_decoded_all_dispatched
  by (fastforce simp: consume_def split: prod.splits)

text \<open>A closure that only looks: the reset's and \<open>poll\<close>'s.\<close>

lemma pump_dispatched:
  assumes "\<And>s. snd (snd (stop s)) = s"
  shows "pump_until n ops stop s = (w, x, s') \<Longrightarrow> \<exists>ps. dispatched ps s s'"
proof (induction n arbitrary: s)
  case 0
  then have "s' = s" using assms [of s] by (auto split: prod.splits)
  then show ?case using dispatched_refl by blast
next
  case (Suc n)
  obtain b y s1 where "stop s = (b, y, s1)" by (metis surj_pair)
  with assms [of s] have st: "stop s = (b, y, s)" by simp
  obtain rr t where rd: "t_read ops (transport s) = (rr, t)" by (metis surj_pair)
  have tr: "dispatched [] s (s\<lparr>transport := t\<rparr>)" by (rule dispatched_link)
  show ?case
  proof (cases "\<not> b \<and> (\<exists>bs. rr = ReadOk bs)")
    case True
    then obtain bs where b: "\<not> b" "rr = ReadOk bs" by blast
    obtain r s2 where c: "consume ops bs (s\<lparr>transport := t\<rparr>) = (r, s2)" by (metis surj_pair)
    obtain ps where ps: "dispatched ps s s2"
      using consume_dispatched [OF c] dispatched_trans [OF tr] by fastforce
    show ?thesis
    proof (cases r)
      case (Inl e)
      with Suc.prems st b rd c ps show ?thesis by auto
    next
      case (Inr u)
      with Suc.prems st b rd c have "pump_until n ops stop s2 = (w, x, s')" by simp
      from Suc.IH [OF this] obtain qs where "dispatched qs s2 s'" by blast
      then show ?thesis using dispatched_trans [OF ps] by blast
    qed
  next
    case False
    with Suc.prems st rd have "s' = s \<or> s' = s\<lparr>transport := t\<rparr>"
      by (auto split: if_splits read_result.splits)
    then show ?thesis using tr dispatched_refl by blast
  qed
qed

text \<open>The closure of \<open>command\<close>: it takes the parked response, and stops on it.\<close>

lemma pump_answer:
  "pump_until n ops answer_arrived s = (w, r, s') \<Longrightarrow>
   \<exists>ps s1. dispatched ps s s1 \<and>
     (case r of
        Some x \<Rightarrow> w = Inr () \<and> response s1 = Some x \<and> s' = s1\<lparr>response := None\<rparr>
      | None \<Rightarrow> s' = s1)"
proof (induction n arbitrary: s)
  case 0
  then have "r = response s" "w = Inr ()" "s' = s\<lparr>response := None\<rparr>"
    by (simp_all add: answer_arrived_def take_response_def)
  moreover have "s\<lparr>response := None\<rparr> = s" if "response s = None" using that by simp
  ultimately show ?case
    by (intro exI [of _ "[]"] exI [of _ s]) (auto split: option.split)
next
  case (Suc n)
  show ?case
  proof (cases "response s")
    case (Some x)
    with Suc.prems have "r = Some x" "w = Inr ()" "s' = s\<lparr>response := None\<rparr>"
      by (simp_all add: answer_arrived_def take_response_def)
    with Some show ?thesis by (intro exI [of _ "[]"] exI [of _ s]) simp
  next
    case None
    then have st: "answer_arrived s = (\<not> is_connected (ash s), None, s)"
      by (simp add: answer_arrived_def take_response_def)
    obtain rr t where rd: "t_read ops (transport s) = (rr, t)" by (metis surj_pair)
    have tr: "dispatched [] s (s\<lparr>transport := t\<rparr>)" by (rule dispatched_link)
    show ?thesis
    proof (cases "is_connected (ash s) \<and> (\<exists>bs. rr = ReadOk bs)")
      case True
      then obtain bs where b: "is_connected (ash s)" "rr = ReadOk bs" by blast
      obtain q s2 where c: "consume ops bs (s\<lparr>transport := t\<rparr>) = (q, s2)" by (metis surj_pair)
      obtain ps where ps: "dispatched ps s s2"
        using consume_dispatched [OF c] dispatched_trans [OF tr] by fastforce
      show ?thesis
      proof (cases q)
        case (Inl e)
        with Suc.prems st b rd c ps show ?thesis by auto
      next
        case (Inr u)
        with Suc.prems st b rd c have "pump_until n ops answer_arrived s2 = (w, r, s')" by simp
        from Suc.IH [OF this] obtain qs s3 where "dispatched qs s2 s3"
          "case r of Some x \<Rightarrow> w = Inr () \<and> response s3 = Some x \<and> s' = s3\<lparr>response := None\<rparr> | None \<Rightarrow> s' = s3"
          by blast
        then show ?thesis using dispatched_trans [OF ps] by blast
      qed
    next
      case False
      with Suc.prems st rd have "r = None" "dispatched [] s s'"
        using tr dispatched_refl [of s] by (auto split: if_splits read_result.splits)
      then show ?thesis by auto
    qed
  qed
qed

section \<open>The correlator and the parked response through dispatches\<close>

text \<open>
  \<open>awaiting q fmt s\<close>: the command registered as \<open>q\<close> is outstanding, its answer is read with the
  header format \<open>fmt\<close>, and no response is parked.
\<close>

definition awaiting :: "pending \<Rightarrow> header_format \<Rightarrow> 't ncp \<Rightarrow> bool" where
  "awaiting q fmt s \<longleftrightarrow> response s = None \<and> pending (correlator s) = Some q \<and> pending_format s = Some fmt"

text \<open>\<open>answer_frame q fmt p f\<close>: the payload is the answer to the command \<open>q\<close>.\<close>

definition answer_frame :: "pending \<Rightarrow> header_format \<Rightarrow> bytes \<Rightarrow> ezsp_frame \<Rightarrow> bool" where
  "answer_frame q fmt p f \<longleftrightarrow> parse p fmt = Inr f \<and> direction (frame_control f) = Response \<and>
     \<not> is_callback (frame_control f) \<and> sequence f = pending_sequence q \<and> frame_id f = pending_frame_id q"

definition is_answer :: "pending \<Rightarrow> header_format \<Rightarrow> bytes \<Rightarrow> bool" where
  "is_answer q fmt p \<longleftrightarrow> (case parse p fmt of Inr f \<Rightarrow> answer_frame q fmt p f | Inl _ \<Rightarrow> False)"

lemma is_answer_iff: "is_answer q fmt p \<longleftrightarrow> (\<exists>f. answer_frame q fmt p f)"
  by (auto simp: is_answer_def answer_frame_def split: sum.splits)

lemma answers_iff:
  "pending c = Some q \<Longrightarrow> parse p fmt = Inr f \<Longrightarrow> answers f c \<longleftrightarrow> answer_frame q fmt p f"
  by (auto simp: answers_def answer_frame_def)

lemma dispatch_same:
  "version (dispatch p s) = version s" "heard (dispatch p s) = heard s @ [p]"
  "log_lines (dispatch p s) = log_lines s @ [received_line p s]"
  "ncp_stack_version (dispatch p s) = ncp_stack_version s"
  "initial_version_sent (dispatch p s) = initial_version_sent s"
  "next_seq (correlator (dispatch p s)) = next_seq (correlator s)"
  by (auto simp: dispatch_def Let_def classify_def count_stale_def split: sum.split prod.split classified.split option.split)

lemma fold_dispatch_same:
  "version (fold dispatch ps s) = version s" "heard (fold dispatch ps s) = heard s @ ps"
  "ncp_stack_version (fold dispatch ps s) = ncp_stack_version s"
  "initial_version_sent (fold dispatch ps s) = initial_version_sent s"
  "next_seq (correlator (fold dispatch ps s)) = next_seq (correlator s)"
  by (induction ps arbitrary: s) (simp_all add: dispatch_same)

lemma dispatched_same:
  assumes "dispatched ps s s'"
  shows "version s' = version s" "heard s' = heard s @ ps" "ncp_stack_version s' = ncp_stack_version s"
    "initial_version_sent s' = initial_version_sent s"
    "next_seq (correlator s') = next_seq (correlator s)"
  using assms by (auto simp: dispatched_def fold_dispatch_same)

lemma dispatch_awaiting:
  assumes "awaiting q fmt s"
  shows "if is_answer q fmt p
     then pending (correlator (dispatch p s)) = None \<and>
       (\<exists>f. answer_frame q fmt p f \<and> response (dispatch p s) = Some (parameters f))
     else awaiting q fmt (dispatch p s)"
proof (cases "parse p fmt")
  case (Inl e)
  with assms show ?thesis by (simp add: dispatch_def awaiting_def is_answer_def)
next
  case (Inr f)
  from assms have a: "answers f (correlator s) \<longleftrightarrow> is_answer q fmt p"
    using Inr answers_iff [of "correlator s" q p fmt f] by (simp add: awaiting_def is_answer_def)
  show ?thesis
  proof (rule classify_cases [of f "correlator s"])
    assume "answers f (correlator s)" "classify f (correlator s) = (Answer (parameters f), (correlator s)\<lparr>pending := None\<rparr>)"
    with assms Inr a show ?thesis by (auto simp: dispatch_def awaiting_def is_answer_def)
  next
    assume "\<not> answers f (correlator s)" "classify f (correlator s) = (CallbackFrame (frame_id f) (parameters f), correlator s)"
    with assms Inr a show ?thesis by (auto simp: dispatch_def awaiting_def Let_def split: sum.split)
  next
    assume "\<not> answers f (correlator s)" "classify f (correlator s) = count_stale f (correlator s)"
    with assms Inr a show ?thesis by (auto simp: dispatch_def awaiting_def count_stale_def)
  qed
qed

text \<open>With nothing outstanding, no payload becomes a response.\<close>

lemma dispatch_idle:
  assumes "pending (correlator s) = None"
  shows "pending (correlator (dispatch p s)) = None \<and> response (dispatch p s) = response s \<and>
    pending_format (dispatch p s) = pending_format s"
  using assms
  by (auto simp: dispatch_def Let_def classify_def count_stale_def split: sum.split prod.split option.split)

lemma fold_dispatch_idle:
  "pending (correlator s) = None \<Longrightarrow>
   pending (correlator (fold dispatch ps s)) = None \<and> response (fold dispatch ps s) = response s"
  by (induction ps arbitrary: s) (simp_all add: dispatch_idle)

text \<open>The first answer among the payloads is the one that counts.\<close>

lemma fold_dispatch_awaiting:
  "awaiting q fmt s \<Longrightarrow>
   if \<exists>p \<in> set ps. is_answer q fmt p
   then \<exists>us p vs f. ps = us @ p # vs \<and> (\<forall>u \<in> set us. \<not> is_answer q fmt u) \<and> answer_frame q fmt p f \<and>
     awaiting q fmt (fold dispatch us s) \<and>
     response (fold dispatch ps s) = Some (parameters f) \<and> pending (correlator (fold dispatch ps s)) = None
   else awaiting q fmt (fold dispatch ps s)"
proof (induction ps arbitrary: s)
  case Nil
  then show ?case by simp
next
  case (Cons p ps)
  show ?case
  proof (cases "is_answer q fmt p")
    case True
    with dispatch_awaiting [OF Cons.prems, of p] obtain f where f: "answer_frame q fmt p f"
      "response (dispatch p s) = Some (parameters f)" "pending (correlator (dispatch p s)) = None" by auto
    have "\<exists>us x vs f. p # ps = us @ x # vs \<and> (\<forall>u \<in> set us. \<not> is_answer q fmt u) \<and> answer_frame q fmt x f \<and>
        awaiting q fmt (fold dispatch us s) \<and> response (fold dispatch (p # ps) s) = Some (parameters f) \<and>
        pending (correlator (fold dispatch (p # ps) s)) = None"
      by (rule exI [of _ "[]"], rule exI [of _ p], rule exI [of _ ps], rule exI [of _ f])
        (use Cons.prems f fold_dispatch_idle [OF f(3), of ps] in simp)
    with True show ?thesis by simp
  next
    case False
    with dispatch_awaiting [OF Cons.prems, of p] have aw: "awaiting q fmt (dispatch p s)" by simp
    show ?thesis
    proof (cases "\<exists>x \<in> set ps. is_answer q fmt x")
      case True
      with Cons.IH [OF aw] obtain us x vs f where "ps = us @ x # vs" "\<forall>u \<in> set us. \<not> is_answer q fmt u"
        "answer_frame q fmt x f" "awaiting q fmt (fold dispatch us (dispatch p s))"
        "response (fold dispatch ps (dispatch p s)) = Some (parameters f)"
        "pending (correlator (fold dispatch ps (dispatch p s))) = None" by auto
      note w = this
      have "\<exists>us x vs f. p # ps = us @ x # vs \<and> (\<forall>u \<in> set us. \<not> is_answer q fmt u) \<and> answer_frame q fmt x f \<and>
          awaiting q fmt (fold dispatch us s) \<and> response (fold dispatch (p # ps) s) = Some (parameters f) \<and>
          pending (correlator (fold dispatch (p # ps) s)) = None"
        by (rule exI [of _ "p # us"], rule exI [of _ x], rule exI [of _ vs], rule exI [of _ f])
          (use w False in simp)
      with True show ?thesis by simp
    next
      case none: False
      with Cons.IH [OF aw] False show ?thesis by auto
    qed
  qed
qed

section \<open>Sending a command\<close>

definition registered :: "'r command \<Rightarrow> 't ncp \<Rightarrow> pending" where
  "registered c s = \<lparr>pending_sequence = next_seq (correlator s), pending_frame_id = command_id c\<rparr>"

text \<open>Everything of the session state that sending leaves alone.\<close>

definition same_inbox :: "'t ncp \<Rightarrow> 't ncp \<Rightarrow> bool" where
  "same_inbox s s' \<longleftrightarrow> response s' = response s \<and> version s' = version s \<and> heard s' = heard s \<and>
     callbacks s' = callbacks s \<and> ncp_stack_version s' = ncp_stack_version s \<and> decoder s' = decoder s"

lemma send_command_refused:
  "\<not> available c (version s) \<Longrightarrow> send_command ops c s = (Inl (UnsupportedCommand (command_id c) (version s)), s)"
  by (simp add: send_command_def)

lemma send_command_busy:
  "available c (version s) \<Longrightarrow> pending (correlator s) = Some p \<Longrightarrow>
   send_command ops c s = (Inl (SequenceMismatch (pending_sequence p)), s)"
  by (simp add: send_command_def begin_command_def Let_def)

text \<open>Once the correlator has registered the command, it stays registered, however sending ends.\<close>

lemma send_command_registers:
  assumes "available c (version s)" "pending (correlator s) = None" "send_command ops c s = (r, s')"
  shows "pending (correlator s') = Some (registered c s) \<and> next_seq (correlator s') = next_seq (correlator s) + 1 \<and>
    pending_format s' = Some (choose_format c s) \<and> same_inbox s s'"
  using assms
  by (auto simp: send_command_def begin_command_def registered_def same_inbox_def Let_def
      split: sum.splits prod.splits if_splits dest!: write_frame_link)

lemma send_command_ok:
  assumes "send_command ops c s = (Inr u, s')"
  obtains bs w where "available c (version s)" "pending (correlator s) = None"
    "pending (correlator s') = Some (registered c s)" "pending_format s' = Some (choose_format c s)"
    "same_inbox s s'" "request_bytes c (next_seq (correlator s)) (choose_format c s) (writer_new (version s)) = (Inr (), w)"
    "bs = writer_bytes w" "length bs \<le> MAX_FRAME_LENGTH"
    "log_lines s' = log_lines s @ [sent_line (command_id c) (choose_format c s) bs]"
    "initial_version_sent s' \<longleftrightarrow> initial_version_sent s \<or> choose_format c s = Legacy"
proof -
  have a: "available c (version s)" using assms by (auto simp: send_command_def split: if_splits)
  have i: "pending (correlator s) = None"
    using assms a by (cases "pending (correlator s)") (simp_all add: send_command_busy)
  obtain e w where w: "request_bytes c (next_seq (correlator s)) (choose_format c s) (writer_new (version s)) = (e, w)"
    by (metis surj_pair)
  with assms a i have "e = Inr ()" by (cases e) (auto simp: send_command_def begin_command_def Let_def)
  moreover from this w assms a i have "length (writer_bytes w) \<le> MAX_FRAME_LENGTH"
    by (auto simp: send_command_def begin_command_def Let_def split: if_splits)
  moreover from w assms a i \<open>e = Inr ()\<close> this
  have "log_lines s' = log_lines s @ [sent_line (command_id c) (choose_format c s) (writer_bytes w)] \<and>
    (initial_version_sent s' \<longleftrightarrow> initial_version_sent s \<or> choose_format c s = Legacy)"
    by (auto simp: send_command_def begin_command_def Let_def split: if_splits sum.splits prod.splits
        dest!: write_frame_link)
  ultimately show ?thesis
    using that a i send_command_registers [OF a i assms] w by blast
qed

lemma send_command_awaiting:
  "send_command ops c s = (Inr u, s') \<Longrightarrow> response s = None \<Longrightarrow>
   awaiting (registered c s) (choose_format c s) s'"
  by (erule send_command_ok) (simp add: awaiting_def same_inbox_def)

section \<open>Waiting for the answer\<close>

lemma fold_dispatch_answered:
  assumes "awaiting q fmt s" "\<exists>p \<in> set ps. is_answer q fmt p"
  obtains us p vs f where "ps = us @ p # vs" "\<forall>u \<in> set us. \<not> is_answer q fmt u" "answer_frame q fmt p f"
    "awaiting q fmt (fold dispatch us s)" "response (fold dispatch ps s) = Some (parameters f)"
    "pending (correlator (fold dispatch ps s)) = None"
  using fold_dispatch_awaiting [OF assms(1), of ps] assms(2) by (simp only: if_True) metis

lemma fold_dispatch_unanswered:
  "awaiting q fmt s \<Longrightarrow> \<not> (\<exists>p \<in> set ps. is_answer q fmt p) \<Longrightarrow> awaiting q fmt (fold dispatch ps s)"
  using fold_dispatch_awaiting [of q fmt s ps] by (simp only: if_False)

lemma decode_answer_state [simp]: "snd (decode_answer c ps s) = s"
  by (simp add: decode_answer_def split: prod.split sum.split)

lemma decode_answer_Inr:
  "decode_answer c ps s = (Inr x, s') \<longleftrightarrow>
   s' = s \<and> (\<exists>r. answer c (reader_new ps (version s)) = (Inr x, r) \<and> reader_is_empty r)"
  by (auto simp: decode_answer_def split: prod.splits sum.splits if_splits)

lemma report_no_answer_Inl: "\<exists>e. fst (report_no_answer c w s) = Inl e"
  by (auto simp: report_no_answer_def Let_def split: sum.split prod.split)

text \<open>The two ways to wait, from a state that awaits \<open>q\<close>.\<close>

lemma await_answer_cases:
  assumes "awaiting q fmt s" "await_answer n ops c s = (res, s')"
  obtains (answered) us p vs f s1 where "heard s' = heard s @ us @ p # vs"
      "\<forall>u \<in> set us. \<not> is_answer q fmt u" "answer_frame q fmt p f" "dispatched (us @ p # vs) s s1"
      "awaiting q fmt (fold dispatch us s)"
      "pending (correlator s') = None" "response s' = None" "s' = s1\<lparr>response := None\<rparr>"
      "decode_answer c (parameters f) s' = (res, s')"
      "\<exists>r. pump_until n ops answer_arrived s = (Inr (), Some r, s')"
  | (silent) w s1 where "pump_until n ops answer_arrived s = (w, None, s1)" "awaiting q fmt s1"
      "report_no_answer c w s1 = (res, s')" "\<exists>ps. dispatched ps s s1 \<and> (\<forall>p \<in> set ps. \<not> is_answer q fmt p)"
  | (parked) w s1 ps where "pump_until n ops answer_arrived s = (w, None, s1)" "dispatched ps s s1"
      "response s1 \<noteq> None" "pending (correlator s1) = None" "report_no_answer c w s1 = (res, s')"
      "\<exists>p \<in> set ps. is_answer q fmt p"
proof -
  obtain w r s2 where pu: "pump_until n ops answer_arrived s = (w, r, s2)" by (metis surj_pair)
  from pump_answer [OF this] obtain ps s1 where d: "dispatched ps s s1"
    and r: "case r of Some x \<Rightarrow> w = Inr () \<and> response s1 = Some x \<and> s2 = s1\<lparr>response := None\<rparr> | None \<Rightarrow> s2 = s1"
    by blast
  obtain t a e where s1: "s1 = (fold dispatch ps s)\<lparr>transport := t, ash := a, decoder := e\<rparr>"
    using d by (auto simp: dispatched_def)
  show ?thesis
  proof (cases r)
    case (Some x)
    with r have x: "w = Inr ()" "response s1 = Some x" "s2 = s1\<lparr>response := None\<rparr>" by simp_all
    have "\<exists>p \<in> set ps. is_answer q fmt p"
      using fold_dispatch_unanswered [OF assms(1), of ps] x(2) s1 by (auto simp: awaiting_def)
    with assms(1) obtain us p vs f where u: "ps = us @ p # vs" "\<forall>u \<in> set us. \<not> is_answer q fmt u"
      "answer_frame q fmt p f" "awaiting q fmt (fold dispatch us s)"
      "response (fold dispatch ps s) = Some (parameters f)" "pending (correlator (fold dispatch ps s)) = None"
      by (rule fold_dispatch_answered)
    have xf: "x = parameters f" using x(2) s1 u(5) by simp
    have da: "decode_answer c (parameters f) s2 = (res, s')"
      using assms(2) pu Some xf by (simp add: await_answer_def)
    then have s': "s' = s2" by (metis decode_answer_state snd_conv)
    show ?thesis
      by (rule answered [of us p vs f s1])
        (use u d x s1 s' da pu Some dispatched_same(2) [OF d] in auto)
  next
    case None
    with r have s2: "s2 = s1" by simp
    have rp: "report_no_answer c w s1 = (res, s')" using assms(2) pu None s2 by (simp add: await_answer_def)
    show ?thesis
    proof (cases "\<exists>p \<in> set ps. is_answer q fmt p")
      case True
      with assms(1) have "response (fold dispatch ps s) \<noteq> None \<and> pending (correlator (fold dispatch ps s)) = None"
        by (rule fold_dispatch_answered) simp
      then show ?thesis using parked [of w s1 ps] pu None s2 d s1 rp True by simp
    next
      case False
      with assms(1) have "awaiting q fmt (fold dispatch ps s)" by (rule fold_dispatch_unanswered)
      then have "awaiting q fmt s1" by (simp add: s1 awaiting_def)
      then show ?thesis using silent [of w s1] pu None s2 d rp False by blast
    qed
  qed
qed

end
