(* ===== verification/NcpCommand.thy ===== *)
theory NcpCommand
  imports NcpRun EzspMessaging
begin

text \<open>
  One command of the runtime from its request to its result (\<open>Ncp::command\<close> in \<open>ncp.rs\<close>): whose
  answer it returns, in which state it leaves the connection, and what an error in the middle
  leaves behind. Concrete runs on the scripted transport show that the hypotheses can hold.
\<close>


section \<open>Runs on the scripted transport\<close>

lemma fake_write_frame:
  "length (body f) \<le> 130 \<Longrightarrow>
   write_frame fake_ops f s = (Inr (), s\<lparr>transport := (transport s)\<lparr>written := written (transport s) @ wire_of f\<rparr>\<rparr>)"
  by (simp add: write_frame_def fake_ops_def fake_write_def wire_of_def encode_eq)

lemma consume_wire:
  "decoder s = decoder_new \<Longrightarrow> wf_frame f \<Longrightarrow>
   consume ops (wire_of f) s = andthen (on_decoded ops (Frame f)) (\<lambda>_. ret ()) s"
proof -
  assume d: "decoder s = decoder_new" and w: "wf_frame f"
  from d have e: "s\<lparr>decoder := decoder_new\<rparr> = s" by (cases s) simp
  show ?thesis by (simp add: consume_def d e feed_wire [OF w])
qed

text \<open>A connection right after the reset handshake, with the reads to come.\<close>

definition sample_ncp :: "bytes list \<Rightarrow> fake_transport ncp" where
  "sample_ncp cs = (ncp_start (fake_with_chunks cs))\<lparr>ash := connection_new\<lparr>state := Connected\<rparr>\<rparr>"

definition sample_version_payload :: bytes where
  "sample_version_payload = [0, 0x80, 0, 0x0d, 2, 0x40, 0x74]"

lemmas run_defs =
  send_command_def begin_command_def choose_format_def request_bytes_def write_header_def
  send_data_def retire_acknowledged_def on_frame_def is_connected_def on_decoded_def write_outbound_def
  dispatch_def parse_eq header_id_def from_low_byte_def classify_def await_answer_def answer_arrived_def
  take_response_def decode_answer_def next_sequence_def writer_u8_def writer_u16_def writer_put_def
  writer_new_def

lemmas sample_defs =
  sample_ncp_def ncp_start_def fake_with_chunks_def connection_new_def correlator_new_def
  version_command_def version_encode_def

lemma fake_read_chunk: "t_read fake_ops \<lparr>to_read = c # cs, written = w, fail_next_read = None, closed = b\<rparr> =
  (ReadOk c, \<lparr>to_read = cs, written = w, fail_next_read = None, closed = b\<rparr>)"
  "t_read fake_ops \<lparr>to_read = [], written = w, fail_next_read = None, closed = False\<rparr> =
  (ReadPending, \<lparr>to_read = [], written = w, fail_next_read = None, closed = False\<rparr>)"
  by (simp_all add: fake_ops_def fake_read_def)

lemma version_response_bytes:
  "version_response_decode (reader_new [p, t, a, b] v) =
    (Inr \<lparr>protocol_version = ProtocolVersion p, stack_type = t, stack_version = le_word [a, b]\<rparr>,
     advance (length [p, t, a, b]) (reader_new [p, t, a, b] v))"
  by (simp add: version_response_decode_def reader_u8_def reader_u16_def reader_take_eq wf_reader_new
      wf_reader_advance andthen_def del: le_word.simps)

lemma reader_used_up: "reader_is_empty (advance (length bs) (reader_new bs v))"
  by (simp add: reader_is_empty_def remaining_peek)

lemmas sample_simps =
  run_defs sample_defs const_defs Let_def fits_legacy_def fake_write_frame fake_read_chunk consume_wire
  sample_version_payload_def version_response_bytes

lemma sample_send:
  "\<exists>s1. send_command fake_ops (version_command (Version PREFERRED)) (sample_ncp cs) = (Inr (), s1)"
  by (simp add: sample_simps)

lemma sample_run:
  "\<exists>s'. run_command (Suc 0) fake_ops (version_command (Version PREFERRED))
     (sample_ncp [wire_of (Data 0 1 False sample_version_payload)]) =
   (Inr \<lparr>protocol_version = ProtocolVersion 0x0d, stack_type = 2, stack_version = 0x7440\<rparr>, s')"
  using reader_used_up [of "[0x0d, 2, 0x40, 0x74]" "ProtocolVersion 0x13"]
  by (simp add: run_command_def andthen_def sample_simps)

section \<open>A command and its result\<close>

lemma run_command_sent:
  "send_command ops c s = (Inr (), s1) \<Longrightarrow> run_command n ops c s = await_answer n ops c s1"
  by (simp add: run_command_def)

lemma run_command_not_sent:
  "send_command ops c s = (Inl e, s1) \<Longrightarrow> run_command n ops c s = (Inl e, s1)"
  by (simp add: run_command_def)

lemma run_command_Inr:
  assumes "run_command n ops c s = (Inr x, s')"
  obtains s1 where "send_command ops c s = (Inr (), s1)" "await_answer n ops c s1 = (Inr x, s')"
  using assms by (auto simp: run_command_def andthen_eq_Inr)

lemma silent_not_Inr: "report_no_answer c w s \<noteq> (Inr x, s')"
  using report_no_answer_Inl [of c w s] by auto

lemma command_answered:
  assumes "run_command n ops c s = (Inr x, s')" "response s = None"
  obtains s1 us p vs f s2 where "send_command ops c s = (Inr (), s1)"
    "heard s' = heard s @ us @ p # vs" "\<forall>u \<in> set us. \<not> is_answer (registered c s) (choose_format c s) u"
    "answer_frame (registered c s) (choose_format c s) p f" "dispatched (us @ p # vs) s1 s2"
    "awaiting (registered c s) (choose_format c s) (fold dispatch us s1)"
    "pending (correlator s') = None" "response s' = None" "s' = s2\<lparr>response := None\<rparr>"
    "\<exists>r. answer c (reader_new (parameters f) (version s)) = (Inr x, r) \<and> reader_is_empty r"
proof -
  obtain s1 where sc: "send_command ops c s = (Inr (), s1)" and aw: "await_answer n ops c s1 = (Inr x, s')"
    using assms(1) by (rule run_command_Inr)
  have w: "awaiting (registered c s) (choose_format c s) s1"
    using sc assms(2) by (rule send_command_awaiting)
  have si: "same_inbox s s1" using sc by (rule send_command_ok)
  show ?thesis
  proof (cases rule: await_answer_cases [OF w aw])
    case (1 us p vs f s2)
    have "version s' = version s"
      using 1(4,8) si dispatched_same(1) [OF 1(4)] by (simp add: same_inbox_def)
    then show ?thesis
      using that [of s1 us p vs f s2] sc 1 si by (simp add: decode_answer_Inr same_inbox_def)
  qed (simp_all add: silent_not_Inr)
qed

text \<open>A read loop that ends without an error leaves no response parked.\<close>

lemma pump_answer_unparks: "pump_until n ops answer_arrived s = (Inr (), r, s') \<Longrightarrow> response s' = None"
proof (induction n arbitrary: s)
  case 0
  then show ?case by (auto simp: answer_arrived_def take_response_def)
next
  case (Suc n)
  show ?case
  proof (cases "response s = None \<and> is_connected (ash s)")
    case False
    with Suc.prems show ?thesis by (auto simp: answer_arrived_def take_response_def)
  next
    case True
    then have st: "answer_arrived s = (False, None, s)" by (simp add: answer_arrived_def take_response_def)
    obtain rr t where rd: "t_read ops (transport s) = (rr, t)" by (metis surj_pair)
    with Suc st True show ?thesis
      by (cases rr) (auto split: prod.splits sum.splits)
  qed
qed

text \<open>
  C1. A command that returns a value returns its own answer. From a connection with no response
  parked, the value is decoded, with no byte left over, from the parameters of a payload received
  during this call, the first one that is an answer to this command: a response frame that is not
  flagged as a callback, with the sequence number this command was sent with and its frame id,
  in the header format it was sent in. Callbacks, stale responses and undecodable payloads before
  it do not end the wait, and afterwards nothing is outstanding.
\<close>

theorem command_returns_its_own_answer:
  assumes "run_command n ops c s = (Inr x, s')" "response s = None"
  shows "\<exists>us p vs f r. heard s' = heard s @ us @ p # vs \<and>
    (\<forall>u \<in> set us. \<not> is_answer (registered c s) (choose_format c s) u) \<and>
    parse p (choose_format c s) = Inr f \<and> direction (frame_control f) = Response \<and>
    \<not> is_callback (frame_control f) \<and> sequence f = next_seq (correlator s) \<and> frame_id f = command_id c \<and>
    answer c (reader_new (parameters f) (version s)) = (Inr x, r) \<and> reader_is_empty r \<and>
    pending (correlator s') = None"
  using assms by (rule command_answered) (auto simp: answer_frame_def registered_def)

lemma command_returns_its_own_answer_witness:
  "\<exists>s' us p vs f. run_command (Suc 0) fake_ops (version_command (Version PREFERRED))
      (sample_ncp [wire_of (Data 0 1 False sample_version_payload)]) =
        (Inr \<lparr>protocol_version = ProtocolVersion 0x0d, stack_type = 2, stack_version = 0x7440\<rparr>, s') \<and>
    heard s' = us @ p # vs \<and> parse p Legacy = Inr f \<and> sequence f = 0"
proof -
  let ?s = "sample_ncp [wire_of (Data 0 1 False sample_version_payload)]"
  have r: "response ?s = None" "heard ?s = []" "next_seq (correlator ?s) = 0"
    "choose_format (version_command (Version PREFERRED)) ?s = Legacy"
    by (simp_all add: sample_defs choose_format_def)
  obtain s' where s': "run_command (Suc 0) fake_ops (version_command (Version PREFERRED)) ?s =
        (Inr \<lparr>protocol_version = ProtocolVersion 0x0d, stack_type = 2, stack_version = 0x7440\<rparr>, s')"
    using sample_run by blast
  from command_returns_its_own_answer [OF s' r(1)] obtain us p vs f
    where "heard s' = us @ p # vs" "parse p Legacy = Inr f" "sequence f = 0"
    unfolding r by auto
  with s' show ?thesis by blast
qed

text \<open>
  C21. Waiting always ends in an idle connection unless reading or replying failed: when the
  command has been sent and the read loop ended without an error of the transport, the command is
  no longer outstanding. It is then either answered, or the connection is down and the error is
  \<open>NcpReset\<close>, or the error is \<open>Timeout\<close> with this command's frame id, for any number of reads the
  deadline allows.
\<close>

theorem command_ends_idle:
  assumes "send_command ops c s = (Inr (), s1)" "response s = None"
    and "pump_until n ops answer_arrived s1 = (Inr (), r, s2)" "run_command n ops c s = (res, s')"
  shows "pending (correlator s') = None \<and> response s' = None \<and>
    res = (case r of
       Some ps \<Rightarrow> fst (decode_answer c ps s2)
     | None \<Rightarrow> Inl (if is_connected (ash s2) then Timeout (command_id c) else NcpReset (command_id c)))"
proof -
  have w: "awaiting (registered c s) (choose_format c s) s1"
    using assms(1,2) by (rule send_command_awaiting)
  have aw: "await_answer n ops c s1 = (res, s')"
    using assms(1,4) by (simp add: run_command_sent)
  have id: "pending_frame_id (registered c s) = command_id c" by (simp add: registered_def)
  have un: "response s2 = None" using assms(3) by (rule pump_answer_unparks)
  show ?thesis
  proof (cases rule: await_answer_cases [OF w aw])
    case (1 us p vs f s2')
    with assms(3) aw have "r \<noteq> None" "s2 = s'" "(res, s') = decode_answer c (the r) s2"
      by (auto simp: await_answer_def)
    with 1 show ?thesis by (cases r) (auto simp: prod_eq_iff)
  next
    case (2 w' s2')
    then have "w' = Inr ()" "s2' = s2" "r = None" using assms(3) by simp_all
    with 2 id un show ?thesis
      by (auto simp: report_no_answer_def awaiting_def time_out_def on_ncp_reset_def Let_def split: if_splits)
  next
    case (3 w' s2' ps)
    then have "s2' = s2" using assms(3) by simp
    with 3 un show ?thesis by simp
  qed
qed

lemma command_ends_idle_witness:
  "\<exists>s'. run_command (Suc 0) fake_ops (version_command (Version PREFERRED)) (sample_ncp []) =
     (Inl (Timeout ID_VERSION), s') \<and> pending (correlator s') = None"
proof -
  obtain s1 where s1: "send_command fake_ops (version_command (Version PREFERRED)) (sample_ncp []) = (Inr (), s1)"
    and p: "\<exists>s2. pump_until (Suc 0) fake_ops answer_arrived s1 = (Inr (), None, s2) \<and> is_connected (ash s2)"
    by (simp add: sample_simps)
  then obtain s2 where s2: "pump_until (Suc 0) fake_ops answer_arrived s1 = (Inr (), None, s2)" "is_connected (ash s2)"
    by blast
  have r: "response (sample_ncp []) = None" by (simp add: sample_defs)
  obtain res s' where run: "run_command (Suc 0) fake_ops (version_command (Version PREFERRED)) (sample_ncp []) = (res, s')"
    by (metis surj_pair)
  from command_ends_idle [OF s1 r s2(1) run] run s2(2) show ?thesis by (simp add: version_command_def)
qed

text \<open>A request the encoder refuses.\<close>

lemma send_command_encode_error:
  assumes "available c (version s)" "pending (correlator s) = None" "choose_format c s = Extended"
    and "appends (params c) (version s) (Inl e) bs"
  shows "\<exists>s1. send_command ops c s = (Inl e, s1)"
proof -
  have "appends (request_bytes c (next_seq (correlator s)) Extended) (version s) (Inl e)
      (header_wire (next_seq (correlator s)) (command_id c) Extended @ bs)"
    unfolding request_bytes_def by (rule appends_andthen [OF writes_header assms(4)]) simp
  then have "fst (request_bytes c (next_seq (correlator s)) Extended (writer_new (version s))) = Inl e"
    by (simp add: appends_def writer_new_def)
  with assms show ?thesis
    by (auto simp: send_command_def begin_command_def Let_def split: prod.split)
qed

definition sample_oversize :: send_unicast where
  "sample_oversize = \<lparr>su_unicast_type = Direct, index_or_destination = 1,
     su_aps_frame = \<lparr>profile_id = 0x0104, cluster_id = 6, source_endpoint = 1, destination_endpoint = 1,
       options = ApsOptions 0, group_id = 0, aps_sequence = 0\<rparr>,
     su_message_tag = 7, su_message = replicate 256 0\<rparr>"

text \<open>
  C22. A command whose sending fails blocks the connection: once the correlator has registered
  it, an error of the encoder, of the frame length, of the ASH window or of the transport
  returns without ending it, so that every later command, whichever it is, is refused with
  \<open>SequenceMismatch\<close> and leaves the state as it is.
\<close>

theorem failed_send_blocks_commands:
  assumes "available c (version s)" "pending (correlator s) = None" "send_command ops c s = (Inl e, s1)"
    and "available c' (version s)"
  shows "run_command n ops c s = (Inl e, s1) \<and>
    run_command m ops' c' s1 = (Inl (SequenceMismatch (next_seq (correlator s))), s1)"
proof -
  from send_command_registers [OF assms(1-3)]
  have "pending (correlator s1) = Some (registered c s)" "version s1 = version s"
    by (simp_all add: same_inbox_def)
  with assms(4) have "send_command ops' c' s1 = (Inl (SequenceMismatch (next_seq (correlator s))), s1)"
    by (simp add: send_command_busy registered_def)
  with assms(3) show ?thesis by (simp add: run_command_not_sent)
qed


lemma failed_send_blocks_commands_witness:
  "\<exists>s1. run_command 3 fake_ops (send_unicast_command sample_oversize) (sample_ncp []) =
      (Inl (PayloadTooLong 256 255), s1) \<and>
    run_command 3 fake_ops (get_eui64_command GetEui64) s1 = (Inl (SequenceMismatch 0), s1)"
proof -
  let ?s = "sample_ncp []"
  have i: "pending (correlator ?s) = None" "next_seq (correlator ?s) = 0" and v: "version ?s = PREFERRED"
    by (simp_all add: sample_defs)
  have a: "available (send_unicast_command sample_oversize) (version ?s)" "available (get_eui64_command GetEui64) (version ?s)"
    by (simp_all add: v send_unicast_command_def get_eui64_command_def default_available_def is_supported_def const_defs)
  have "appends (params (send_unicast_command sample_oversize)) (version ?s) (Inl (PayloadTooLong 256 255))
      (send_unicast_header (version ?s) sample_oversize @ [])"
    using send_unicast_too_long [of sample_oversize "version ?s"]
    by (simp add: send_unicast_command_def sample_oversize_def)
  moreover have "choose_format (send_unicast_command sample_oversize) ?s = Extended"
    by (simp add: choose_format_def send_unicast_command_def const_defs)
  ultimately obtain s1 where
    s1: "send_command fake_ops (send_unicast_command sample_oversize) ?s = (Inl (PayloadTooLong 256 255), s1)"
    using send_command_encode_error a(1) i(1) by blast
  from failed_send_blocks_commands [OF a(1) i(1) s1 a(2)] show ?thesis
    unfolding i(2) by blast
qed

text \<open>A request that the length check passes and the ASH layer cannot carry.\<close>

definition sample_long :: send_unicast where
  "sample_long = sample_oversize\<lparr>su_message := replicate 128 0\<rparr>"

lemma sample_long_request:
  "\<exists>w. request_bytes (send_unicast_command sample_long) 0 Extended (writer_new v) = (Inr (), w) \<and>
     130 < length (writer_bytes w) \<and> length (writer_bytes w) \<le> MAX_FRAME_LENGTH"
proof -
  let ?c = "send_unicast_command sample_long"
  have "writes (params ?c) v (send_unicast_header v sample_long @ word_of_nat 128 # replicate 128 0)"
    using writes_send_unicast [of sample_long v] by (simp add: send_unicast_command_def sample_long_def)
  from appends_andthen [OF writes_header this] have "writes (request_bytes ?c 0 Extended) v
      (header_wire 0 (command_id ?c) Extended @ send_unicast_header v sample_long @ word_of_nat 128 # replicate 128 0)"
    by (simp add: request_bytes_def)
  then show ?thesis
    by (simp add: writes_new message_tag_wire_def header_wire_def send_unicast_header_def sample_long_def aps_frame_wire_def const_defs Let_def)
qed

text \<open>
  C23. What the length checks let through. The runtime admits a request of up to 218 bytes, of
  which the ASH layer can carry 130: a request of 131 to 218 bytes is logged, is given an ASH
  number, is put in the retransmission queue and then fails without anything being written. A longer
  one fails before. In both cases the command stays registered.
\<close>

theorem request_length_bounds:
  assumes "available c (version s)" "pending (correlator s) = None" "is_connected (ash s)"
    and "length (in_flight (ash s)) < MAX_WINDOW" "\<forall>bs t. fst (t_write ops bs t) = Inr ()"
    and "request_bytes c (next_seq (correlator s)) (choose_format c s) (writer_new (version s)) = (Inr (), w)"
    and "send_command ops c s = (r, s')" "n = length (writer_bytes w)"
  shows "r = (if n \<le> 130 then Inr () else if n \<le> 218 then Inl (Ash (TooLong (n + 3) 133)) else Inl (FrameTooLong n 218)) \<and>
    (130 < n \<longrightarrow> transport s' = transport s \<and> pending (correlator s') = Some (registered c s)) \<and>
    map flight_payload (in_flight (ash s')) = map flight_payload (in_flight (ash s)) @ (if n \<le> 218 then [writer_bytes w] else []) \<and>
    next_tx_frame (ash s') = (if n \<le> 218 then next_sequence (next_tx_frame (ash s)) else next_tx_frame (ash s))"
proof -
  define after where "after = (\<lambda>bs u. snd (t_write ops bs u))"
  have "t_write ops bs u = (Inr (), after bs u)" for bs u
    using assms(5) by (simp add: after_def prod_eq_iff)
  then show ?thesis
    using assms(1-4,6-8) send_command_registers [OF assms(1,2,7)]
    by (auto simp: send_command_def begin_command_def send_data_def Let_def write_frame_def encode_eq const_defs split: if_splits)
qed

lemma request_length_bounds_witness:
  "\<exists>n s'. 130 < n \<and> send_command fake_ops (send_unicast_command sample_long) (sample_ncp []) =
      (Inl (Ash (TooLong (n + 3) 133)), s') \<and> written (transport s') = [] \<and> next_tx_frame (ash s') = 1"
proof -
  let ?s = "sample_ncp []" and ?c = "send_unicast_command sample_long"
  obtain w where w: "request_bytes ?c 0 Extended (writer_new PREFERRED) = (Inr (), w)"
    "130 < length (writer_bytes w)" "length (writer_bytes w) \<le> 218"
    using sample_long_request [of PREFERRED] by (auto simp: const_defs)
  obtain r s' where s': "send_command fake_ops ?c ?s = (r, s')" by (metis surj_pair)
  have p: "available ?c (version ?s)" "pending (correlator ?s) = None" "is_connected (ash ?s)"
    "length (in_flight (ash ?s)) < MAX_WINDOW" "\<forall>bs t. fst (t_write fake_ops bs t) = Inr ()"
    "choose_format ?c ?s = Extended" "next_seq (correlator ?s) = 0" "version ?s = PREFERRED" "next_tx_frame (ash ?s) = 0"
    "written (transport ?s) = []"
    by (simp_all add: sample_defs send_unicast_command_def default_available_def is_supported_def is_connected_def
        choose_format_def fake_ops_def fake_write_def const_defs)
  from request_length_bounds [OF p(1-5) _ s' refl] w p(6-10)
  have "r = Inl (Ash (TooLong (length (writer_bytes w) + 3) 133))" "written (transport s') = []" "next_tx_frame (ash s') = 1"
    by (auto simp: next_sequence_def const_defs)
  with s' w(2) show ?thesis by blast
qed

section \<open>A response without a command\<close>

lemma parked_response_answers:
  assumes "response s = Some ps" "send_command ops c s = (Inr (), s1)"
  shows "run_command n ops c s = (fst (decode_answer c ps s1), s1\<lparr>response := None\<rparr>) \<and>
    pending (correlator s1) = Some (registered c s)"
proof -
  have r: "response s1 = Some ps" and p: "pending (correlator s1) = Some (registered c s)"
    using send_command_ok [OF assms(2)] assms(1) by (auto simp: same_inbox_def)
  have "pump_until n ops answer_arrived s1 = (Inr (), Some ps, s1\<lparr>response := None\<rparr>)"
    using r by (cases n) (simp_all add: answer_arrived_def take_response_def)
  then have "run_command n ops c s = decode_answer c ps (s1\<lparr>response := None\<rparr>)"
    using assms(2) by (simp add: run_command_sent await_answer_def)
  moreover have "fst (decode_answer c ps (s1\<lparr>response := None\<rparr>)) = fst (decode_answer c ps s1)"
    by (simp add: decode_answer_def split: prod.split sum.split)
  ultimately show ?thesis using p by (simp add: prod_eq_iff)
qed

text \<open>
  C25. A parked response answers the next command. When a response is still parked in the state
  as a command starts, because it arrived outside the wait of its own command, the runtime takes
  it for the answer: nothing is read, and the result is decoded from it whatever command and
  sequence number it belonged to, while the command just sent stays outstanding.
\<close>

theorem parked_response_answers_the_next_command:
  assumes "response s = Some ps" "send_command ops c s = (Inr (), s1)"
  shows "run_command n ops c s = (fst (decode_answer c ps s1), s1\<lparr>response := None\<rparr>) \<and>
    pending (correlator s1) = Some (registered c s)"
  using assms by (rule parked_response_answers)

text \<open>
  Such a state comes about on the scripted transport: a read fails while the first \<open>version\<close> is
  outstanding, \<open>poll\<close> then receives its answer, and \<open>permitJoining\<close> reports that answer as its
  status.
\<close>

definition sample_failing :: "fake_transport ncp" where
  "sample_failing = sample_ncp [wire_of (Data 0 1 False sample_version_payload)]
     \<lparr>transport := set_fail_next_read (Io ''read'' ''interrupted'')
        (fake_with_chunks [wire_of (Data 0 1 False sample_version_payload)])\<rparr>"

lemma fake_read_failing:
  "t_read fake_ops \<lparr>to_read = cs, written = w, fail_next_read = Some e, closed = b\<rparr> =
    (ReadFailed e, \<lparr>to_read = cs, written = w, fail_next_read = None, closed = b\<rparr>)"
  by (simp add: fake_ops_def fake_read_def)

lemma sample_parked:
  "\<exists>s1 s2. run_command (Suc 0) fake_ops (version_command (Version PREFERRED)) sample_failing =
      (Inl (map_transport (Io ''read'' ''interrupted'')), s1) \<and>
    poll (Suc 0) fake_ops s1 = (Inr [], s2) \<and> response s2 = Some [0x0d, 2, 0x40, 0x74] \<and>
    version s2 = PREFERRED \<and>
    (\<exists>s3. send_command fake_ops (permit_joining_command permit_close) s2 = (Inr (), s3) \<and> version s3 = PREFERRED)"
  by (simp add: run_command_def andthen_def sample_simps sample_failing_def set_fail_next_read_def
      fake_read_failing report_no_answer_def poll_def take_callbacks_def permit_joining_command_def
      permit_close_def permit_joining_encode_def default_available_def is_supported_def)

lemma wide_status_bytes:
  "fst (decode_answer (permit_joining_command c) [a, b, d, e] (s\<lparr>version := PREFERRED\<rparr>)) =
     Inr (PermitJoiningResponse (SlStatus (le_word [a, b, d, e])))"
proof -
  have "le_bytes 4 (le_word [a, b, d, e] :: u32) = [a, b, d, e]" by (rule le_bytes_le_word') simp_all
  moreover have "has_wide_status PREFERRED" by (simp add: has_wide_status_def const_defs)
  ultimately have "parses sl_status_decode PREFERRED [a, b, d, e] (SlStatus (le_word [a, b, d, e]))"
    using parses_sl_status_wide [of PREFERRED "le_word [a, b, d, e]"] by (simp del: le_word.simps le_bytes.simps)
  then have "sl_status_decode (reader_new [a, b, d, e] PREFERRED) =
      (Inr (SlStatus (le_word [a, b, d, e])), advance (length [a, b, d, e]) (reader_new [a, b, d, e] PREFERRED))"
    by (simp add: parses_def wf_reader_new del: le_word.simps)
  with reader_used_up [of "[a, b, d, e]" PREFERRED] show ?thesis
    by (simp add: decode_answer_def permit_joining_command_def permit_joining_response_decode_def andthen_def
        del: le_word.simps)
qed

lemma parked_response_answers_the_next_command_witness:
  "\<exists>s1 s2 s3. run_command (Suc 0) fake_ops (version_command (Version PREFERRED)) sample_failing =
      (Inl (map_transport (Io ''read'' ''interrupted'')), s1) \<and>
    poll (Suc 0) fake_ops s1 = (Inr [], s2) \<and>
    run_command 5 fake_ops (permit_joining_command permit_close) s2 =
      (Inr (PermitJoiningResponse (SlStatus (le_word [0x0d, 2, 0x40, 0x74]))), s3)"
proof -
  obtain s1 s2 s3 where r1: "run_command (Suc 0) fake_ops (version_command (Version PREFERRED)) sample_failing =
      (Inl (map_transport (Io ''read'' ''interrupted'')), s1)" and r2: "poll (Suc 0) fake_ops s1 = (Inr [], s2)"
    and p: "response s2 = Some [0x0d, 2, 0x40, 0x74]"
    and sc: "send_command fake_ops (permit_joining_command permit_close) s2 = (Inr (), s3)" and v: "version s3 = PREFERRED"
    using sample_parked by blast
  have "s3\<lparr>version := PREFERRED\<rparr> = s3" using v by (cases s3) simp
  with parked_response_answers_the_next_command [OF p sc, of 5]
    wide_status_bytes [of permit_close 13 2 64 116 s3] r1 r2
  show ?thesis by (auto simp del: le_word.simps)
qed

text \<open>
  C24. A transport error during the wait spoils the next command. The command returns the error with
  the connection still up, and then either it is still registered, so that every later command is
  refused with \<open>SequenceMismatch\<close> and changes nothing, or its answer had arrived just before the
  error and is parked, so that the next command that is sent returns what it decodes from it.
\<close>

theorem transport_error_spoils_the_next_command:
  assumes "send_command ops c s = (Inr (), s1)" "response s = None"
    and "pump_until n ops answer_arrived s1 = (Inl e, r, s2)" "is_connected (ash s2)"
    and "available c' (version s)"
  shows "run_command n ops c s = (Inl e, s2) \<and>
    (run_command m ops' c' s2 = (Inl (SequenceMismatch (next_seq (correlator s))), s2) \<or>
     (\<exists>ps. response s2 = Some ps \<and> (\<forall>s3. send_command ops' c' s2 = (Inr (), s3) \<longrightarrow>
       run_command m ops' c' s2 = (fst (decode_answer c' ps s3), s3\<lparr>response := None\<rparr>))))"
proof -
  have aw: "awaiting (registered c s) (choose_format c s) s1"
    using assms(1,2) by (rule send_command_awaiting)
  have si: "same_inbox s s1" using assms(1) by (rule send_command_ok)
  obtain ps where d: "dispatched ps s1 s2" and r: "r = None"
    using pump_answer [OF assms(3)] by (cases r) auto
  have run: "run_command n ops c s = (Inl e, s2)"
    using assms(1,3,4) r by (simp add: run_command_sent await_answer_def report_no_answer_def)
  have v: "version s2 = version s" using dispatched_same(1) [OF d] si by (simp add: same_inbox_def)
  show ?thesis
  proof (cases "\<exists>p \<in> set ps. is_answer (registered c s) (choose_format c s) p")
    case True
    obtain x where "response (fold dispatch ps s1) = Some x"
      using aw True by (rule fold_dispatch_answered) blast
    then have "response s2 = Some x" using d by (auto simp: dispatched_def)
    then show ?thesis using run parked_response_answers by blast
  next
    case False
    from fold_dispatch_unanswered [OF aw this] have "pending (correlator s2) = Some (registered c s)"
      using d by (auto simp: dispatched_def awaiting_def)
    then have "send_command ops' c' s2 = (Inl (SequenceMismatch (next_seq (correlator s))), s2)"
      using assms(5) v by (simp add: send_command_busy registered_def)
    then show ?thesis using run by (simp add: run_command_not_sent)
  qed
qed

lemma transport_error_spoils_the_next_command_witness:
  "\<exists>s2. run_command (Suc 0) fake_ops (version_command (Version PREFERRED)) sample_failing =
      (Inl (map_transport (Io ''read'' ''interrupted'')), s2) \<and>
    run_command 7 fake_ops (get_eui64_command GetEui64) s2 = (Inl (SequenceMismatch 0), s2)"
proof -
  let ?c = "version_command (Version PREFERRED)"
  obtain s1 where s1: "send_command fake_ops ?c sample_failing = (Inr (), s1)"
    and p: "\<exists>s2. pump_until (Suc 0) fake_ops answer_arrived s1 = (Inl (map_transport (Io ''read'' ''interrupted'')), None, s2) \<and>
      is_connected (ash s2) \<and> response s2 = None"
    by (simp add: sample_simps sample_failing_def set_fail_next_read_def fake_read_failing)
  then obtain s2 where s2: "pump_until (Suc 0) fake_ops answer_arrived s1 =
      (Inl (map_transport (Io ''read'' ''interrupted'')), None, s2)" "is_connected (ash s2)" "response s2 = None" by blast
  have s: "response sample_failing = None" "next_seq (correlator sample_failing) = 0" "version sample_failing = PREFERRED"
    by (simp_all add: sample_failing_def sample_defs)
  have a: "available (get_eui64_command GetEui64) (version sample_failing)"
    by (simp add: s(3) get_eui64_command_def default_available_def is_supported_def const_defs)
  from transport_error_spoils_the_next_command [OF s1 s(1) s2(1,2) a, of 7 fake_ops] s2(3) show ?thesis
    unfolding s(2) by auto
qed



section \<open>What is logged\<close>

definition redacted :: "bytes \<Rightarrow> log_line" where
  "redacted p = ReceivedRedacted (length p)"

lemma log_awaiting:
  "awaiting q fmt s \<Longrightarrow> carries_key_material (pending_frame_id q) \<Longrightarrow> \<forall>u \<in> set us. \<not> is_answer q fmt u \<Longrightarrow>
   log_lines (fold dispatch us s) = log_lines s @ map redacted us"
proof (induction us arbitrary: s)
  case (Cons u us)
  have aw: "awaiting q fmt (dispatch u s)"
    using dispatch_awaiting [OF Cons.prems(1), of u] Cons.prems(3) by simp
  have "received_line u s = redacted u"
    using Cons.prems(1,2) by (simp add: received_line_def awaited_frame_id_def awaiting_def redacted_def)
  with Cons.IH [OF aw Cons.prems(2)] Cons.prems(3) show ?case by (simp add: dispatch_same)
qed simp

lemma log_idle:
  "pending (correlator s) = None \<Longrightarrow> log_lines (fold dispatch us s) = log_lines s @ map ReceivedFrame us"
  by (induction us arbitrary: s) (simp_all add: dispatch_same dispatch_idle received_line_def awaited_frame_id_def)

lemma dispatched_log: "dispatched ps s s' \<Longrightarrow> log_lines s' = log_lines (fold dispatch ps s)"
  by (auto simp: dispatched_def)

text \<open>Up to and with the answer everything is redacted; what comes after it is another frame.\<close>

lemma log_dispatched:
  assumes "awaiting q fmt s" "carries_key_material (pending_frame_id q)" "dispatched ps s s'"
  shows "\<exists>us vs. ps = us @ vs \<and> log_lines s' = log_lines s @ map redacted us @ map ReceivedFrame vs \<and>
    (vs \<noteq> [] \<longrightarrow> us \<noteq> [] \<and> is_answer q fmt (last us))"
proof (cases "\<exists>p \<in> set ps. is_answer q fmt p")
  case True
  with assms(1) obtain us p vs f where u: "ps = us @ p # vs" "\<forall>u \<in> set us. \<not> is_answer q fmt u"
    "answer_frame q fmt p f" "awaiting q fmt (fold dispatch us s)" by (rule fold_dispatch_answered)
  have ans: "is_answer q fmt p" using u(3) is_answer_iff by blast
  have "pending (correlator (dispatch p (fold dispatch us s))) = None"
    using dispatch_awaiting [OF u(4), of p] ans by simp
  moreover have "received_line p (fold dispatch us s) = redacted p"
    using u(4) assms(2) by (simp add: received_line_def awaited_frame_id_def awaiting_def redacted_def)
  ultimately have "log_lines s' = log_lines s @ map redacted (us @ [p]) @ map ReceivedFrame vs"
    using u(1) log_awaiting [OF assms(1,2) u(2)] assms(3)
    by (simp add: dispatched_log log_idle dispatch_same)
  with u(1) ans show ?thesis by (intro exI [of _ "us @ [p]"] exI [of _ vs]) simp
next
  case False
  with log_awaiting [OF assms(1,2), of ps] assms(3) show ?thesis
    by (intro exI [of _ ps] exI [of _ "[]"]) (simp add: dispatched_log)
qed

lemma report_no_answer_log:
  "report_no_answer c w s = (r, s') \<Longrightarrow> log_lines s' = log_lines s \<and> heard s' = heard s"
  by (auto simp: report_no_answer_def Let_def split: prod.splits sum.splits if_splits)

lemma await_answer_log:
  assumes "await_answer n ops c s = (res, s')"
  obtains ps s1 where "dispatched ps s s1" "log_lines s' = log_lines s1" "heard s' = heard s1"
proof -
  obtain w r s2 where pu: "pump_until n ops answer_arrived s = (w, r, s2)" by (metis surj_pair)
  from pump_answer [OF this] obtain ps s1 where d: "dispatched ps s s1"
    and c: "case r of Some x \<Rightarrow> w = Inr () \<and> response s1 = Some x \<and> s2 = s1\<lparr>response := None\<rparr> | None \<Rightarrow> s2 = s1"
    by blast
  have "log_lines s' = log_lines s1 \<and> heard s' = heard s1"
  proof (cases r)
    case None
    with assms pu c show ?thesis by (auto simp: await_answer_def dest: report_no_answer_log)
  next
    case (Some x)
    with assms pu have "decode_answer c x s2 = (res, s')" by (simp add: await_answer_def)
    then have "s' = s2" using decode_answer_state [of c x s2] by simp
    with Some c show ?thesis by simp
  qed
  with d that show ?thesis by blast
qed

text \<open>
  C13. The key material of a command is not logged. When a command that carries key material is
  sent from a connection with no response parked, the lines it adds to the log are, whatever its
  result: one line for the request with its length only, a line with the length only for every
  payload received up to the answer and for the answer itself, and in full only the payloads
  received after the answer, which are not part of the exchange.
\<close>

theorem key_material_is_redacted:
  assumes "carries_key_material (command_id c)" "response s = None"
    and "send_command ops c s = (Inr (), s1)" "run_command n ops c s = (res, s')"
  shows "\<exists>len us vs. heard s' = heard s @ us @ vs \<and>
    log_lines s' = log_lines s @ SentRedacted (command_id c) (choose_format c s) len #
      map (\<lambda>p. ReceivedRedacted (length p)) us @ map ReceivedFrame vs \<and>
    (vs \<noteq> [] \<longrightarrow> us \<noteq> [] \<and> is_answer (registered c s) (choose_format c s) (last us))"
proof -
  from send_command_ok [OF assms(3)] obtain bs where
    l1: "log_lines s1 = log_lines s @ [sent_line (command_id c) (choose_format c s) bs]" and h1: "same_inbox s s1"
    by metis
  have aw: "awaiting (registered c s) (choose_format c s) s1"
    using assms(3,2) by (rule send_command_awaiting)
  have km: "carries_key_material (pending_frame_id (registered c s))"
    using assms(1) by (simp add: registered_def)
  have "await_answer n ops c s1 = (res, s')" using assms(3,4) by (simp add: run_command_sent)
  then obtain ps s2 where d: "dispatched ps s1 s2" "log_lines s' = log_lines s2" "heard s' = heard s2"
    by (rule await_answer_log)
  obtain us vs where "ps = us @ vs" "log_lines s2 = log_lines s1 @ map redacted us @ map ReceivedFrame vs"
    "vs \<noteq> [] \<longrightarrow> us \<noteq> [] \<and> is_answer (registered c s) (choose_format c s) (last us)"
    using log_dispatched [OF aw km d(1)] by blast
  with d l1 h1 assms(1) dispatched_same(2) [OF d(1)] show ?thesis
    by (intro exI [of _ "length bs"] exI [of _ us] exI [of _ vs])
      (simp add: sent_line_def same_inbox_def redacted_def [abs_def])
qed

lemma sample_key_info:
  "\<exists>s1 s2 s'. send_command fake_ops (get_network_key_info_command GetNetworkKeyInfo) (sample_ncp []) = (Inr (), s1) \<and>
    pump_until (Suc 0) fake_ops answer_arrived s1 = (Inr (), None, s2) \<and>
    run_command (Suc 0) fake_ops (get_network_key_info_command GetNetworkKeyInfo) (sample_ncp []) =
      (Inl (Timeout ID_GET_NETWORK_KEY_INFO), s')"
  by (simp add: sample_simps run_command_def andthen_def get_network_key_info_command_def get_network_key_info_encode_def
      default_available_def is_supported_def report_no_answer_def time_out_def)

lemma key_info_carries_key_material: "carries_key_material (command_id (get_network_key_info_command GetNetworkKeyInfo))"
  by (simp add: carries_key_material_def get_network_key_info_command_def)

lemma key_material_is_redacted_witness:
  "\<exists>s' len us. run_command (Suc 0) fake_ops (get_network_key_info_command GetNetworkKeyInfo) (sample_ncp []) =
      (Inl (Timeout ID_GET_NETWORK_KEY_INFO), s') \<and>
    log_lines s' = SentRedacted ID_GET_NETWORK_KEY_INFO Extended len # us"
proof -
  let ?c = "get_network_key_info_command GetNetworkKeyInfo" and ?s = "sample_ncp []"
  have r: "response ?s = None" "log_lines ?s = []" "command_id ?c = ID_GET_NETWORK_KEY_INFO" "choose_format ?c ?s = Extended"
    by (simp_all add: sample_defs choose_format_def get_network_key_info_command_def const_defs)
  obtain s1 s' where s1: "send_command fake_ops ?c ?s = (Inr (), s1)"
    and s': "run_command (Suc 0) fake_ops ?c ?s = (Inl (Timeout ID_GET_NETWORK_KEY_INFO), s')"
    using sample_key_info by blast
  from key_material_is_redacted [OF key_info_carries_key_material r(1) s1 s'] s' show ?thesis
    unfolding r by auto
qed

text \<open>
  C39. The redaction ends with the wait: once a command that carries key material has timed out,
  its answer, if it still arrives, is logged in full like any other payload.
\<close>

theorem late_key_material_is_logged:
  assumes "carries_key_material (command_id c)" "response s = None"
    and "send_command ops c s = (Inr (), s1)" "pump_until n ops answer_arrived s1 = (Inr (), None, s2)"
    and "run_command n ops c s = (res, s')"
  shows "log_lines (dispatch p s') = log_lines s' @ [ReceivedFrame p]"
proof -
  have aw: "awaiting (registered c s) (choose_format c s) s1"
    using assms(3,2) by (rule send_command_awaiting)
  have a: "await_answer n ops c s1 = (res, s')" using assms(3,5) by (simp add: run_command_sent)
  have un: "response s2 = None" using assms(4) by (rule pump_answer_unparks)
  have "pending (correlator s') = None"
  proof (cases rule: await_answer_cases [OF aw a])
    case (2 w s3)
    with assms(4) show ?thesis
      by (auto simp: report_no_answer_def awaiting_def time_out_def on_ncp_reset_def Let_def split: if_splits)
  qed (use assms(4) un in auto)
  then show ?thesis using log_idle [of s' "[p]"] by simp
qed

lemma late_key_material_is_logged_witness:
  "\<exists>s'. run_command (Suc 0) fake_ops (get_network_key_info_command GetNetworkKeyInfo) (sample_ncp []) =
      (Inl (Timeout ID_GET_NETWORK_KEY_INFO), s') \<and>
    log_lines (dispatch [0, 0x80, 1, 0x16, 1, 0xde, 0xad] s') = log_lines s' @ [ReceivedFrame [0, 0x80, 1, 0x16, 1, 0xde, 0xad]]"
proof -
  let ?c = "get_network_key_info_command GetNetworkKeyInfo" and ?s = "sample_ncp []"
  have r: "response ?s = None" by (simp add: sample_defs)
  obtain s1 s2 s' where s1: "send_command fake_ops ?c ?s = (Inr (), s1)"
    and s2: "pump_until (Suc 0) fake_ops answer_arrived s1 = (Inr (), None, s2)"
    and s': "run_command (Suc 0) fake_ops ?c ?s = (Inl (Timeout ID_GET_NETWORK_KEY_INFO), s')"
    using sample_key_info by blast
  from late_key_material_is_logged [OF key_info_carries_key_material r s1 s2 s'] s' show ?thesis by blast
qed

section \<open>A reset of the NCP in the middle of a command\<close>

lemma answer_not_yet: "response s = None \<Longrightarrow> answer_arrived s = (\<not> is_connected (ash s), None, s)"
  by (simp add: answer_arrived_def take_response_def)

text \<open>
  C37. An RSTACK in the middle of a command is not reported as a reset. If the NCP restarts while
  a command waits and says so with an RSTACK, the connection is taken to be up again, and the
  command waits for its deadline: the result is \<open>Timeout\<close>, not \<open>NcpReset\<close>, and the negotiated
  version and the header format are kept although the NCP has forgotten them.
\<close>

theorem rstack_during_command_is_a_timeout:
  assumes "send_command ops c s = (Inr (), s1)" "response s = None" "is_connected (ash s1)"
    and "decoder s1 = decoder_new" "t_read ops (transport s1) = (ReadOk (wire_of (RstAck v code)), t1)"
    and "t_read ops t1 = (ReadPending, t2)"
  shows "\<exists>s'. run_command (Suc (Suc n)) ops c s = (Inl (Timeout (command_id c)), s') \<and>
    is_connected (ash s') \<and> in_flight (ash s') = [] \<and> version s' = version s \<and>
    initial_version_sent s' = initial_version_sent s1"
proof -
  let ?a = "(ash s1)\<lparr>state := Connected, next_tx_frame := 0, next_rx_frame := 0, in_flight := [],
     ack_pending := False, nak_pending := False\<rparr>"
  have r: "response s1 = None" and p: "pending (correlator s1) = Some (registered c s)" and v: "version s1 = version s"
    using send_command_ok [OF assms(1)] assms(2) by (auto simp: same_inbox_def)
  have "consume ops (wire_of (RstAck v code)) (s1\<lparr>transport := t1\<rparr>) = (Inr (), s1\<lparr>transport := t1, ash := ?a\<rparr>)"
    using assms(4) by (simp add: consume_wire on_decoded_def on_frame_def write_outbound_def andthen_def)
  then have "pump_until (Suc (Suc n)) ops answer_arrived s1 = (Inr (), None, s1\<lparr>transport := t2, ash := ?a\<rparr>)"
    using assms(3,5,6) r by (simp add: answer_not_yet) (simp add: is_connected_def)
  then show ?thesis
    using assms(1) p v
    by (simp add: run_command_sent await_answer_def report_no_answer_def is_connected_def time_out_def registered_def)
qed

lemma sample_rstack:
  "\<exists>s1. send_command fake_ops (version_command (Version PREFERRED)) (sample_ncp [wire_of (RstAck 2 1)]) = (Inr (), s1) \<and>
    is_connected (ash s1) \<and> decoder s1 = decoder_new \<and> to_read (transport s1) = [wire_of (RstAck 2 1)] \<and>
    fail_next_read (transport s1) = None \<and> \<not> closed (transport s1)"
  by (simp add: sample_simps)

lemma rstack_during_command_is_a_timeout_witness:
  "\<exists>s'. run_command (Suc (Suc 3)) fake_ops (version_command (Version PREFERRED)) (sample_ncp [wire_of (RstAck 2 1)]) =
     (Inl (Timeout ID_VERSION), s') \<and> is_connected (ash s')"
proof -
  let ?c = "version_command (Version PREFERRED)" and ?s = "sample_ncp [wire_of (RstAck 2 1)]"
  obtain s1 where s1: "send_command fake_ops ?c ?s = (Inr (), s1)" "is_connected (ash s1)" "decoder s1 = decoder_new"
    and t: "to_read (transport s1) = [wire_of (RstAck 2 1)]" "fail_next_read (transport s1) = None" "\<not> closed (transport s1)"
    using sample_rstack by blast
  have rd: "t_read fake_ops (transport s1) = (ReadOk (wire_of (RstAck 2 1)), (transport s1)\<lparr>to_read := []\<rparr>)"
    "t_read fake_ops ((transport s1)\<lparr>to_read := []\<rparr>) = (ReadPending, (transport s1)\<lparr>to_read := []\<rparr>)"
    using t by (simp_all add: fake_ops_def fake_read_def)
  have r: "response ?s = None" by (simp add: sample_defs)
  have "command_id ?c = ID_VERSION" by (simp add: version_command_def)
  with rstack_during_command_is_a_timeout [OF s1(1) r s1(2,3) rd, of 3] show ?thesis by auto
qed

end
