(* ===== verification/NcpSession.thy ===== *)
theory NcpSession
  imports NcpCommand
begin

text \<open>
  Sequences of calls on the runtime (\<open>ncp.rs\<close>): the methods as a step relation, what an invariant
  of it has to keep as three locales (the read loop, a session between two resets, the reset),
  and their interpretations: the well-formedness of the whole state, the use of the legacy
  header, the idle state during a reset. On top of them the properties of \<open>negotiate\<close>
  and \<open>connect\<close>.
\<close>


section \<open>The methods of the runtime\<close>

text \<open>
  A caller of the runtime sees the four methods. The value a command returns does not matter for
  the state, so that one command type is enough for the relation between states.
\<close>

definition erase :: "'r command \<Rightarrow> unit command" where
  "erase c = \<lparr>command_id = command_id c, available = available c, params = params c,
     answer = andthen (answer c) (\<lambda>_. ret ())\<rparr>"

lemma erase_simps:
  "command_id (erase c) = command_id c" "available (erase c) = available c"
  "request_bytes (erase c) = request_bytes c" "choose_format (erase c) s = choose_format c s"
  by (simp_all add: erase_def choose_format_def request_bytes_def [abs_def])

lemma send_command_erase [simp]: "send_command ops (erase c) = send_command ops c"
  by (rule ext) (simp only: send_command_def erase_simps)

lemma snd_report_no_answer_erase: "snd (report_no_answer (erase c) w s) = snd (report_no_answer c w s)"
  by (auto simp: report_no_answer_def erase_def Let_def split: prod.split sum.split)

lemma snd_run_command_erase: "snd (run_command n ops (erase c) s) = snd (run_command n ops c s)"
  by (auto simp: run_command_def andthen_def await_answer_def snd_report_no_answer_erase
      split: prod.split sum.split option.split)

datatype ncp_method = CommandCalled | PollCalled | CallbacksTaken | ResetCalled

inductive method_call :: "'t transport_ops \<Rightarrow> ncp_method \<Rightarrow> 't ncp \<Rightarrow> 't ncp \<Rightarrow> bool" for ops where
  command: "run_command n ops (c :: unit command) s = (r, s') \<Longrightarrow> method_call ops CommandCalled s s'"
| poll: "poll n ops s = (r, s') \<Longrightarrow> method_call ops PollCalled s s'"
| callbacks: "take_callbacks s = (cs, s') \<Longrightarrow> method_call ops CallbacksTaken s s'"
| reset: "reset clock ops s = (r, s') \<Longrightarrow> method_call ops ResetCalled s s'"

inductive_simps method_call_simps:
  "method_call ops CommandCalled s s'" "method_call ops PollCalled s s'"
  "method_call ops CallbacksTaken s s'" "method_call ops ResetCalled s s'"

text \<open>A session is any sequence of calls between two resets, a lifetime any sequence of calls.\<close>

definition session :: "'t transport_ops \<Rightarrow> 't ncp \<Rightarrow> 't ncp \<Rightarrow> bool" where
  "session ops = (\<lambda>s s'. \<exists>m. m \<noteq> ResetCalled \<and> method_call ops m s s')\<^sup>*\<^sup>*"

definition lifetime :: "'t transport_ops \<Rightarrow> 't ncp \<Rightarrow> 't ncp \<Rightarrow> bool" where
  "lifetime ops = (\<lambda>s s'. \<exists>m. method_call ops m s s')\<^sup>*\<^sup>*"

lemma command_call: "run_command n ops c s = (r, s') \<Longrightarrow> method_call ops CommandCalled s s'"
  using snd_run_command_erase [of n ops c s] by (intro command [of n ops "erase c" s]) (simp add: prod_eq_iff)

lemma session_command: "run_command n ops c s = (r, s') \<Longrightarrow> session ops s s'"
  unfolding session_def by (rule r_into_rtranclp) (use command_call in blast)

lemma session_lifetime: "session ops s s' \<Longrightarrow> lifetime ops s s'"
  unfolding session_def lifetime_def by (rule rtranclp_mono [THEN predicate2D]) auto

section \<open>Invariants\<close>

text \<open>
  The interface between an invariant and the methods: what the primitive steps have to keep, in
  three layers: the read loop, the methods of a session, and the reset.
\<close>

locale loop_invariant =
  fixes inv :: "'t ncp \<Rightarrow> bool"
  assumes keeps_transport: "inv s \<Longrightarrow> inv (s\<lparr>transport := t\<rparr>)"
    and keeps_frame: "inv s \<Longrightarrow> inv (s\<lparr>ash := snd (on_frame f (ash s))\<rparr>)"
    and keeps_failure: "inv s \<Longrightarrow> inv (s\<lparr>ash := snd (on_decode_failure e (ash s))\<rparr>)"
    and keeps_feed: "inv s \<Longrightarrow> inv (s\<lparr>decoder := snd (feed bs (decoder s))\<rparr>)"
    and keeps_dispatch: "inv s \<Longrightarrow> inv (dispatch p s)"
    and keeps_taken: "inv s \<Longrightarrow> inv (s\<lparr>response := None\<rparr>)"
begin

lemma write_frame_keeps: "write_frame ops f s = (r, s') \<Longrightarrow> inv s \<Longrightarrow> inv s'"
  by (auto dest!: write_frame_link intro: keeps_transport)

lemma write_outbound_keeps: "write_outbound ops out s = (r, s') \<Longrightarrow> inv s \<Longrightarrow> inv s'"
  by (auto simp: write_outbound_def write_frame_keeps split: outbound.splits)

lemma on_decoded_keeps:
  assumes "on_decoded ops d s = (r, s')" "inv s"
  shows "inv s'"
proof (cases d)
  case (Frame f)
  obtain payload out c where o: "on_frame f (ash s) = ((payload, out), c)" by (metis surj_pair)
  obtain r1 s1 where w: "write_outbound ops out (s\<lparr>ash := c\<rparr>) = (r1, s1)" by (metis surj_pair)
  have "inv s1" using write_outbound_keeps [OF w] keeps_frame [OF assms(2), of f] o by simp
  with assms(1) Frame o w show ?thesis
    by (cases r1) (auto simp: on_decoded_def keeps_dispatch split: option.splits)
next
  case (Rejected e)
  with assms keeps_failure [OF assms(2), of e] show ?thesis
    by (auto simp: on_decoded_def dest: write_outbound_keeps split: prod.splits)
qed

lemma on_decoded_all_keeps: "on_decoded_all ops ds s = (r, s') \<Longrightarrow> inv s \<Longrightarrow> inv s'"
proof (induction ds arbitrary: s)
  case (Cons d ds)
  obtain r1 s1 where d: "on_decoded ops d s = (r1, s1)" by (metis surj_pair)
  with Cons show ?case using on_decoded_keeps [OF d] by (cases r1) auto
qed simp

lemma consume_keeps: "consume ops bs s = (r, s') \<Longrightarrow> inv s \<Longrightarrow> inv s'"
  using keeps_feed [of s bs] by (auto simp: consume_def dest: on_decoded_all_keeps split: prod.splits)

lemma pump_keeps:
  assumes stop: "\<And>s. inv s \<Longrightarrow> inv (snd (snd (stop s)))"
  shows "pump_until n ops stop s = (w, x, s') \<Longrightarrow> inv s \<Longrightarrow> inv s'"
proof (induction n arbitrary: s)
  case 0
  then show ?case using stop [of s] by (auto split: prod.splits)
next
  case (Suc n)
  obtain b y s1 where st: "stop s = (b, y, s1)" by (metis surj_pair)
  have s1: "inv s1" using stop [OF Suc.prems(2)] st by simp
  obtain rr t where rd: "t_read ops (transport s1) = (rr, t)" by (metis surj_pair)
  have t: "inv (s1\<lparr>transport := t\<rparr>)" using s1 by (rule keeps_transport)
  show ?case
  proof (cases rr)
    case (ReadOk bs)
    obtain q s2 where c: "consume ops bs (s1\<lparr>transport := t\<rparr>) = (q, s2)" by (metis surj_pair)
    have "inv s2" using consume_keeps [OF c t] .
    with Suc st rd ReadOk c s1 show ?thesis by (auto split: if_splits sum.splits)
  qed (use Suc.prems st rd s1 t in \<open>auto split: if_splits\<close>)
qed

lemma pump_answer_keeps: "pump_until n ops answer_arrived s = (w, x, s') \<Longrightarrow> inv s \<Longrightarrow> inv s'"
  by (rule pump_keeps) (auto simp: answer_arrived_def take_response_def keeps_taken)

lemma pump_looking_keeps: "pump_until n ops (\<lambda>s. (P s, (), s)) s = (w, x, s') \<Longrightarrow> inv s \<Longrightarrow> inv s'"
  by (rule pump_keeps) auto

end

locale session_invariant = loop_invariant inv for inv :: "'t ncp \<Rightarrow> bool" +
  fixes ops :: "'t transport_ops"
  assumes keeps_send: "send_command ops (c :: unit command) s = (r, s') \<Longrightarrow> inv s \<Longrightarrow> inv s'"
    and keeps_time_out: "inv s \<Longrightarrow> inv (s\<lparr>correlator := snd (time_out (correlator s))\<rparr>)"
    and keeps_reset_seen: "inv s \<Longrightarrow> inv (s\<lparr>correlator := snd (on_ncp_reset (correlator s))\<rparr>)"
    and keeps_callbacks: "inv s \<Longrightarrow> inv (s\<lparr>callbacks := []\<rparr>)"
begin

lemma report_no_answer_keeps: "report_no_answer c w s = (r, s') \<Longrightarrow> inv s \<Longrightarrow> inv s'"
  using keeps_time_out keeps_reset_seen
  by (fastforce simp: report_no_answer_def Let_def split: prod.splits sum.splits if_splits)

lemma run_command_keeps:
  assumes "run_command n ops (c :: unit command) s = (r, s')" "inv s"
  shows "inv s'"
proof -
  obtain q s1 where sc: "send_command ops c s = (q, s1)" by (metis surj_pair)
  have s1: "inv s1" using keeps_send [OF sc assms(2)] .
  obtain w x s2 where pu: "pump_until n ops answer_arrived s1 = (w, x, s2)" by (metis surj_pair)
  have s2: "inv s2" using pump_answer_keeps [OF pu s1] .
  show ?thesis
  proof (cases q)
    case (Inl e)
    with assms(1) sc s1 show ?thesis by (simp add: run_command_not_sent)
  next
    case (Inr u)
    with assms(1) sc pu have "(case x of Some ps \<Rightarrow> decode_answer c ps s2 | None \<Rightarrow> report_no_answer c w s2) = (r, s')"
      by (simp add: run_command_sent await_answer_def)
    note e = this
    show ?thesis
    proof (cases x)
      case None
      with e s2 show ?thesis using report_no_answer_keeps [of c w s2 r s'] by simp
    next
      case (Some ps)
      with e decode_answer_state [of c ps s2] s2 show ?thesis by simp
    qed
  qed
qed

lemma session_call_keeps: "method_call ops m s s' \<Longrightarrow> m \<noteq> ResetCalled \<Longrightarrow> inv s \<Longrightarrow> inv s'"
proof (induction rule: method_call.induct)
  case (command n c s r s')
  then show ?case using run_command_keeps by blast
next
  case (poll n s r s')
  then show ?case
    using keeps_callbacks pump_looking_keeps [of n ops "\<lambda>s. callbacks s \<noteq> []" s]
    by (auto simp: poll_def take_callbacks_def split: prod.splits sum.splits)
next
  case (callbacks s cs s')
  then show ?case by (auto simp: take_callbacks_def keeps_callbacks)
qed simp

lemma session_keeps: "session ops s s' \<Longrightarrow> inv s \<Longrightarrow> inv s'"
  unfolding session_def by (induction rule: rtranclp_induct) (use session_call_keeps in blast)+

end

text \<open>One attempt of the reset.\<close>

lemma reset_attempt_nothing:
  assumes "begin_reset (ash s) = (Nothing, a)"
  shows "reset_attempts (Suc k) clock ops s =
    (Inl (Ash ResetFailed), s\<lparr>decoder := decoder_reset (decoder s), ash := a\<rparr>)"
  using assms by simp

lemma reset_attempt_unwritten:
  assumes "begin_reset (ash s) = (Send rst, a)"
    and "write_frame ops rst (s\<lparr>decoder := decoder_reset (decoder s), ash := a\<rparr>) = (Inl e, s3)"
  shows "reset_attempts (Suc k) clock ops s = (Inl e, s3)"
  using assms by simp

lemma reset_attempt_waits:
  assumes "begin_reset (ash s) = (Send rst, a)"
    and "write_frame ops rst (s\<lparr>decoder := decoder_reset (decoder s), ash := a\<rparr>) = (Inr u, s3)"
    and "pump_until (clock k) ops (\<lambda>s. (is_connected (ash s), (), s)) s3 = (w, x, s4)"
  shows "reset_attempts (Suc k) clock ops s =
    (if w = Inr () \<and> is_connected (ash s4)
     then (Inr (), s4\<lparr>correlator := correlator_new, initial_version_sent := False\<rparr>)
     else reset_attempts k clock ops s4)"
  using assms by simp

locale reset_invariant = loop_invariant inv for inv :: "'t ncp \<Rightarrow> bool" +
  fixes ops :: "'t transport_ops"
  assumes keeps_decoder_reset: "inv s \<Longrightarrow> inv (s\<lparr>decoder := decoder_reset (decoder s)\<rparr>)"
    and keeps_begin_reset: "inv s \<Longrightarrow> inv (s\<lparr>ash := snd (begin_reset (ash s))\<rparr>)"
    and keeps_fresh: "inv s \<Longrightarrow> inv (s\<lparr>correlator := correlator_new, initial_version_sent := False\<rparr>)"
begin

lemma reset_attempts_keeps: "reset_attempts k clock ops s = (r, s') \<Longrightarrow> inv s \<Longrightarrow> inv s'"
proof (induction k arbitrary: s)
  case (Suc k)
  let ?s1 = "s\<lparr>decoder := decoder_reset (decoder s)\<rparr>"
  obtain out a where b: "begin_reset (ash s) = (out, a)" by (metis surj_pair)
  have s2: "inv (?s1\<lparr>ash := a\<rparr>)"
    using keeps_begin_reset [OF keeps_decoder_reset [OF Suc.prems(2)]] b by simp
  show ?case
  proof (cases out)
    case Nothing
    with Suc.prems(1) b s2 reset_attempt_nothing [of s a k clock ops] show ?thesis
      by (simp del: reset_attempts.simps)
  next
    case (Send rst)
    obtain q s3 where w: "write_frame ops rst (?s1\<lparr>ash := a\<rparr>) = (q, s3)" by (metis surj_pair)
    have s3: "inv s3" using write_frame_keeps [OF w s2] .
    obtain wa x s4 where pu: "pump_until (clock k) ops (\<lambda>s. (is_connected (ash s), (), s)) s3 = (wa, x, s4)"
      by (rule prod_cases3)
    have "inv s4" using pump_looking_keeps [OF pu s3] .
    note s4 = this
    show ?thesis
    proof (cases q)
      case (Inl e)
      with b Send w have "reset_attempts (Suc k) clock ops s = (Inl e, s3)"
        by (intro reset_attempt_unwritten [of s rst a]) auto
      with Suc.prems(1) s3 show ?thesis by (simp del: reset_attempts.simps)
    next
      case (Inr u)
      with b Send w have e: "reset_attempts (Suc k) clock ops s =
          (if wa = Inr () \<and> is_connected (ash s4)
           then (Inr (), s4\<lparr>correlator := correlator_new, initial_version_sent := False\<rparr>)
           else reset_attempts k clock ops s4)"
        by (intro reset_attempt_waits [of s rst a ops u s3 clock k wa x s4]) (auto simp: pu)
      show ?thesis
      proof (cases "wa = Inr () \<and> is_connected (ash s4)")
        case True
        with Suc.prems(1) e have "s' = s4\<lparr>correlator := correlator_new, initial_version_sent := False\<rparr>"
          by (simp del: reset_attempts.simps)
        with s4 show ?thesis by (simp add: keeps_fresh)
      next
        case False
        with Suc.prems(1) e have "reset_attempts k clock ops s4 = (r, s')"
          by (simp del: reset_attempts.simps)
        then show ?thesis using Suc.IH s4 by blast
      qed
    qed
  qed
qed simp

end

locale lifetime_invariant = session_invariant inv ops + reset_invariant inv ops
  for inv :: "'t ncp \<Rightarrow> bool" and ops :: "'t transport_ops"
begin

lemma lifetime_keeps: "lifetime ops s s' \<Longrightarrow> inv s \<Longrightarrow> inv s'"
  unfolding lifetime_def
proof (induction rule: rtranclp_induct)
  case (step s1 s2)
  then obtain m where m: "method_call ops m s1 s2" by blast
  show ?case
  proof (cases "m = ResetCalled")
    case True
    with m step show ?thesis by (auto simp: method_call_simps reset_def dest: reset_attempts_keeps)
  next
    case False
    with m step session_call_keeps show ?thesis by blast
  qed
qed

end


section \<open>Well-formed states\<close>

text \<open>
  The ASH connection is well formed, the decoder's buffer is bounded, and while a command is
  outstanding the header format of its answer is known.
\<close>

definition wf_ncp :: "'t ncp \<Rightarrow> bool" where
  "wf_ncp s \<longleftrightarrow> wf_connection (ash s) \<and> length (partial (decoder s)) \<le> MAX_FRAME_WITH_CRC \<and>
     (pending (correlator s) \<noteq> None \<longrightarrow> pending_format s \<noteq> None)"

lemma wf_ncp_start: "wf_ncp (ncp_start t)"
  by (simp add: wf_ncp_def ncp_start_def wf_connection_new decoder_new_def correlator_new_def)

lemma dispatch_link_state: "ash (dispatch p s) = ash s" "decoder (dispatch p s) = decoder s"
  by (simp_all add: dispatch_def Let_def split: sum.split prod.split classified.split option.split)

lemma wf_dispatch: "wf_ncp s \<Longrightarrow> wf_ncp (dispatch p s)"
  by (auto simp: wf_ncp_def dispatch_link_state)
    (auto simp: dispatch_def Let_def classify_def count_stale_def
      split: sum.splits prod.splits classified.splits option.splits if_splits)

lemma wf_send_command:
  assumes "send_command ops c s = (r, s')" "wf_ncp s"
  shows "wf_ncp s'"
proof (cases "available c (version s) \<and> pending (correlator s) = None")
  case False
  with assms show ?thesis
    by (cases "available c (version s)"; cases "pending (correlator s)")
      (simp_all add: send_command_refused send_command_busy)
next
  case True
  with send_command_registers [OF _ _ assms(1)] have p: "pending_format s' \<noteq> None" "decoder s' = decoder s"
    by (auto simp: same_inbox_def)
  have "wf_connection (ash s')"
    using assms True wf_send_data [of "ash s"]
    by (auto simp: send_command_def begin_command_def Let_def wf_ncp_def
        split: sum.splits prod.splits if_splits dest!: write_frame_link; metis snd_conv)
  with p assms(2) show ?thesis by (simp add: wf_ncp_def)
qed

interpretation wf: lifetime_invariant wf_ncp ops for ops :: "'t transport_ops"
proof
  fix s :: "'t ncp" and f e bs p
  assume w: "wf_ncp s"
  show "wf_ncp (s\<lparr>ash := snd (on_frame f (ash s))\<rparr>)" using w by (simp add: wf_ncp_def wf_on_frame)
  show "wf_ncp (s\<lparr>ash := snd (on_decode_failure e (ash s))\<rparr>)" using w by (simp add: wf_ncp_def wf_on_decode_failure)
  show "wf_ncp (s\<lparr>decoder := snd (feed bs (decoder s))\<rparr>)" using w by (simp add: wf_ncp_def feed_bounded)
  show "wf_ncp (dispatch p s)" using w by (rule wf_dispatch)
  show "wf_ncp (s\<lparr>correlator := snd (time_out (correlator s))\<rparr>)"
    using w by (simp add: wf_ncp_def time_out_def split: option.split)
  show "wf_ncp (s\<lparr>correlator := snd (on_ncp_reset (correlator s))\<rparr>)"
    using w by (simp add: wf_ncp_def on_ncp_reset_def Let_def split: option.split)
  show "wf_ncp (s\<lparr>decoder := decoder_reset (decoder s)\<rparr>)"
    using w by (simp add: wf_ncp_def decoder_reset_new decoder_new_def)
  show "wf_ncp (s\<lparr>ash := snd (begin_reset (ash s))\<rparr>)" using w by (simp add: wf_ncp_def wf_begin_reset)
  show "wf_ncp (s\<lparr>correlator := correlator_new, initial_version_sent := False\<rparr>)"
    using w by (simp add: wf_ncp_def correlator_new_def)
qed (erule (1) wf_send_command | simp add: wf_ncp_def)+

text \<open>
  C12. Every state a caller can bring the runtime into is well formed. From a new connection,
  through any sequence of commands, polls, taken callbacks and resets, on any transport and with
  any deadlines, errors included: the window holds at most seven frames with consecutive numbers
  that end before the next to send, resends and reset attempts are within their limits, the
  decoder holds at most one frame with its checksum, and an outstanding command always has a
  recorded header format.
\<close>

theorem runtime_stays_well_formed: "lifetime ops (ncp_start t) s \<Longrightarrow> wf_ncp s"
  by (rule wf.lifetime_keeps [OF _ wf_ncp_start])


section \<open>The legacy header\<close>

definition legacy_line :: "log_line \<Rightarrow> bool" where
  "legacy_line l \<longleftrightarrow> (case l of SentFrame _ h _ \<Rightarrow> h = Legacy | SentRedacted _ h _ \<Rightarrow> h = Legacy | _ \<Rightarrow> False)"

definition legacy_count :: "'t ncp \<Rightarrow> nat" where
  "legacy_count s = length (filter legacy_line (log_lines s))"

text \<open>How many legacy frames the session can have sent when it ends.\<close>

definition legacy_bound :: "'t ncp \<Rightarrow> nat" where
  "legacy_bound s = legacy_count s + (if initial_version_sent s then 0 else 1)"

definition legacy_only_version :: "nat \<Rightarrow> log_line set \<Rightarrow> 't ncp \<Rightarrow> bool" where
  "legacy_only_version k before s \<longleftrightarrow> legacy_bound s \<le> k \<and>
     (\<forall>l \<in> set (log_lines s). legacy_line l \<longrightarrow> l \<in> before \<or> (\<exists>bs. l = SentFrame ID_VERSION Legacy bs))"

lemma received_not_legacy [simp]: "\<not> legacy_line (received_line p s)"
  by (simp add: received_line_def legacy_line_def split: option.split)

lemma version_carries_no_key [simp]: "\<not> carries_key_material ID_VERSION"
  by (simp add: carries_key_material_def const_defs)

lemma send_command_log:
  assumes "send_command ops c s = (r, s')"
  shows "(log_lines s' = log_lines s \<and> initial_version_sent s' = initial_version_sent s) \<or>
    (\<exists>bs. log_lines s' = log_lines s @ [sent_line (command_id c) (choose_format c s) bs] \<and>
      (initial_version_sent s' \<longleftrightarrow> initial_version_sent s \<or> choose_format c s = Legacy))"
  using assms
  by (auto simp: send_command_def Let_def split: if_splits sum.splits prod.splits dest!: write_frame_link)

lemma legacy_send:
  assumes "send_command ops c s = (r, s')" "legacy_only_version k before s"
  shows "legacy_only_version k before s'"
proof -
  have f: "choose_format c s = Legacy \<longleftrightarrow> command_id c = ID_VERSION \<and> \<not> initial_version_sent s"
    by (simp add: choose_format_def)
  have l: "legacy_line (sent_line (command_id c) (choose_format c s) bs) \<longleftrightarrow> choose_format c s = Legacy" for bs
    by (simp add: sent_line_def legacy_line_def)
  consider "log_lines s' = log_lines s" "initial_version_sent s' = initial_version_sent s"
    | bs where "log_lines s' = log_lines s @ [sent_line (command_id c) (choose_format c s) bs]"
      "initial_version_sent s' \<longleftrightarrow> initial_version_sent s \<or> choose_format c s = Legacy"
    using send_command_log [OF assms(1)] by blast
  then show ?thesis
  proof cases
    case 1
    with assms(2) show ?thesis by (simp add: legacy_only_version_def legacy_bound_def legacy_count_def)
  next
    case 2
    with assms(2) f l show ?thesis
      by (auto simp: legacy_only_version_def legacy_bound_def legacy_count_def sent_line_def)
  qed
qed

interpretation legacy: session_invariant "legacy_only_version k before" ops
  for k before and ops :: "'t transport_ops"
proof
  fix s :: "'t ncp" and p
  assume "legacy_only_version k before s"
  then show "legacy_only_version k before (dispatch p s)"
    by (auto simp: legacy_only_version_def legacy_bound_def legacy_count_def dispatch_same)
qed (erule (1) legacy_send | simp add: legacy_only_version_def legacy_bound_def legacy_count_def)+

text \<open>
  C19. The legacy header is used at most once between two resets, and only for \<open>version\<close>: in any
  sequence of commands, polls and taken callbacks, the runtime sends at most one request with
  the legacy header, none when the bootstrap \<open>version\<close> had been sent before, and every request
  it sends with that header is a \<open>version\<close> command.
\<close>

theorem legacy_header_once_per_session:
  assumes "session ops s s'"
  shows "legacy_count s' \<le> legacy_count s + (if initial_version_sent s then 0 else 1) \<and>
    (\<forall>l \<in> set (log_lines s'). legacy_line l \<longrightarrow> l \<in> set (log_lines s) \<or> (\<exists>bs. l = SentFrame ID_VERSION Legacy bs))"
proof -
  have "legacy_only_version (legacy_bound s) (set (log_lines s)) s" by (simp add: legacy_only_version_def)
  from legacy.session_keeps [OF assms this] show ?thesis
    by (simp add: legacy_only_version_def legacy_bound_def)
qed


lemma runtime_stays_well_formed_witness:
  "wf_ncp (snd (run_command 3 fake_ops (version_command (Version PREFERRED)) (ncp_start (fake_with_chunks []))))"
proof -
  obtain r s where "run_command 3 fake_ops (version_command (Version PREFERRED)) (ncp_start (fake_with_chunks [])) = (r, s)"
    by (metis surj_pair)
  with runtime_stays_well_formed [OF session_lifetime [OF session_command [OF this]]] show ?thesis by simp
qed

lemma legacy_header_once_per_session_witness:
  "legacy_count (snd (run_command 3 fake_ops (version_command (Version PREFERRED)) (sample_ncp []))) \<le> 1"
proof -
  obtain r s where s: "run_command 3 fake_ops (version_command (Version PREFERRED)) (sample_ncp []) = (r, s)"
    by (metis surj_pair)
  have "legacy_count (sample_ncp []) = 0" by (simp add: legacy_count_def sample_defs)
  with legacy_header_once_per_session [OF session_command [OF s]] s show ?thesis by (auto split: if_splits)
qed

section \<open>Reset\<close>

definition idle_since :: "protocol_version \<Rightarrow> bytes list \<Rightarrow> 't ncp \<Rightarrow> bool" where
  "idle_since v h s \<longleftrightarrow> pending (correlator s) = None \<and> response s = None \<and> version s = v \<and> prefix h (heard s)"

interpretation idle: reset_invariant "idle_since v h" ops for v h and ops :: "'t transport_ops"
proof
  fix s :: "'t ncp" and p
  assume "idle_since v h s"
  then show "idle_since v h (dispatch p s)" by (auto simp: idle_since_def dispatch_idle dispatch_same prefix_def)
qed (simp_all add: idle_since_def correlator_new_def)

lemma reset_attempts_connected:
  "reset_attempts k clock ops s = (Inr u, s') \<Longrightarrow>
   is_connected (ash s') \<and> correlator s' = correlator_new \<and> \<not> initial_version_sent s'"
proof (induction k arbitrary: s)
  case (Suc k)
  obtain out a where b: "begin_reset (ash s) = (out, a)" by (metis surj_pair)
  then obtain rst where o: "out = Send rst"
    using Suc.prems reset_attempt_nothing [of s a k clock ops] by (cases out) (auto simp del: reset_attempts.simps)
  obtain q s3 where w: "write_frame ops rst (s\<lparr>decoder := decoder_reset (decoder s), ash := a\<rparr>) = (q, s3)"
    by (metis surj_pair)
  then obtain u' where q: "q = Inr u'"
    using Suc.prems reset_attempt_unwritten [OF b [unfolded o]] by (cases q) (auto simp del: reset_attempts.simps)
  obtain wa x s4 where pu: "pump_until (clock k) ops (\<lambda>s. (is_connected (ash s), (), s)) s3 = (wa, x, s4)"
    by (rule prod_cases3)
  note e = reset_attempt_waits [of s rst a ops u' s3 clock k wa x s4, OF b [unfolded o] w [unfolded q] pu]
  show ?case
  proof (cases "wa = Inr () \<and> is_connected (ash s4)")
    case True
    with Suc.prems e have "s' = s4\<lparr>correlator := correlator_new, initial_version_sent := False\<rparr>"
      by (simp del: reset_attempts.simps)
    with True show ?thesis by simp
  next
    case False
    with Suc.prems e have "reset_attempts k clock ops s4 = (Inr u, s')" by (simp del: reset_attempts.simps)
    then show ?thesis using Suc.IH by blast
  qed
qed simp

text \<open>A connection from a new runtime: idle, with the version it will offer.\<close>

lemma reset_start:
  assumes "reset clock ops (ncp_start t) = (r, s)"
  shows "pending (correlator s) = None \<and> response s = None \<and> version s = PREFERRED"
proof -
  have "idle_since PREFERRED [] (ncp_start t)" by (simp add: idle_since_def ncp_start_def correlator_new_def)
  with idle.reset_attempts_keeps [of _ clock ops] assms have "idle_since PREFERRED [] s"
    unfolding reset_def by blast
  then show ?thesis by (simp add: idle_since_def)
qed

section \<open>Negotiation\<close>

text \<open>\<open>version_reply h v\<close>: among the payloads \<open>h\<close> there is a response to \<open>version\<close> that says \<open>v\<close>.\<close>

definition version_reply :: "bytes list \<Rightarrow> version_response \<Rightarrow> bool" where
  "version_reply h v \<longleftrightarrow> (\<exists>p fmt f r. p \<in> set h \<and> parse p fmt = Inr f \<and> frame_id f = ID_VERSION \<and>
     direction (frame_control f) = Response \<and> \<not> is_callback (frame_control f) \<and>
     version_response_decode (reader_new (parameters f) PREFERRED) = (Inr v, r) \<and> reader_is_empty r)"

lemma version_command_reply:
  assumes "run_command n ops (version_command (Version w)) s = (Inr v, s')" "response s = None" "version s = PREFERRED"
  shows "version_reply (heard s') v \<and> response s' = None \<and> version s' = PREFERRED \<and> prefix (heard s) (heard s') \<and>
    pending (correlator s') = None"
proof -
  obtain s1 us p vs f s2 where c: "send_command ops (version_command (Version w)) s = (Inr (), s1)"
    "heard s' = heard s @ us @ p # vs"
    "answer_frame (registered (version_command (Version w)) s) (choose_format (version_command (Version w)) s) p f"
    "dispatched (us @ p # vs) s1 s2" "pending (correlator s') = None" "response s' = None"
    "s' = s2\<lparr>response := None\<rparr>"
    "\<exists>r. answer (version_command (Version w)) (reader_new (parameters f) (version s)) = (Inr v, r) \<and> reader_is_empty r"
    using assms(1,2) by (rule command_answered)
  have "version s' = PREFERRED"
    using c(1,4,7) assms(3) dispatched_same(1) [OF c(4)] send_command_ok [OF c(1)] by (auto simp: same_inbox_def)
  moreover have "version_reply (heard s') v"
    using c(2,3,8) assms(3) unfolding version_reply_def answer_frame_def registered_def
    by (auto simp: version_command_def intro!: exI [of _ p])
  ultimately show ?thesis using c(2,5,6) by (simp add: prefix_def)
qed


lemma negotiate_Inr:
  assumes "negotiate n1 n2 ops s = (Inr v, s')" "response s = None" "version s = PREFERRED"
  shows "is_supported (protocol_version v) \<and> pending (correlator s') = None \<and> response s' = None \<and>
    (\<exists>first. version_reply (heard s') first \<and> version_reply (heard s') v \<and> stack_type first = STACK_TYPE_MESH \<and>
      protocol_version first = protocol_version v \<and> (protocol_version v = PREFERRED \<longrightarrow> v = first))"
proof -
  obtain first s1 where 1: "run_command n1 ops (version_command (Version PREFERRED)) s = (Inr first, s1)"
    and rest: "(if stack_type first \<noteq> STACK_TYPE_MESH then throw (UnsupportedVersion (protocol_version first))
       else if \<not> is_supported (protocol_version first) then throw (UnsupportedVersion (protocol_version first))
       else if protocol_version first = PREFERRED then ret first
       else (let agreed = protocol_version first in
          andthen (run_command n2 ops (version_command (Version agreed))) (\<lambda>second.
            if protocol_version second \<noteq> agreed then throw (UnsupportedVersion (protocol_version second))
            else ret second))) s1 = (Inr v, s')"
    using assms(1) unfolding negotiate_def andthen_eq_Inr by blast
  note r1 = version_command_reply [OF 1 assms(2,3)]
  have mesh: "stack_type first = STACK_TYPE_MESH" and sup: "is_supported (protocol_version first)"
    using rest by (auto split: if_splits)
  show ?thesis
  proof (cases "protocol_version first = PREFERRED")
    case True
    with rest mesh sup have "v = first" "s' = s1" by (auto split: if_splits)
    with r1 mesh sup show ?thesis by auto
  next
    case False
    with rest mesh sup have "andthen (run_command n2 ops (version_command (Version (protocol_version first)))) (\<lambda>second.
        if protocol_version second \<noteq> protocol_version first then throw (UnsupportedVersion (protocol_version second))
        else ret second) s1 = (Inr v, s')"
      by (simp add: Let_def)
    then have 2: "run_command n2 ops (version_command (Version (protocol_version first))) s1 = (Inr v, s')"
      and eq: "protocol_version v = protocol_version first"
      by (auto simp: andthen_eq_Inr split: if_splits)
    have r2: "version_reply (heard s') v \<and> response s' = None \<and> version s' = PREFERRED \<and>
        prefix (heard s1) (heard s') \<and> pending (correlator s') = None"
      by (rule version_command_reply [OF 2]) (use r1 in simp_all)
    then have "set (heard s1) \<subseteq> set (heard s')" by (auto simp: prefix_def)
    with r1 have "version_reply (heard s') first" unfolding version_reply_def by blast
    with r2 mesh sup eq False show ?thesis by auto
  qed
qed

text \<open>
  C5. A connection that comes up speaks a version this host knows and the NCP reported. When
  \<open>connect\<close> succeeds, the version in use is one of the supported ones; the NCP said in a response
  to \<open>version\<close> that it runs it, on a mesh stack, and the reported firmware version is that of the
  response that completed the negotiation, which is the first one when the NCP runs the version
  offered. Nothing is outstanding and no response is parked when the first command is sent.
\<close>

theorem connect_agrees_on_a_version:
  assumes "connect clock n1 n2 ops t = Inr s"
  shows "is_supported (version s) \<and> pending (correlator s) = None \<and> response s = None \<and>
    (\<exists>first v. version_reply (heard s) first \<and> version_reply (heard s) v \<and> stack_type first = STACK_TYPE_MESH \<and>
      protocol_version first = version s \<and> protocol_version v = version s \<and> stack_version v = ncp_stack_version s \<and>
      (version s = PREFERRED \<longrightarrow> v = first))"
proof -
  obtain v s2 where c: "andthen (reset clock ops) (\<lambda>_. negotiate n1 n2 ops) (ncp_start t) = (Inr v, s2)"
    and s: "s = s2\<lparr>version := protocol_version v, ncp_stack_version := stack_version v\<rparr>"
    using assms by (auto simp: connect_def split: prod.splits sum.splits)
  then obtain u s1 where r: "reset clock ops (ncp_start t) = (Inr u, s1)" and n: "negotiate n1 n2 ops s1 = (Inr v, s2)"
    by (auto simp: andthen_eq_Inr)
  have "is_supported (protocol_version v) \<and> pending (correlator s2) = None \<and> response s2 = None \<and>
    (\<exists>first. version_reply (heard s2) first \<and> version_reply (heard s2) v \<and> stack_type first = STACK_TYPE_MESH \<and>
      protocol_version first = protocol_version v \<and> (protocol_version v = PREFERRED \<longrightarrow> v = first))"
    by (rule negotiate_Inr [OF n]) (use reset_start [OF r] in simp_all)
  with s show ?thesis by auto
qed

lemma reset_five: "reset clock ops = reset_attempts (Suc (Suc (Suc (Suc (Suc 0))))) clock ops"
proof -
  have "unat MAX_RESET_ATTEMPTS = 5" by (simp add: const_defs)
  then show ?thesis by (simp add: reset_def eval_nat_numeral del: reset_attempts.simps)
qed

lemma sample_connect:
  "\<exists>s. connect (\<lambda>_. Suc 0) (Suc 0) (Suc 0) fake_ops
     (fake_with_chunks [wire_of (RstAck 2 1), wire_of (Data 0 1 False [0, 0x80, 0, 0x13, 2, 0x40, 0x74])]) = Inr s"
  using reader_used_up [of "[0x13, 2, 0x40, 0x74]" "ProtocolVersion 0x13"]
  by (simp add: connect_def reset_five negotiate_def run_command_def andthen_def sample_simps begin_reset_def
      decoder_reset_new STACK_TYPE_MESH_def is_supported_def)

lemma connect_agrees_on_a_version_witness:
  "\<exists>s. connect (\<lambda>_. Suc 0) (Suc 0) (Suc 0) fake_ops
     (fake_with_chunks [wire_of (RstAck 2 1), wire_of (Data 0 1 False [0, 0x80, 0, 0x13, 2, 0x40, 0x74])]) = Inr s \<and>
    is_supported (version s) \<and> (\<exists>v. version_reply (heard s) v)"
proof -
  obtain s where s: "connect (\<lambda>_. Suc 0) (Suc 0) (Suc 0) fake_ops
     (fake_with_chunks [wire_of (RstAck 2 1), wire_of (Data 0 1 False [0, 0x80, 0, 0x13, 2, 0x40, 0x74])]) = Inr s"
    using sample_connect by blast
  from connect_agrees_on_a_version [OF s] s show ?thesis by blast
qed

end
