(* ===== verification/NcpWire.thy ===== *)
theory NcpWire
  imports NcpSession
begin

text \<open>
  What the runtime puts on the wire (\<open>ncp.rs\<close>): the reset handshake answered and unanswered, and
  the bytes of a command, for every transport that keeps the laws of \<open>byte_pipe\<close>.
\<close>

section \<open>The reset handshake\<close>

lemma feed_cancelled:
  assumes "FLAG \<notin> set junk" "wf_frame f"
  shows "feed (junk @ CANCEL # wire_of f) decoder_new = ([Frame f], decoder_new)"
proof -
  have "push CANCEL d = (None, decoder_new)" for d
    by (simp add: push_def decoder_reset_new const_defs)
  with feed_wire [OF assms(2)] have "feed (CANCEL # wire_of f) d = ([Frame f], decoder_new)" for d
    by simp
  then show ?thesis by (simp add: feed_append feed_segment [OF assms(1)] del: feed.simps)
qed

lemma write_rst: "encode Rst = Inr (wire_of Rst)"
  by (simp add: wire_of_def encode_eq)

lemma reset_answered:
  assumes "\<forall>n. state (ash s) = Resetting n \<longrightarrow> n < MAX_RESET_ATTEMPTS"
    and "t_write ops (wire_of Rst) (transport s) = (Inr u, t1)"
    and "t_read ops t1 = (ReadOk (junk @ CANCEL # wire_of (RstAck v code)), t2)"
    and "FLAG \<notin> set junk" "0 < clock 4"
  shows "reset clock ops s = (Inr (), s\<lparr>transport := t2, decoder := decoder_new,
     ash := connection_new\<lparr>state := Connected\<rparr>, correlator := correlator_new, initial_version_sent := False\<rparr>)"
proof -
  have "fst (begin_reset (ash s)) = Send Rst \<and> \<not> is_connected (snd (begin_reset (ash s)))"
    using assms(1) by (cases "state (ash s)") (auto simp: begin_reset_def is_connected_def const_defs not_le)
  then obtain a where b: "begin_reset (ash s) = (Send Rst, a)" and nc: "\<not> is_connected a"
    by (metis prod.collapse)
  let ?s2 = "s\<lparr>decoder := decoder_reset (decoder s), ash := a\<rparr>"
  let ?s4 = "s\<lparr>transport := t2, decoder := decoder_new, ash := connection_new\<lparr>state := Connected\<rparr>\<rparr>"
  have w: "write_frame ops Rst ?s2 = (Inr u, ?s2\<lparr>transport := t1\<rparr>)"
    using assms(2) by (simp add: write_frame_def write_rst)
  have up: "a\<lparr>state := Connected, next_tx_frame := 0, next_rx_frame := 0, in_flight := [],
      ack_pending := False, nak_pending := False\<rparr> = connection_new\<lparr>state := Connected\<rparr>"
    by (cases a) (simp add: connection_new_def)
  have "consume ops (junk @ CANCEL # wire_of (RstAck v code)) (?s2\<lparr>transport := t2\<rparr>) = (Inr (), ?s4)"
    using feed_cancelled [OF assms(4), of "RstAck v code"]
    by (simp add: consume_def decoder_reset_new andthen_def on_decoded_def on_frame_def write_outbound_def up)
  moreover obtain m where "clock 4 = Suc m" using assms(5) by (cases "clock 4") auto
  moreover have "pump_until m ops (\<lambda>s. (is_connected (ash s), (), s)) ?s4 = (Inr (), (), ?s4)"
    by (cases m) (simp_all add: is_connected_def)
  ultimately have "pump_until (clock 4) ops (\<lambda>s. (is_connected (ash s), (), s)) (?s2\<lparr>transport := t1\<rparr>) = (Inr (), (), ?s4)"
    using nc assms(3) by simp
  moreover have "unat MAX_RESET_ATTEMPTS = Suc 4" by (simp add: const_defs)
  ultimately show ?thesis
    unfolding reset_def using reset_attempt_waits [OF b w, of clock 4 "Inr ()" "()" ?s4]
    by (simp add: is_connected_def del: reset_attempts.simps)
qed

text \<open>
  The handshake succeeds on the first attempt when the NCP answers it: after the RST has
  been written, a read that brings the rest of the interrupted output, the cancel byte and the
  RSTACK is enough. The connection is then up with all numbers zero and nothing in flight, the
  correlator is fresh, so that the next command has sequence number zero, and the next
  \<open>version\<close> will use the legacy header.
\<close>

theorem reset_succeeds_when_answered:
  assumes "\<forall>n. state (ash s) = Resetting n \<longrightarrow> n < MAX_RESET_ATTEMPTS"
    and "t_write ops (wire_of Rst) (transport s) = (Inr u, t1)"
    and "t_read ops t1 = (ReadOk (junk @ CANCEL # wire_of (RstAck v code)), t2)"
    and "FLAG \<notin> set junk" "0 < clock 4"
  shows "reset clock ops s = (Inr (), s\<lparr>transport := t2, decoder := decoder_new,
     ash := connection_new\<lparr>state := Connected\<rparr>, correlator := correlator_new, initial_version_sent := False\<rparr>)"
  using assms by (rule reset_answered)

lemma reset_succeeds_when_answered_witness:
  "\<exists>s'. reset (\<lambda>_. 1) fake_ops (ncp_start (fake_with_chunks [[0x80, ESCAPE] @ CANCEL # wire_of (RstAck 2 1)])) = (Inr (), s') \<and>
    is_connected (ash s')"
proof -
  let ?t = "fake_with_chunks [[0x80, ESCAPE] @ CANCEL # wire_of (RstAck 2 1)]"
  have a: "\<forall>n. state (ash (ncp_start ?t)) = Resetting n \<longrightarrow> n < MAX_RESET_ATTEMPTS"
    by (simp add: ncp_start_def connection_new_def)
  have w: "t_write fake_ops (wire_of Rst) (transport (ncp_start ?t)) = (Inr (), ?t\<lparr>written := wire_of Rst\<rparr>)"
    by (simp add: fake_ops_def fake_write_def ncp_start_def fake_with_chunks_def)
  have r: "t_read fake_ops (?t\<lparr>written := wire_of Rst\<rparr>) =
      (ReadOk ([0x80, ESCAPE] @ CANCEL # wire_of (RstAck 2 1)), ?t\<lparr>written := wire_of Rst, to_read := []\<rparr>)"
    by (simp add: fake_ops_def fake_read_def fake_with_chunks_def)
  have f: "FLAG \<notin> set [0x80, ESCAPE]" by (simp add: const_defs)
  from reset_succeeds_when_answered [OF a w r f, of "\<lambda>_. 1"] show ?thesis
    by (simp add: is_connected_def)
qed

text \<open>A scripted transport that has nothing to say.\<close>

definition silent :: "fake_transport \<Rightarrow> bool" where
  "silent t \<longleftrightarrow> to_read t = [] \<and> fail_next_read t = None \<and> \<not> closed t"

lemma silent_read: "silent t \<Longrightarrow> t_read fake_ops t = (ReadPending, t)"
  by (simp add: silent_def fake_ops_def fake_read_def)

lemma silent_pump:
  assumes "silent (transport s)" "\<not> is_connected (ash s)"
  shows "pump_until m fake_ops (\<lambda>s. (is_connected (ash s), (), s)) s = (Inr (), (), s)"
proof -
  have "s\<lparr>transport := transport s\<rparr> = s" by simp
  with assms show ?thesis by (cases m) (simp_all add: silent_read)
qed

definition after_rst :: "nat \<Rightarrow> connection \<Rightarrow> fake_transport ncp \<Rightarrow> fake_transport ncp" where
  "after_rst k a s = s\<lparr>decoder := decoder_new, ash := a,
     transport := (transport s)\<lparr>written := written (transport s) @ concat (replicate k (wire_of Rst))\<rparr>\<rparr>"

definition resetting :: "u8 \<Rightarrow> connection" where
  "resetting n = connection_new\<lparr>state := Resetting n\<rparr>"

lemma after_rst_facts:
  "silent (transport (after_rst k a s)) = silent (transport s)" "ash (after_rst k a s) = a"
  "after_rst j b (after_rst k a s) = after_rst (k + j) b s" "\<not> is_connected (resetting n)"
  by (simp_all add: after_rst_def silent_def replicate_add resetting_def is_connected_def)

lemma silent_attempt:
  assumes "silent (transport s)" "begin_reset (ash s) = (Send Rst, a)" "\<not> is_connected a"
  shows "reset_attempts (Suc k) clock fake_ops s = reset_attempts k clock fake_ops (after_rst 1 a s)"
proof -
  let ?s3 = "s\<lparr>decoder := decoder_reset (decoder s), ash := a,
    transport := (transport s)\<lparr>written := written (transport s) @ wire_of Rst\<rparr>\<rparr>"
  have w: "write_frame fake_ops Rst (s\<lparr>decoder := decoder_reset (decoder s), ash := a\<rparr>) = (Inr (), ?s3)"
    by (simp add: fake_write_frame)
  have p: "pump_until (clock k) fake_ops (\<lambda>s. (is_connected (ash s), (), s)) ?s3 = (Inr (), (), ?s3)"
    by (rule silent_pump) (use assms in \<open>simp_all add: silent_def\<close>)
  have "?s3 = after_rst 1 a s" by (simp add: after_rst_def decoder_reset_new)
  with reset_attempt_waits [of s Rst a fake_ops "()" ?s3 clock k "Inr ()" "()" ?s3, OF assms(2) w p] assms(3) show ?thesis
    by (simp add: after_rst_facts del: reset_attempts.simps)
qed

lemma begin_reset_resetting:
  "begin_reset (resetting n) =
    (if n < 5 then (Send Rst, resetting (saturating_inc n)) else (Nothing, connection_new\<lparr>state := Failed\<rparr>))"
  by (auto simp: begin_reset_def resetting_def connection_new_def const_defs not_le)

lemma begin_reset_first: "\<forall>n. state c \<noteq> Resetting n \<Longrightarrow> begin_reset c = (Send Rst, resetting 1)"
  by (cases "state c"; cases c) (simp_all add: begin_reset_def resetting_def connection_new_def const_defs saturating_inc_def)

text \<open>
  C33. A reset that ran out of attempts makes the next call of \<open>reset\<close> fail without sending. With
  an NCP that stays silent, the first call writes five RST frames and fails; the second call
  begins with the attempts used up, writes nothing, fails at once with the same error, and
  leaves the connection failed, whatever the deadlines.
\<close>

theorem second_reset_sends_nothing:
  assumes "silent (transport s)" "\<forall>n. state (ash s) \<noteq> Resetting n"
  shows "\<exists>s1 s2. reset clock fake_ops s = (Inl (Ash ResetFailed), s1) \<and>
    written (transport s1) = written (transport s) @ concat (replicate 5 (wire_of Rst)) \<and>
    reset clock' fake_ops s1 = (Inl (Ash ResetFailed), s2) \<and> transport s2 = transport s1 \<and> state (ash s2) = Failed"
proof -
  note step = silent_attempt after_rst_facts begin_reset_resetting saturating_inc_small
  have "reset_attempts (Suc (Suc (Suc (Suc (Suc 0))))) clock fake_ops s =
      reset_attempts 0 clock fake_ops (after_rst (Suc (Suc (Suc (Suc (Suc 0))))) (resetting 5) s)"
    using assms by (simp add: step begin_reset_first del: reset_attempts.simps)
  moreover have "Suc (Suc (Suc (Suc (Suc 0)))) = 5" by simp
  ultimately have "reset clock fake_ops s = reset_attempts 0 clock fake_ops (after_rst 5 (resetting 5) s)"
    by (simp only: reset_five)
  moreover have "reset clock' fake_ops (after_rst 5 (resetting 5) s) =
      (Inl (Ash ResetFailed), after_rst 5 (connection_new\<lparr>state := Failed\<rparr>) s)"
    unfolding reset_five
    by (subst reset_attempt_nothing [where a = "connection_new\<lparr>state := Failed\<rparr>"])
      (simp_all add: step, simp add: after_rst_def decoder_reset_new)
  ultimately show ?thesis by (auto simp: after_rst_def)
qed

lemma second_reset_sends_nothing_witness:
  "\<exists>s1 s2. reset (\<lambda>_. 9) fake_ops (ncp_start (fake_with_chunks [])) = (Inl (Ash ResetFailed), s1) \<and>
    reset (\<lambda>_. 9) fake_ops s1 = (Inl (Ash ResetFailed), s2) \<and> transport s2 = transport s1"
proof -
  let ?s = "ncp_start (fake_with_chunks [])"
  have "silent (transport ?s)" "\<forall>n. state (ash ?s) \<noteq> Resetting n"
    by (simp_all add: ncp_start_def fake_with_chunks_def silent_def connection_new_def)
  from second_reset_sends_nothing [OF this, of "\<lambda>_. 9" "\<lambda>_. 9"] show ?thesis by blast
qed


section \<open>What is written\<close>

text \<open>The frames the read loop may write: acknowledgements, rejections and resent data.\<close>

fun reply_frame :: "ash_frame \<Rightarrow> bool" where
  "reply_frame (Ack _ nr) = (\<not> nr)"
| "reply_frame (Nak _ nr) = (\<not> nr)"
| "reply_frame (Data _ _ rt _) = rt"
| "reply_frame _ = False"

lemma on_frame_reply: "on_frame f c = ((p, Send g), c') \<Longrightarrow> reply_frame g"
  by (cases f) (auto simp: on_frame_def retransmit_oldest_def Let_def split: if_splits prod.splits list.splits)

lemma on_decode_failure_reply: "on_decode_failure e c = (Send g, c') \<Longrightarrow> reply_frame g"
  by (auto simp: on_decode_failure_def split: if_splits)

text \<open>From \<open>s\<close> to \<open>s'\<close> only whole encoded reply frames were written.\<close>

definition wrote :: "('t \<Rightarrow> bytes) \<Rightarrow> 't ncp \<Rightarrow> 't ncp \<Rightarrow> bool" where
  "wrote sent s s' \<longleftrightarrow>
     (\<exists>fs. sent (transport s') = sent (transport s) @ concat (map wire_of fs) \<and> (\<forall>f \<in> set fs. reply_frame f))"

lemma wrote_same: "sent (transport s') = sent (transport s) \<Longrightarrow> wrote sent s s'"
  unfolding wrote_def by (intro exI [of _ "[]"]) simp

lemma wrote_trans:
  assumes "wrote sent s s1" "wrote sent s1 s2"
  shows "wrote sent s s2"
proof -
  obtain fs gs where "sent (transport s1) = sent (transport s) @ concat (map wire_of fs)" "\<forall>f \<in> set fs. reply_frame f"
    "sent (transport s2) = sent (transport s1) @ concat (map wire_of gs)" "\<forall>f \<in> set gs. reply_frame f"
    using assms unfolding wrote_def by blast
  then show ?thesis unfolding wrote_def by (intro exI [of _ "fs @ gs"]) auto
qed

context byte_pipe begin

lemma write_frame_sent:
  assumes "write_frame ops f s = (Inr u, s')"
  shows "sent (transport s') = sent (transport s) @ wire_of f"
proof -
  obtain bs where e: "encode f = Inr bs" using assms by (cases "encode f") (auto simp: write_frame_def)
  obtain q t where w: "t_write ops bs (transport s) = (q, t)" by (metis surj_pair)
  with assms e obtain u' where "q = Inr u'" "s' = s\<lparr>transport := t\<rparr>"
    by (cases q) (auto simp: write_frame_def)
  with write_ok w e show ?thesis by (simp add: wire_of_def)
qed

lemma on_decoded_wrote:
  assumes "on_decoded ops d s = (Inr u, s')"
  shows "wrote sent s s'"
proof -
  have out: "wrote sent s s2" if "write_outbound ops out (s\<lparr>ash := c\<rparr>) = (Inr x, s2)" "\<And>g. out = Send g \<Longrightarrow> reply_frame g" for out c x s2
  proof (cases out)
    case (Send g)
    with that have "sent (transport s2) = sent (transport s) @ wire_of g" "reply_frame g"
      using write_frame_sent [of g "s\<lparr>ash := c\<rparr>" x s2] by (simp_all add: write_outbound_def)
    then show ?thesis unfolding wrote_def by (intro exI [of _ "[g]"]) simp
  next
    case Nothing
    with that show ?thesis by (intro wrote_same) (auto simp: write_outbound_def)
  qed
  show ?thesis
  proof (cases d)
    case (Frame f)
    obtain p out c where o: "on_frame f (ash s) = ((p, out), c)" by (metis surj_pair)
    with assms Frame obtain x s2 where w: "write_outbound ops out (s\<lparr>ash := c\<rparr>) = (Inr x, s2)"
      and s': "s' = (case p of Some q \<Rightarrow> dispatch q s2 | None \<Rightarrow> s2)"
      by (auto simp: on_decoded_def andthen_eq_Inr)
    have "wrote sent s s2" using out [OF w] o on_frame_reply by blast
    moreover have "transport s' = transport s2"
      using s' by (auto simp: dispatch_def Let_def split: option.split sum.split prod.split classified.split)
    ultimately show ?thesis by (simp add: wrote_def)
  next
    case (Rejected e)
    obtain ou c where o: "on_decode_failure e (ash s) = (ou, c)" by (metis surj_pair)
    with assms Rejected have w: "write_outbound ops ou (s\<lparr>ash := c\<rparr>) = (Inr u, s')" by (simp add: on_decoded_def)
    show ?thesis using out [OF w] o on_decode_failure_reply by blast
  qed
qed

lemma on_decoded_all_wrote: "on_decoded_all ops ds s = (Inr u, s') \<Longrightarrow> wrote sent s s'"
proof (induction ds arbitrary: s)
  case Nil
  then show ?case by (intro wrote_same) simp
next
  case (Cons d ds)
  then obtain x s1 where "on_decoded ops d s = (Inr x, s1)" "on_decoded_all ops ds s1 = (Inr u, s')"
    by (auto simp: andthen_eq_Inr)
  then show ?case using on_decoded_wrote Cons.IH wrote_trans by blast
qed

lemma consume_wrote: "consume ops bs s = (Inr u, s') \<Longrightarrow> wrote sent s s'"
  by (auto simp: consume_def wrote_def dest!: on_decoded_all_wrote split: prod.splits)

lemma pump_wrote:
  assumes stop: "\<And>s. transport (snd (snd (stop s))) = transport s"
  shows "pump_until n ops stop s = (Inr u, x, s') \<Longrightarrow> wrote sent s s'"
proof (induction n arbitrary: s)
  case 0
  then show ?case using stop [of s] by (intro wrote_same) (auto split: prod.splits)
next
  case (Suc n)
  obtain b y s1 where st: "stop s = (b, y, s1)" by (metis surj_pair)
  have tr: "transport s1 = transport s" using stop [of s] st by simp
  obtain rr t where rd: "t_read ops (transport s) = (rr, t)" by (metis surj_pair)
  have same: "sent t = sent (transport s)" using rd by (rule read_silent)
  show ?case
  proof (cases "\<not> b \<and> (\<exists>bs. rr = ReadOk bs)")
    case True
    then obtain bs where b: "\<not> b" "rr = ReadOk bs" by blast
    obtain r s2 where c: "consume ops bs (s1\<lparr>transport := t\<rparr>) = (r, s2)" by (metis surj_pair)
    with Suc.prems st b rd tr obtain v where r: "r = Inr v" and p: "pump_until n ops stop s2 = (Inr u, x, s')"
      by (cases r) auto
    have "wrote sent (s1\<lparr>transport := t\<rparr>) s2" using c r consume_wrote by simp
    then have "wrote sent s s2" using same by (simp add: wrote_def)
    then show ?thesis using Suc.IH [OF p] wrote_trans by blast
  next
    case False
    with Suc.prems st rd tr have "s' = s1 \<or> s' = s1\<lparr>transport := t\<rparr>"
      by (auto split: if_splits read_result.splits)
    with same tr show ?thesis by (intro wrote_same) auto
  qed
qed

end


lemma send_command_writes:
  assumes "byte_pipe ops sent" "send_command ops c s = (Inr u, s')"
  shows "\<exists>w. request_bytes c (next_seq (correlator s)) (choose_format c s) (writer_new (version s)) = (Inr (), w) \<and>
    sent (transport s') = sent (transport s) @
      wire_of (Data (next_tx_frame (ash s)) (next_rx_frame (ash s)) False (writer_bytes w))"
proof -
  obtain bs w where a: "available c (version s)" "pending (correlator s) = None"
    "request_bytes c (next_seq (correlator s)) (choose_format c s) (writer_new (version s)) = (Inr (), w)"
    "bs = writer_bytes w" "length bs \<le> MAX_FRAME_LENGTH"
    using assms(2) by (rule send_command_ok)
  with assms(2) obtain f s3 where f: "fst (send_data bs (ash s)) = Inr f" "write_frame ops f s3 = (Inr u, s')"
    "transport s3 = transport s"
    by (auto simp: send_command_def begin_command_def Let_def split: sum.splits prod.splits if_splits)
  then have "f = Data (next_tx_frame (ash s)) (next_rx_frame (ash s)) False bs"
    by (auto simp: send_data_def Let_def split: if_splits)
  with a f byte_pipe.write_frame_sent [OF assms(1) f(2)] show ?thesis by auto
qed

text \<open>
  C20. A command that succeeds writes its request once, as one data frame with the current
  sequence and acknowledgement numbers of the connection, before anything else; all that follows
  it on the wire during the call are whole encoded acknowledgements, rejections and resent
  frames, for every transport that appends what is written.
\<close>

theorem request_written_once:
  assumes "byte_pipe ops sent" "run_command n ops c s = (Inr x, s')"
  shows "\<exists>w fs. request_bytes c (next_seq (correlator s)) (choose_format c s) (writer_new (version s)) = (Inr (), w) \<and>
    sent (transport s') = sent (transport s) @
      wire_of (Data (next_tx_frame (ash s)) (next_rx_frame (ash s)) False (writer_bytes w)) @ concat (map wire_of fs) \<and>
    (\<forall>f \<in> set fs. reply_frame f)"
proof -
  obtain s1 where sc: "send_command ops c s = (Inr (), s1)" and aw: "await_answer n ops c s1 = (Inr x, s')"
    using assms(2) by (rule run_command_Inr)
  obtain w r s2 where pu: "pump_until n ops answer_arrived s1 = (w, r, s2)" by (rule prod_cases3)
  with aw obtain ps where r: "r = Some ps" and d: "decode_answer c ps s2 = (Inr x, s')"
    by (cases r) (auto simp: await_answer_def silent_not_Inr)
  have "w = Inr ()" using pump_answer [OF pu] r by auto
  with pu have "wrote sent s1 s2"
    by (intro byte_pipe.pump_wrote [OF assms(1), of answer_arrived]) (auto simp: answer_arrived_def take_response_def)
  moreover have "s' = s2" using d by (simp add: decode_answer_Inr)
  ultimately show ?thesis using send_command_writes [OF assms(1) sc] unfolding wrote_def by auto
qed

lemma request_written_once_witness:
  "\<exists>s' b fs. run_command (Suc 0) fake_ops (version_command (Version PREFERRED))
      (sample_ncp [wire_of (Data 0 1 False sample_version_payload)]) =
        (Inr \<lparr>protocol_version = ProtocolVersion 0x0d, stack_type = 2, stack_version = 0x7440\<rparr>, s') \<and>
    written (transport s') = wire_of (Data 0 0 False b) @ concat (map wire_of fs)"
proof -
  let ?s = "sample_ncp [wire_of (Data 0 1 False sample_version_payload)]"
  obtain s' where s': "run_command (Suc 0) fake_ops (version_command (Version PREFERRED)) ?s =
        (Inr \<lparr>protocol_version = ProtocolVersion 0x0d, stack_type = 2, stack_version = 0x7440\<rparr>, s')"
    using sample_run by blast
  have s: "written (transport ?s) = []" "next_tx_frame (ash ?s) = 0" "next_rx_frame (ash ?s) = 0"
    by (simp_all add: sample_defs)
  from request_written_once [OF fake.byte_pipe_axioms s'] s s' show ?thesis by auto
qed

end
