(* ===== verification/NcpReplies.thy ===== *)
theory NcpReplies
  imports NcpWire
begin

text \<open>
  When the runtime writes (\<open>ncp.rs\<close> over \<open>ash/state.rs\<close>): the calls of the transport are recorded
  in order, whatever the transport does, and everything that is written in a session is a request
  or the answer to something that was read before. In particular a data frame is written again
  only for a NAK.
\<close>

section \<open>A transport that records its calls\<close>

text \<open>A write that was attempted, with its bytes, and a read that returned some.\<close>

datatype event =
    Wrote bytes
  | Brought bytes

definition recorded :: "'t transport_ops \<Rightarrow> ('t \<times> event list) transport_ops" where
  "recorded ops =
     \<lparr>t_write = (\<lambda>bs (t, tr). let (r, t') = t_write ops bs t in (r, (t', tr @ [Wrote bs]))),
      t_read = (\<lambda>(t, tr). let (r, t') = t_read ops t
        in (r, (t', tr @ (case r of ReadOk bs \<Rightarrow> [Brought bs] | _ \<Rightarrow> []))))\<rparr>"

lemma recorded_write:
  "t_write (recorded ops) bs t = (r, t') \<Longrightarrow> snd t' = snd t @ [Wrote bs]"
  by (auto simp: recorded_def split: prod.splits)

lemma recorded_read:
  "t_read (recorded ops) t = (r, t') \<Longrightarrow>
   snd t' = snd t @ (case r of ReadOk bs \<Rightarrow> [Brought bs] | _ \<Rightarrow> [])"
  by (auto simp: recorded_def split: prod.splits)

section \<open>Replies and their occasions\<close>

datatype reply = Acknowledges | Rejects | Resends

text \<open>What a written frame is, read off its control byte, which may travel escaped.\<close>

definition written_control :: "bytes \<Rightarrow> u8" where
  "written_control bs = (case bs of b # c # _ \<Rightarrow> (if b = ESCAPE then c XOR FLIP else b) | _ \<Rightarrow> 0)"

definition reply_kind :: "bytes \<Rightarrow> reply option" where
  "reply_kind bs =
     (let c = written_control bs in
      if c AND 0x88 = 0x08 then Some Resends
      else if c AND 0xe0 = 0x80 then Some Acknowledges
      else if c AND 0xe0 = 0xa0 then Some Rejects
      else None)"

fun frame_kind :: "ash_frame \<Rightarrow> reply option" where
  "frame_kind (Data _ _ rt _) = (if rt then Some Resends else None)"
| "frame_kind (Ack _ _) = Some Acknowledges"
| "frame_kind (Nak _ _) = Some Rejects"
| "frame_kind _ = None"

lemma written_control_encode:
  assumes "encode f = Inr bs"
  shows "written_control bs = control f"
proof -
  have bs: "bs = stuff (frame_bytes f) @ [FLAG]" using assms by (auto simp: encode_eq split: if_splits)
  obtain xs where xs: "frame_bytes f = control f # xs" "xs \<noteq> []"
    using be_bytes16_eq by (auto simp: frame_bytes_def Let_def)
  have "stuff xs \<noteq> []" using xs(2) by (cases xs) auto
  then obtain y ys where "stuff xs = y # ys" by (cases "stuff xs") auto
  moreover have "\<not> is_reserved (control f) \<Longrightarrow> control f \<noteq> ESCAPE" by (auto simp: is_reserved_def)
  ultimately show ?thesis
    using reserved_flip [of "control f"] by (auto simp: written_control_def bs xs(1))
qed

lemma resend_mask:
  fixes c :: u8
  shows "c AND 0x88 = 0x08 \<longleftrightarrow> bit c 3 \<and> \<not> bit c 7"
proof -
  have "c AND 0x88 = (if bit c 7 then 0x80 else 0) OR (if bit c 3 then 0x08 else 0)"
    by (rule u8_eqI; simp add: bit_simps)
  then show ?thesis by (auto split: if_splits)
qed

lemma reply_kind_encode:
  assumes "encode f = Inr bs"
  shows "reply_kind bs = frame_kind f"
  using control_data(1,2) control_ack(1-3) control_nak(1-3)
  by (cases f) (auto simp: reply_kind_def written_control_encode [OF assms] resend_mask short_mask Let_def
      const_defs simp del: control.simps(1-3))

text \<open>What asks for a reply: a data frame, a frame that is rejected recoverably, a NAK.\<close>

fun occasion :: "decoded \<Rightarrow> reply option" where
  "occasion (Frame (Data _ _ _ _)) = Some Acknowledges"
| "occasion (Frame (Nak _ _)) = Some Resends"
| "occasion (Frame _) = None"
| "occasion (Rejected e) = (if is_recoverable_by_nak e then Some Rejects else None)"

primrec replies :: "reply option \<Rightarrow> event list \<Rightarrow> nat" where
  "replies k [] = 0"
| "replies k (e # tr) = (case e of Wrote bs \<Rightarrow> of_bool (reply_kind bs = k) | Brought _ \<Rightarrow> 0) + replies k tr"

primrec brought :: "event list \<Rightarrow> bytes" where
  "brought [] = []"
| "brought (e # tr) = (case e of Wrote _ \<Rightarrow> [] | Brought bs \<Rightarrow> bs) @ brought tr"

definition occasions_of :: "reply \<Rightarrow> decoded list \<Rightarrow> nat" where
  "occasions_of k ds = length (filter (\<lambda>d. occasion d = Some k) ds)"

definition occasions :: "decoder \<Rightarrow> reply \<Rightarrow> event list \<Rightarrow> nat" where
  "occasions d k tr = occasions_of k (fst (feed (brought tr) d))"

lemma replies_append [simp]: "replies k (xs @ ys) = replies k xs + replies k ys"
  by (induction xs) simp_all

lemma brought_append [simp]: "brought (xs @ ys) = brought xs @ brought ys"
  by (induction xs) (simp_all split: event.split)

lemma occasions_of_simps [simp]:
  "occasions_of k [] = 0"
  "occasions_of k (d # ds) = of_bool (occasion d = Some k) + occasions_of k ds"
  "occasions_of k (xs @ ys) = occasions_of k xs + occasions_of k ys"
  by (simp_all add: occasions_of_def)

lemma occasions_snoc:
  "occasions d k (tr @ [Wrote bs]) = occasions d k tr"
  "occasions d k (tr @ [Brought bs]) = occasions d k tr + occasions_of k (fst (feed bs (snd (feed (brought tr) d))))"
  by (simp_all add: occasions_def feed_append split: prod.split)

text \<open>At every moment of the trace, the replies of each kind so far are covered by occasions so far.\<close>

definition answering :: "decoder \<Rightarrow> event list \<Rightarrow> bool" where
  "answering d tr \<longleftrightarrow> (\<forall>pre k. prefix pre tr \<longrightarrow> replies (Some k) pre \<le> occasions d k pre)"

lemma answering_Nil: "answering d []"
  by (simp add: answering_def)

lemma answering_snoc:
  "answering d (tr @ [e]) \<longleftrightarrow> answering d tr \<and> (\<forall>k. replies (Some k) (tr @ [e]) \<le> occasions d k (tr @ [e]))"
  by (auto simp: answering_def)

section \<open>The runtime keeps it\<close>

definition is_sent_line :: "log_line \<Rightarrow> bool" where
  "is_sent_line l \<longleftrightarrow> (case l of SentFrame _ _ _ \<Rightarrow> True | SentRedacted _ _ _ \<Rightarrow> True | _ \<Rightarrow> False)"

definition requests_logged :: "'t ncp \<Rightarrow> nat" where
  "requests_logged s = length (filter is_sent_line (log_lines s))"

text \<open>
  \<open>keeps_to d tr0 n0 ds s\<close>: of the trace since \<open>tr0\<close> the runtime owes an answer to \<open>ds\<close> at most,
  the decoder is where the bytes read have led it, and what was written unasked are requests
  that were logged since their number was \<open>n0\<close>.
\<close>

definition keeps_to :: "decoder \<Rightarrow> event list \<Rightarrow> nat \<Rightarrow> decoded list \<Rightarrow> ('t \<times> event list) ncp \<Rightarrow> bool" where
  "keeps_to d tr0 n0 ds s \<longleftrightarrow>
     (\<exists>tr. snd (transport s) = tr0 @ tr \<and> decoder s = snd (feed (brought tr) d) \<and> answering d tr \<and>
       (\<forall>k. replies (Some k) tr + occasions_of k ds \<le> occasions d k tr) \<and>
       n0 + replies None tr \<le> requests_logged s)"

lemma keeps_to_same:
  "keeps_to d tr0 n0 ds s \<Longrightarrow> snd (transport s') = snd (transport s) \<Longrightarrow> decoder s' = decoder s \<Longrightarrow>
   requests_logged s \<le> requests_logged s' \<Longrightarrow> keeps_to d tr0 n0 ds s'"
  unfolding keeps_to_def by (metis le_trans)

lemma keeps_to_drop: "keeps_to d tr0 n0 (ds @ es) s \<Longrightarrow> keeps_to d tr0 n0 es s"
  unfolding keeps_to_def by (metis add.assoc add.commute add_leD1 occasions_of_simps(3))

lemma keeps_to_credit: "keeps_to d tr0 (Suc n0) ds s \<Longrightarrow> keeps_to d tr0 n0 ds s"
  unfolding keeps_to_def by (metis Suc_leD add_Suc)

text \<open>A write whose frame answers the next decoded unit, and one that nothing asked for.\<close>

lemma write_frame_recorded:
  assumes "write_frame (recorded ops) f s = (r, s')"
  obtains "s' = s"
    | bs where "encode f = Inr bs" "snd (transport s') = snd (transport s) @ [Wrote bs]"
      "decoder s' = decoder s" "requests_logged s' = requests_logged s"
proof (cases "encode f")
  case (Inl e)
  with assms that(1) show ?thesis by (simp add: write_frame_def)
next
  case (Inr bs)
  obtain q t where w: "t_write (recorded ops) bs (transport s) = (q, t)" by (metis surj_pair)
  with assms Inr have "s' = s\<lparr>transport := t\<rparr>" by (auto simp: write_frame_def split: sum.splits)
  with recorded_write [OF w] Inr show ?thesis by (intro that(2) [of bs]) (simp_all add: requests_logged_def)
qed

lemma keeps_to_reply:
  assumes "keeps_to d tr0 n0 (x # ds) s" "write_frame (recorded ops) f s = (r, s')"
    and "frame_kind f = Some k" "occasion x = Some k"
  shows "keeps_to d tr0 n0 ds s'"
  using assms(2)
proof (cases rule: write_frame_recorded)
  case 1
  with keeps_to_drop [of d tr0 n0 "[x]" ds s] assms(1) show ?thesis by simp
next
  case (2 bs)
  from assms(1) obtain tr where tr: "snd (transport s) = tr0 @ tr" "decoder s = snd (feed (brought tr) d)"
    "answering d tr" "\<And>k. replies (Some k) tr + occasions_of k (x # ds) \<le> occasions d k tr"
    "n0 + replies None tr \<le> requests_logged s"
    unfolding keeps_to_def by blast
  have k: "reply_kind bs = Some k" using reply_kind_encode [OF 2(1)] assms(3) by simp
  have c: "replies (Some j) (tr @ [Wrote bs]) + occasions_of j ds \<le> occasions d j (tr @ [Wrote bs])" for j
    using tr(4) [of j] assms(4) k by (auto simp: occasions_snoc split: if_splits)
  then have "answering d (tr @ [Wrote bs])" using tr(3) by (simp only: answering_snoc) (meson add_leD1)
  with c 2 tr k show ?thesis unfolding keeps_to_def by (intro exI [of _ "tr @ [Wrote bs]"]) simp
qed

lemma keeps_to_request:
  assumes "keeps_to d tr0 (Suc n0) ds s" "write_frame (recorded ops) f s = (r, s')" "frame_kind f = None"
  shows "keeps_to d tr0 n0 ds s'"
  using assms(2)
proof (cases rule: write_frame_recorded)
  case 1
  with keeps_to_credit assms(1) show ?thesis by simp
next
  case (2 bs)
  from assms(1) obtain tr where tr: "snd (transport s) = tr0 @ tr" "decoder s = snd (feed (brought tr) d)"
    "answering d tr" "\<And>k. replies (Some k) tr + occasions_of k ds \<le> occasions d k tr"
    "Suc n0 + replies None tr \<le> requests_logged s"
    unfolding keeps_to_def by blast
  have k: "reply_kind bs = None" using reply_kind_encode [OF 2(1)] assms(3) by simp
  have c: "replies (Some j) (tr @ [Wrote bs]) + occasions_of j ds \<le> occasions d j (tr @ [Wrote bs])" for j
    using tr(4) [of j] k by (simp add: occasions_snoc)
  then have "answering d (tr @ [Wrote bs])" using tr(3) by (simp only: answering_snoc) (meson add_leD1)
  with c 2 tr k show ?thesis unfolding keeps_to_def by (intro exI [of _ "tr @ [Wrote bs]"]) simp
qed

lemma on_frame_occasion:
  "on_frame f c = ((p, Send g), c') \<Longrightarrow> \<exists>k. frame_kind g = Some k \<and> occasion (Frame f) = Some k"
  by (cases f) (auto simp: on_frame_def retransmit_oldest_def Let_def split: if_splits prod.splits list.splits)

lemma on_decode_failure_occasion:
  "on_decode_failure e c = (Send g, c') \<Longrightarrow> \<exists>k. frame_kind g = Some k \<and> occasion (Rejected e) = Some k"
  by (auto simp: on_decode_failure_def split: if_splits)

lemma keeps_to_outbound:
  assumes "keeps_to d tr0 n0 (x # ds) s" "write_outbound (recorded ops) out (s\<lparr>ash := c\<rparr>) = (r, s')"
    and "\<And>g. out = Send g \<Longrightarrow> \<exists>k. frame_kind g = Some k \<and> occasion x = Some k"
  shows "keeps_to d tr0 n0 ds s'"
proof -
  have s: "keeps_to d tr0 n0 (x # ds) (s\<lparr>ash := c\<rparr>)"
    using assms(1) by (rule keeps_to_same) (simp_all add: requests_logged_def)
  show ?thesis
  proof (cases out)
    case (Send g)
    with assms(2,3) show ?thesis by (auto simp: write_outbound_def intro: keeps_to_reply [OF s])
  next
    case Nothing
    with assms(2) keeps_to_drop [of d tr0 n0 "[x]" ds] s show ?thesis by (simp add: write_outbound_def)
  qed
qed

lemma received_not_sent [simp]: "\<not> is_sent_line (received_line p s)"
  by (simp add: received_line_def is_sent_line_def split: option.split)

lemma dispatch_quiet:
  "transport (dispatch p s) = transport s" "decoder (dispatch p s) = decoder s"
  "requests_logged (dispatch p s) = requests_logged s"
proof -
  show "requests_logged (dispatch p s) = requests_logged s"
    by (simp add: requests_logged_def dispatch_same)
qed (simp_all add: dispatch_def Let_def split: sum.split prod.split classified.split)

lemma on_decoded_keeps_to:
  assumes "keeps_to d tr0 n0 (x # ds) s" "on_decoded (recorded ops) x s = (r, s')"
  shows "keeps_to d tr0 n0 ds s'"
proof (cases x)
  case (Frame f)
  obtain p out c where o: "on_frame f (ash s) = ((p, out), c)" by (metis surj_pair)
  obtain q s1 where w: "write_outbound (recorded ops) out (s\<lparr>ash := c\<rparr>) = (q, s1)" by (metis surj_pair)
  have "keeps_to d tr0 n0 ds s1"
    using assms(1) w by (rule keeps_to_outbound) (use o Frame on_frame_occasion in blast)
  moreover have "s' = s1 \<or> (\<exists>p. s' = dispatch p s1)"
    using assms(2) Frame o w by (cases q) (auto simp: on_decoded_def split: option.splits)
  ultimately show ?thesis by (auto intro: keeps_to_same simp: dispatch_quiet)
next
  case (Rejected e)
  obtain out c where o: "on_decode_failure e (ash s) = (out, c)" by (metis surj_pair)
  with assms(2) Rejected have "write_outbound (recorded ops) out (s\<lparr>ash := c\<rparr>) = (r, s')"
    by (simp add: on_decoded_def)
  with assms(1) show ?thesis
    by (rule keeps_to_outbound) (use o Rejected on_decode_failure_occasion in blast)
qed

lemma on_decoded_all_keeps_to:
  "keeps_to d tr0 n0 ds s \<Longrightarrow> on_decoded_all (recorded ops) ds s = (r, s') \<Longrightarrow> keeps_to d tr0 n0 [] s'"
proof (induction ds arbitrary: s)
  case (Cons x ds)
  obtain q s1 where x: "on_decoded (recorded ops) x s = (q, s1)" by (metis surj_pair)
  have k: "keeps_to d tr0 n0 ds s1" using on_decoded_keeps_to [OF Cons.prems(1) x] .
  show ?case
  proof (cases q)
    case (Inl e)
    with Cons.prems(2) x have "s' = s1" by simp
    with k keeps_to_drop [of d tr0 n0 ds "[]"] show ?thesis by simp
  next
    case (Inr u)
    with Cons.prems(2) x Cons.IH [OF k] show ?thesis by simp
  qed
qed simp

text \<open>A read that brings bytes brings the occasions that they decode to.\<close>

lemma consume_keeps_to:
  assumes "keeps_to d tr0 n0 [] s" "t_read (recorded ops) (transport s) = (ReadOk bs, t)"
    and "consume (recorded ops) bs (s\<lparr>transport := t\<rparr>) = (r, s')"
  shows "keeps_to d tr0 n0 [] s'"
proof -
  obtain ds d' where f: "feed bs (decoder s) = (ds, d')" by (metis surj_pair)
  from assms(1) obtain tr where tr: "snd (transport s) = tr0 @ tr" "decoder s = snd (feed (brought tr) d)"
    "answering d tr" "\<And>k. replies (Some k) tr \<le> occasions d k tr" "n0 + replies None tr \<le> requests_logged s"
    unfolding keeps_to_def by auto
  have c: "replies (Some k) (tr @ [Brought bs]) + occasions_of k ds \<le> occasions d k (tr @ [Brought bs])" for k
    using tr(4) [of k] f tr(2) by (simp add: occasions_snoc)
  then have "answering d (tr @ [Brought bs])" using tr(3) by (simp only: answering_snoc) (meson add_leD1)
  moreover have "d' = snd (feed (brought (tr @ [Brought bs])) d)"
    using f tr(2) by (simp add: feed_snd_append)
  ultimately have "keeps_to d tr0 n0 ds (s\<lparr>transport := t, decoder := d'\<rparr>)"
    unfolding keeps_to_def
    using c tr recorded_read [OF assms(2)] by (intro exI [of _ "tr @ [Brought bs]"]) (simp add: requests_logged_def)
  moreover have "on_decoded_all (recorded ops) ds (s\<lparr>transport := t, decoder := d'\<rparr>) = (r, s')"
    using assms(3) f by (simp add: consume_def)
  ultimately show ?thesis by (rule on_decoded_all_keeps_to)
qed

text \<open>A change of the state that leaves the line and the requests alone.\<close>

definition aside :: "'t ncp \<Rightarrow> 't ncp \<Rightarrow> bool" where
  "aside s s' \<longleftrightarrow> transport s' = transport s \<and> decoder s' = decoder s \<and> requests_logged s \<le> requests_logged s'"

lemma keeps_to_aside: "keeps_to d tr0 n0 ds s \<Longrightarrow> aside s s' \<Longrightarrow> keeps_to d tr0 n0 ds s'"
  by (erule keeps_to_same) (simp_all add: aside_def)

lemma pump_keeps_to:
  assumes stop: "\<And>s. aside s (snd (snd (stop s)))"
  shows "pump_until n (recorded ops) stop s = (w, x, s') \<Longrightarrow> keeps_to d tr0 n0 [] s \<Longrightarrow> keeps_to d tr0 n0 [] s'"
proof (induction n arbitrary: s)
  case 0
  then show ?case using keeps_to_aside [OF _ stop [of s]] by (auto split: prod.splits)
next
  case (Suc n)
  obtain b y s1 where st: "stop s = (b, y, s1)" by (metis surj_pair)
  have s1: "keeps_to d tr0 n0 [] s1" using keeps_to_aside [OF Suc.prems(2) stop [of s]] st by simp
  obtain rr t where rd: "t_read (recorded ops) (transport s1) = (rr, t)" by (metis surj_pair)
  have quiet: "keeps_to d tr0 n0 [] (s1\<lparr>transport := t\<rparr>)" if "\<forall>bs. rr \<noteq> ReadOk bs"
    using s1 by (rule keeps_to_same)
      (use recorded_read [OF rd] that in \<open>auto simp: requests_logged_def split: read_result.splits\<close>)
  show ?case
  proof (cases rr)
    case (ReadOk bs)
    obtain q s2 where c: "consume (recorded ops) bs (s1\<lparr>transport := t\<rparr>) = (q, s2)" by (metis surj_pair)
    have "keeps_to d tr0 n0 [] s2" using consume_keeps_to [OF s1 rd [unfolded ReadOk] c] .
    with Suc st rd ReadOk c s1 show ?thesis by (auto split: if_splits sum.splits)
  qed (use Suc.prems st rd s1 quiet in \<open>auto split: if_splits\<close>)
qed

lemma send_command_recorded:
  assumes "send_command ops c s = (r, s')"
  shows "aside s s' \<or> (\<exists>f s2. write_frame ops f s2 = (r, s') \<and> frame_kind f = None \<and>
    transport s2 = transport s \<and> decoder s2 = decoder s \<and> requests_logged s2 = Suc (requests_logged s))"
proof (cases "available c (version s)")
  case False
  with assms show ?thesis by (simp add: send_command_def aside_def)
next
  case True
  let ?fmt = "choose_format c s"
  obtain q k where b: "begin_command (command_id c) (correlator s) = (q, k)" by (metis surj_pair)
  show ?thesis
  proof (cases q)
    case (Inl e)
    with assms True b show ?thesis by (auto simp: send_command_def aside_def requests_logged_def Let_def)
  next
    case (Inr sq)
    obtain e w where w: "request_bytes c sq ?fmt (writer_new (version s)) = (e, w)" by (metis surj_pair)
    show ?thesis
    proof (cases "(\<exists>x. e = Inl x) \<or> length (writer_bytes w) > MAX_FRAME_LENGTH")
      case True
      with assms \<open>available c (version s)\<close> b Inr w show ?thesis
        by (auto simp: send_command_def aside_def requests_logged_def Let_def split: sum.splits)
    next
      case False
      then obtain u where e: "e = Inr u" by (cases e) auto
      define s2 where "s2 = s\<lparr>correlator := k, pending_format := Some ?fmt,
        log_lines := log_lines s @ [sent_line (command_id c) ?fmt (writer_bytes w)],
        initial_version_sent := ?fmt = Legacy \<or> initial_version_sent s\<rparr>"
      obtain x a where x: "send_data (writer_bytes w) (ash s) = (x, a)" by (metis surj_pair)
      have send: "(case x of Inl e \<Rightarrow> (Inl (Ash e), s2\<lparr>ash := a\<rparr>) | Inr f \<Rightarrow> write_frame ops f (s2\<lparr>ash := a\<rparr>)) = (r, s')"
        unfolding s2_def using assms \<open>available c (version s)\<close> b Inr w e False x
        by (cases ?fmt; cases x) (simp_all add: send_command_def Let_def)
      have log: "requests_logged (s2\<lparr>ash := a\<rparr>) = Suc (requests_logged s)"
        by (simp add: s2_def requests_logged_def is_sent_line_def sent_line_def)
      show ?thesis
      proof (cases x)
        case (Inl e)
        with send log show ?thesis by (auto simp: aside_def s2_def requests_logged_def)
      next
        case (Inr f)
        with x have "frame_kind f = None" by (auto simp: send_data_def Let_def split: if_splits)
        with send log Inr show ?thesis by (intro disjI2 exI [of _ f] exI [of _ "s2\<lparr>ash := a\<rparr>"]) (simp add: s2_def)
      qed
    qed
  qed
qed

lemma send_command_keeps_to:
  assumes "keeps_to d tr0 n0 [] s" "send_command (recorded ops) c s = (r, s')"
  shows "keeps_to d tr0 n0 [] s'"
  using send_command_recorded [OF assms(2)]
proof (elim disjE exE conjE)
  assume "aside s s'"
  with assms(1) show ?thesis by (rule keeps_to_aside)
next
  fix f s2
  assume w: "write_frame (recorded ops) f s2 = (r, s')" and f: "frame_kind f = None"
    and s2: "transport s2 = transport s" "decoder s2 = decoder s" "requests_logged s2 = Suc (requests_logged s)"
  from assms(1) s2 have "keeps_to d tr0 (Suc n0) [] s2" unfolding keeps_to_def by auto
  then show ?thesis using w f by (rule keeps_to_request)
qed

lemma report_aside: "aside s (snd (report_no_answer c w s))"
  by (auto simp: report_no_answer_def aside_def requests_logged_def Let_def split: prod.splits sum.splits)

lemma await_keeps_to:
  assumes "keeps_to d tr0 n0 [] s" "await_answer n (recorded ops) c s = (r, s')"
  shows "keeps_to d tr0 n0 [] s'"
proof -
  obtain w a s1 where p: "pump_until n (recorded ops) answer_arrived s = (w, a, s1)" by (metis surj_pair)
  have s1: "keeps_to d tr0 n0 [] s1"
    by (rule pump_keeps_to [OF _ p assms(1)]) (simp add: answer_arrived_def take_response_def aside_def requests_logged_def)
  show ?thesis
  proof (cases a)
    case None
    with assms(2) p have "s' = snd (report_no_answer c w s1)" by (simp add: await_answer_def)
    then show ?thesis using keeps_to_aside [OF s1 report_aside] by simp
  next
    case (Some ps)
    with assms(2) p decode_answer_state [of c ps s1] s1 show ?thesis by (simp add: await_answer_def)
  qed
qed

lemma call_keeps_to:
  "method_call (recorded ops) m s s' \<Longrightarrow> m \<noteq> ResetCalled \<Longrightarrow> keeps_to d tr0 n0 [] s \<Longrightarrow> keeps_to d tr0 n0 [] s'"
proof (induction rule: method_call.induct)
  case (command n c s r s')
  obtain q s1 where sc: "send_command (recorded ops) c s = (q, s1)" by (metis surj_pair)
  have s1: "keeps_to d tr0 n0 [] s1" using send_command_keeps_to [OF command(3) sc] .
  with command(1) sc show ?case
    by (cases q) (auto simp: run_command_not_sent run_command_sent intro: await_keeps_to)
next
  case (poll n s r s')
  obtain w x s1 where p: "pump_until n (recorded ops) (\<lambda>s. (callbacks s \<noteq> [], (), s)) s = (w, x, s1)"
    by (rule prod_cases3)
  have "keeps_to d tr0 n0 [] s1" by (rule pump_keeps_to [OF _ p poll(3)]) (simp add: aside_def)
  moreover have "aside s1 s'"
    using poll(1) p by (auto simp: poll_def take_callbacks_def aside_def requests_logged_def split: sum.splits)
  ultimately show ?case by (rule keeps_to_aside)
next
  case (callbacks s cs s')
  then have "aside s s'" by (auto simp: take_callbacks_def aside_def requests_logged_def)
  with callbacks(3) show ?case by (rule keeps_to_aside)
qed simp

lemma session_keeps_to:
  "session (recorded ops) s s' \<Longrightarrow> keeps_to d tr0 n0 [] s \<Longrightarrow> keeps_to d tr0 n0 [] s'"
  unfolding session_def by (induction rule: rtranclp_induct) (use call_keeps_to in blast)+

text \<open>
  C18. Nothing is repeated unless it is asked for. Over any transport, in any sequence of commands,
  polls and taken callbacks, whatever of them fails or times out: at every moment, the data frames
  written again are at most as many as the NAKs among the frames read so far, the acknowledgements
  written at most as many as the data frames read, and the NAKs written at most as many as the
  units read that were rejected as garbled; and whatever else was written in the session is at most
  one frame for each request it logged. So a request that is lost without a NAK from the NCP is
  not repeated, neither by a time-out nor by the commands after it.
\<close>

theorem writes_answer_reads:
  assumes "session (recorded ops) s s'"
  shows "\<exists>tr. snd (transport s') = snd (transport s) @ tr \<and>
    (\<forall>pre k. prefix pre tr \<longrightarrow> replies (Some k) pre \<le> occasions (decoder s) k pre) \<and>
    requests_logged s + replies None tr \<le> requests_logged s'"
proof -
  have "keeps_to (decoder s) (snd (transport s)) (requests_logged s) [] s"
    unfolding keeps_to_def by (intro exI [of _ "[]"]) (simp add: answering_def occasions_def)
  from session_keeps_to [OF assms this] show ?thesis unfolding keeps_to_def answering_def by blast
qed

text \<open>A command during which a NAK arrives: its request is written a second time, and then no more.\<close>

definition sample_recording :: "(fake_transport \<times> event list) ncp" where
  "sample_recording =
     (ncp_start (fake_with_chunks [wire_of (Nak 0 False)], []))\<lparr>ash := connection_new\<lparr>state := Connected\<rparr>\<rparr>"

lemma recorded_write_frame:
  "length (body f) \<le> 130 \<Longrightarrow>
   write_frame (recorded fake_ops) f s = (Inr (), s\<lparr>transport :=
     ((fst (transport s))\<lparr>written := written (fst (transport s)) @ wire_of f\<rparr>,
      snd (transport s) @ [Wrote (wire_of f)])\<rparr>)"
  by (cases "transport s") (simp add: write_frame_def recorded_def fake_ops_def fake_write_def wire_of_def encode_eq)

lemma recorded_read_chunk:
  "t_read (recorded fake_ops) (\<lparr>to_read = c # cs, written = w, fail_next_read = None, closed = b\<rparr>, tr) =
     (ReadOk c, (\<lparr>to_read = cs, written = w, fail_next_read = None, closed = b\<rparr>, tr @ [Brought c]))"
  "t_read (recorded fake_ops) (\<lparr>to_read = [], written = w, fail_next_read = None, closed = False\<rparr>, tr) =
     (ReadPending, (\<lparr>to_read = [], written = w, fail_next_read = None, closed = False\<rparr>, tr))"
  by (simp_all add: recorded_def fake_read_chunk)

lemma sample_recording_run:
  "\<exists>s'. run_command (Suc (Suc 0)) (recorded fake_ops) (version_command (Version PREFERRED)) sample_recording =
     (Inl (Timeout ID_VERSION), s') \<and>
   snd (transport s') = [Wrote (wire_of (Data 0 0 False [0, 0, 0, 0x13])), Brought (wire_of (Nak 0 False)),
     Wrote (wire_of (Data 0 0 True [0, 0, 0, 0x13]))]"
  by (simp add: run_command_def andthen_def sample_recording_def run_defs sample_defs const_defs Let_def
      fits_legacy_def recorded_write_frame recorded_read_chunk consume_wire
      retransmit_oldest_def report_no_answer_def time_out_def saturating_inc_def word_le_nat_alt)

lemma writes_answer_reads_witness:
  "\<exists>s'. run_command (Suc (Suc 0)) (recorded fake_ops) (version_command (Version PREFERRED)) sample_recording =
     (Inl (Timeout ID_VERSION), s') \<and>
   replies (Some Resends) (snd (transport s')) = 1 \<and>
   (\<forall>pre. prefix pre (snd (transport s')) \<longrightarrow>
     replies (Some Resends) pre \<le> occasions decoder_new Resends pre) \<and>
   replies None (snd (transport s')) \<le> requests_logged s'"
proof -
  obtain s' where s': "run_command (Suc (Suc 0)) (recorded fake_ops) (version_command (Version PREFERRED)) sample_recording =
     (Inl (Timeout ID_VERSION), s')" and tr: "snd (transport s') =
       [Wrote (wire_of (Data 0 0 False [0, 0, 0, 0x13])), Brought (wire_of (Nak 0 False)),
        Wrote (wire_of (Data 0 0 True [0, 0, 0, 0x13]))]"
    using sample_recording_run by blast
  have k: "reply_kind (wire_of (Data 0 0 rt [0, 0, 0, 0x13])) = frame_kind (Data 0 0 rt [0, 0, 0, 0x13])" for rt
    by (rule reply_kind_encode) (simp add: wire_of_def encode_eq)
  have s: "decoder sample_recording = decoder_new" "snd (transport sample_recording) = []"
    by (simp_all add: sample_recording_def ncp_start_def)
  from writes_answer_reads [OF session_command [OF s']] s'
  show ?thesis by (simp add: s) (simp add: tr k)
qed

end
