(* ===== verification/AshLink.thy ===== *)
theory AshLink
  imports AshConnection
begin

text \<open>
  Two connections of \<open>ash/state.rs\<close> talking to each other over a serial line that loses and
  garbles frames but keeps their order. The sequence numbers have three bits and the streams are
  unbounded; the invariant of this theory says which index each number in transit stands for,
  and from it follows that each side delivers a prefix of what the other submitted, once each
  and in order, and that nothing leaves the sender's queue before it is delivered. The line
  carries no reset; what a reset does to the queue is part of C14.
\<close>

section \<open>The system\<close>

text \<open>
  An endpoint is a connection with its history: the payloads the caller gave \<open>send_data\<close> and
  those \<open>on_frame\<close> returned, oldest first. A packet is a frame in transit, or what is left of
  one: the error the decoder of the receiver reports for it.
\<close>

record endpoint =
  conn :: connection
  submitted :: "bytes list"
  delivered :: "bytes list"

datatype packet =
    Intact ash_frame
  | Garbled ash_error

record link =
  left :: endpoint
  right :: endpoint
  to_right :: "packet list"
  to_left :: "packet list"

definition link_start :: link where
  "link_start =
     (let c = snd (on_frame (RstAck ASH_VERSION 0) connection_new);
          p = \<lparr>conn = c, submitted = [], delivered = []\<rparr>
      in \<lparr>left = p, right = p, to_right = [], to_left = []\<rparr>)"

definition packets_of :: "outbound \<Rightarrow> packet list" where
  "packets_of out = (case out of Send f \<Rightarrow> [Intact f] | Nothing \<Rightarrow> [])"

text \<open>What an endpoint does: the packets it writes, and the endpoint it leaves.\<close>

definition ep_submit :: "bytes \<Rightarrow> endpoint \<Rightarrow> packet list \<times> endpoint" where
  "ep_submit p e =
     (case send_data p (conn e) of
        (Inr f, c) \<Rightarrow> ([Intact f], e\<lparr>conn := c, submitted := submitted e @ [p]\<rparr>)
      | (Inl _, c) \<Rightarrow> ([], e\<lparr>conn := c\<rparr>))"

definition ep_resend :: "endpoint \<Rightarrow> packet list \<times> endpoint" where
  "ep_resend e = (let (out, c) = retransmit_oldest (conn e) in (packets_of out, e\<lparr>conn := c\<rparr>))"

definition ep_receive :: "packet \<Rightarrow> endpoint \<Rightarrow> packet list \<times> endpoint" where
  "ep_receive pkt e =
     (case pkt of
        Intact f \<Rightarrow>
          (let ((p, out), c) = on_frame f (conn e)
           in (packets_of out, e\<lparr>conn := c, delivered := delivered e @ (case p of Some x \<Rightarrow> [x] | None \<Rightarrow> [])\<rparr>))
      | Garbled err \<Rightarrow>
          (let (out, c) = on_decode_failure err (conn e) in (packets_of out, e\<lparr>conn := c\<rparr>)))"

inductive link_step :: "link \<Rightarrow> link \<Rightarrow> bool" where
  left_submits: "ep_submit p (left s) = (out, e) \<Longrightarrow>
    link_step s (s\<lparr>left := e, to_right := to_right s @ out\<rparr>)"
| right_submits: "ep_submit p (right s) = (out, e) \<Longrightarrow>
    link_step s (s\<lparr>right := e, to_left := to_left s @ out\<rparr>)"
| left_resends: "ep_resend (left s) = (out, e) \<Longrightarrow>
    link_step s (s\<lparr>left := e, to_right := to_right s @ out\<rparr>)"
| right_resends: "ep_resend (right s) = (out, e) \<Longrightarrow>
    link_step s (s\<lparr>right := e, to_left := to_left s @ out\<rparr>)"
| left_receives: "to_left s = pkt # rest \<Longrightarrow> ep_receive pkt (left s) = (out, e) \<Longrightarrow>
    link_step s (s\<lparr>left := e, to_left := rest, to_right := to_right s @ out\<rparr>)"
| right_receives: "to_right s = pkt # rest \<Longrightarrow> ep_receive pkt (right s) = (out, e) \<Longrightarrow>
    link_step s (s\<lparr>right := e, to_right := rest, to_left := to_left s @ out\<rparr>)"
| loses_to_right: "to_right s = xs @ pkt # ys \<Longrightarrow> link_step s (s\<lparr>to_right := xs @ ys\<rparr>)"
| loses_to_left: "to_left s = xs @ pkt # ys \<Longrightarrow> link_step s (s\<lparr>to_left := xs @ ys\<rparr>)"
| garbles_to_right: "to_right s = xs @ pkt # ys \<Longrightarrow>
    link_step s (s\<lparr>to_right := xs @ Garbled err # ys\<rparr>)"
| garbles_to_left: "to_left s = xs @ pkt # ys \<Longrightarrow>
    link_step s (s\<lparr>to_left := xs @ Garbled err # ys\<rparr>)"

inductive link_reach :: "link \<Rightarrow> bool" where
  link_reach_start: "link_reach link_start"
| link_reach_step: "link_reach s \<Longrightarrow> link_step s s' \<Longrightarrow> link_reach s'"

section \<open>What the packets in transit stand for\<close>

text \<open>
  \<open>data_ok sub e F\<close>: every data frame in \<open>F\<close>, the next to arrive first, is the one with some
  index \<open>n\<close> of the submitted payloads, and when it arrives the receiver expects at most \<open>n + 7\<close>;
  \<open>e\<close> is the index expected now. \<open>ack_ok lo hi B\<close>: the acknowledgements in \<open>B\<close> are those of a
  growing sequence of indices from \<open>lo\<close> to \<open>hi\<close>.
\<close>

fun data_ok :: "bytes list \<Rightarrow> nat \<Rightarrow> packet list \<Rightarrow> bool" where
  "data_ok sub e [] \<longleftrightarrow> True"
| "data_ok sub e (Intact (Data fn an rt p) # rest) \<longleftrightarrow>
     (\<exists>n < length sub. fn = seq_num n \<and> p = sub ! n \<and> e < n + 8 \<and> data_ok sub (max e (Suc n)) rest)"
| "data_ok sub e (_ # rest) \<longleftrightarrow> data_ok sub e rest"

fun acks_of :: "packet \<Rightarrow> u8 option" where
  "acks_of (Intact f) = acknowledges f"
| "acks_of (Garbled _) = None"

fun ack_ok :: "nat \<Rightarrow> nat \<Rightarrow> packet list \<Rightarrow> bool" where
  "ack_ok lo hi [] \<longleftrightarrow> lo \<le> hi"
| "ack_ok lo hi (pkt # rest) \<longleftrightarrow>
     (case acks_of pkt of
        Some a \<Rightarrow> \<exists>n. a = seq_num n \<and> lo \<le> n \<and> ack_ok n hi rest
      | None \<Rightarrow> ack_ok lo hi rest)"

fun no_reset :: "packet \<Rightarrow> bool" where
  "no_reset (Intact (RstAck _ _)) = False"
| "no_reset (Intact (Error _ _)) = False"
| "no_reset _ = True"

lemma data_ok_antimono: "data_ok sub e F \<Longrightarrow> e' \<le> e \<Longrightarrow> data_ok sub e' F"
proof (induction sub e F arbitrary: e' rule: data_ok.induct)
  case (2 sub e fn an rt p rest)
  then obtain n where n: "n < length sub" "fn = seq_num n" "p = sub ! n" "e < n + 8"
    "data_ok sub (max e (Suc n)) rest" by auto
  have "data_ok sub (max e' (Suc n)) rest"
    using 2(1)[of n] n 2(3) by (metis max.mono order_refl)
  with n 2(3) show ?case by auto
qed auto

lemma data_ok_Cons: "data_ok sub e (pkt # F) \<Longrightarrow> data_ok sub e F"
proof (cases "\<exists>fn an rt p. pkt = Intact (Data fn an rt p)")
  case True
  assume "data_ok sub e (pkt # F)"
  with True obtain n where "data_ok sub (max e (Suc n)) F" by auto
  then show ?thesis by (rule data_ok_antimono) simp
next
  case False
  assume "data_ok sub e (pkt # F)"
  with False show ?thesis by (cases "(sub, e, pkt # F)" rule: data_ok.cases) auto
qed

lemma data_ok_lose: "data_ok sub e (xs @ pkt # ys) \<Longrightarrow> data_ok sub e (xs @ ys)"
proof (induction xs arbitrary: e)
  case (Cons x xs)
  show ?case
  proof (cases "\<exists>fn an rt p. x = Intact (Data fn an rt p)")
    case True
    with Cons show ?thesis by fastforce
  next
    case False
    with Cons show ?thesis by (cases "(sub, e, x # xs)" rule: data_ok.cases) auto
  qed
qed (simp add: data_ok_Cons)

text \<open>A packet that is no data frame plays no part in \<open>data_ok\<close>.\<close>

definition is_data :: "packet \<Rightarrow> bool" where
  "is_data pkt \<longleftrightarrow> (case pkt of Intact (Data _ _ _ _) \<Rightarrow> True | _ \<Rightarrow> False)"

lemma data_ok_not_data [simp]: "\<not> is_data pkt \<Longrightarrow> data_ok sub e (pkt # F) = data_ok sub e F"
  by (cases "(sub, e, pkt # F)" rule: data_ok.cases) (auto simp: is_data_def)

lemma is_data_cases:
  obtains fn an rt p where "pkt = Intact (Data fn an rt p)" | "\<not> is_data pkt"
proof (cases "is_data pkt")
  case True
  then obtain fn an rt p where "pkt = Intact (Data fn an rt p)"
    by (auto simp: is_data_def split: packet.splits ash_frame.splits)
  then show ?thesis by (rule that(1))
qed (rule that(2))

lemma not_data_simps [simp]:
  "\<not> is_data (Garbled err)" "\<not> is_data (Intact (Ack an nr))" "\<not> is_data (Intact (Nak an nr))"
  by (simp_all add: is_data_def)

lemma data_ok_garble: "data_ok sub e (xs @ pkt # ys) \<Longrightarrow> data_ok sub e (xs @ Garbled err # ys)"
proof (induction xs arbitrary: e)
  case (Cons x xs)
  show ?case by (rule is_data_cases [of x]) (use Cons in auto)
qed (simp add: data_ok_Cons)

lemma data_ok_snoc_other: "\<not> is_data pkt \<Longrightarrow> data_ok sub e F \<Longrightarrow> data_ok sub e (F @ [pkt])"
proof (induction F arbitrary: e)
  case (Cons x F)
  show ?case by (rule is_data_cases [of x]) (use Cons in auto)
qed simp

lemma data_ok_submit: "data_ok sub e F \<Longrightarrow> data_ok (sub @ [p]) e F"
proof (induction F arbitrary: e)
  case (Cons x F)
  show ?case by (rule is_data_cases [of x]) (use Cons in \<open>auto simp: nth_append\<close>)
qed simp

lemma data_ok_snoc:
  "data_ok sub e F \<Longrightarrow> e \<le> length sub \<Longrightarrow> n < length sub \<Longrightarrow> length sub < n + 8 \<Longrightarrow>
   data_ok sub e (F @ [Intact (Data (seq_num n) an rt (sub ! n))])"
proof (induction F arbitrary: e)
  case (Cons x F)
  show ?case
  proof (rule is_data_cases [of x])
    fix fn an rt p assume "x = Intact (Data fn an rt p)"
    with Cons show ?thesis by (fastforce simp: max_def)
  qed (use Cons in auto)
qed auto

text \<open>The frame that arrives: accepted exactly when its index is the expected one.\<close>

lemma data_ok_receive:
  assumes "data_ok sub e (Intact (Data fn an rt p) # F)" and "e \<le> length sub"
    and "length sub \<le> e + 7"
  shows "data_ok sub e F"
    and "fn = seq_num e \<Longrightarrow> e < length sub \<and> p = sub ! e \<and> data_ok sub (Suc e) F"
proof -
  from assms(1) obtain n where n: "n < length sub" "fn = seq_num n" "p = sub ! n" "e < n + 8"
    "data_ok sub (max e (Suc n)) F" by auto
  show "data_ok sub e F" by (rule data_ok_antimono [OF n(5)]) simp
  assume "fn = seq_num e"
  with n seq_num_window [of e n] assms(3) have "n = e" by auto
  with n show "e < length sub \<and> p = sub ! e \<and> data_ok sub (Suc e) F" by simp
qed

lemma ack_ok_le: "ack_ok lo hi B \<Longrightarrow> lo \<le> hi"
proof (induction B arbitrary: lo)
  case (Cons pkt B)
  then show ?case by (auto split: option.splits intro: le_trans)
qed simp

lemma ack_ok_antimono: "ack_ok lo hi B \<Longrightarrow> lo' \<le> lo \<Longrightarrow> ack_ok lo' hi B"
proof (induction B arbitrary: lo lo')
  case (Cons pkt B)
  then show ?case by (cases "acks_of pkt") (auto intro: le_trans)
qed simp

lemma ack_ok_Cons: "ack_ok lo hi (pkt # B) \<Longrightarrow> ack_ok lo hi B"
  by (auto split: option.splits intro: ack_ok_antimono)

lemma ack_ok_lose: "ack_ok lo hi (xs @ pkt # ys) \<Longrightarrow> ack_ok lo hi (xs @ ys)"
proof (induction xs arbitrary: lo)
  case (Cons x xs)
  then show ?case by (auto split: option.splits)
qed (simp only: append_Nil ack_ok_Cons)

lemma ack_ok_garble: "ack_ok lo hi (xs @ pkt # ys) \<Longrightarrow> ack_ok lo hi (xs @ Garbled err # ys)"
proof (induction xs arbitrary: lo)
  case (Cons x xs)
  then show ?case by (auto split: option.splits)
next
  case Nil
  then show ?case using ack_ok_Cons [of lo hi pkt ys] by simp
qed

lemma ack_ok_snoc: "ack_ok lo hi B \<Longrightarrow> acks_of pkt = None \<or> acks_of pkt = Some (seq_num hi) \<Longrightarrow>
  ack_ok lo hi (B @ [pkt])"
proof (induction B arbitrary: lo)
  case (Cons x B)
  then show ?case by (auto split: option.splits)
qed (auto split: option.split)

lemma ack_ok_raise: "ack_ok lo hi B \<Longrightarrow> hi \<le> hi' \<Longrightarrow> ack_ok lo hi' B"
proof (induction B arbitrary: lo)
  case (Cons x B)
  then show ?case by (auto split: option.splits)
qed simp

section \<open>The invariant\<close>

text \<open>
  One direction: \<open>s\<close> sends payloads to \<open>r\<close> in \<open>F\<close>, and \<open>r\<close> acknowledges in \<open>B\<close>. The index of
  the oldest frame in flight is \<open>sent s - length (in_flight ..)\<close>.
\<close>

definition acked :: "endpoint \<Rightarrow> nat" where
  "acked s = length (submitted s) - length (in_flight (conn s))"

definition sender_ok :: "endpoint \<Rightarrow> bool" where
  "sender_ok s \<longleftrightarrow>
     length (in_flight (conn s)) \<le> 7 \<and> length (in_flight (conn s)) \<le> length (submitted s) \<and>
     flight_from (acked s) (in_flight (conn s)) \<and>
     map flight_payload (in_flight (conn s)) = drop (acked s) (submitted s) \<and>
     next_tx_frame (conn s) = seq_num (length (submitted s))"

definition receiver_ok :: "bytes list \<Rightarrow> endpoint \<Rightarrow> bool" where
  "receiver_ok sub r \<longleftrightarrow>
     next_rx_frame (conn r) = seq_num (length (delivered r)) \<and>
     length (delivered r) \<le> length sub \<and> delivered r = take (length (delivered r)) sub"

definition direction_ok :: "endpoint \<Rightarrow> endpoint \<Rightarrow> packet list \<Rightarrow> packet list \<Rightarrow> bool" where
  "direction_ok s r F B \<longleftrightarrow>
     sender_ok s \<and> receiver_ok (submitted s) r \<and>
     data_ok (submitted s) (length (delivered r)) F \<and>
     ack_ok (acked s) (length (delivered r)) B"

text \<open>Both directions, seen from the endpoint \<open>x\<close>: \<open>tx\<close> is on its way to \<open>x\<close>, \<open>ty\<close> to \<open>y\<close>.\<close>

definition both_ok :: "endpoint \<Rightarrow> endpoint \<Rightarrow> packet list \<Rightarrow> packet list \<Rightarrow> bool" where
  "both_ok x y tx ty \<longleftrightarrow>
     direction_ok x y ty tx \<and> direction_ok y x tx ty \<and> (\<forall>pkt \<in> set tx \<union> set ty. no_reset pkt)"

definition link_ok :: "link \<Rightarrow> bool" where
  "link_ok s \<longleftrightarrow> both_ok (left s) (right s) (to_left s) (to_right s)"

lemma both_ok_sym: "both_ok x y tx ty \<longleftrightarrow> both_ok y x ty tx"
  by (auto simp: both_ok_def)

lemmas direction_defs = direction_ok_def sender_ok_def receiver_ok_def

lemma acked_le: "sender_ok s \<Longrightarrow> acked s + length (in_flight (conn s)) = length (submitted s)"
  by (simp add: sender_ok_def acked_def)

subsection \<open>Submitting\<close>

lemma submit_ok:
  assumes ok: "both_ok x y tx ty" and sub: "ep_submit p x = (out, x')"
  shows "both_ok x' y tx (ty @ out)"
proof (cases "send_data p (conn x)")
  case (Pair res c)
  show ?thesis
  proof (cases res)
    case (Inl e)
    with Pair sub have "c = conn x" "out = []" "x' = x"
      by (auto simp: ep_submit_def send_data_def Let_def split: if_splits)
    with ok show ?thesis by simp
  next
    case (Inr f)
    let ?n = "length (submitted x)" and ?c = "conn x"
    from ok have S: "sender_ok x" and R: "receiver_ok (submitted y) x"
      and d: "data_ok (submitted x) (length (delivered y)) ty" and r: "receiver_ok (submitted x) y"
      and a: "ack_ok (acked y) (length (delivered x)) ty"
      by (auto simp: both_ok_def direction_ok_def)
    from Pair Inr S R have f: "f = Data (seq_num ?n) (seq_num (length (delivered x))) False p"
      and len: "length (in_flight ?c) < 7"
      and c: "c = ?c\<lparr>next_tx_frame := seq_num (Suc ?n),
        in_flight := in_flight ?c @ [\<lparr>flight_num = seq_num ?n, flight_payload = p, sends = 1\<rparr>],
        ack_pending := False\<rparr>"
      by (auto simp: send_data_def Let_def sender_ok_def receiver_ok_def const_defs split: if_splits)
    from Pair Inr sub have out: "out = [Intact f]" and x': "x' = x\<lparr>conn := c, submitted := submitted x @ [p]\<rparr>"
      by (auto simp: ep_submit_def)
    have acked': "acked x' = acked x" by (simp add: acked_def x' c)
    have keep: "delivered x' = delivered x" "\<forall>pkt \<in> set out. no_reset pkt"
      by (simp_all add: x' out f)
    have s': "sender_ok x'"
      using S len acked_le [OF S]
      by (simp add: sender_ok_def acked') (simp add: x' c flight_from_snoc)
    have d': "data_ok (submitted x') (length (delivered y)) (ty @ out)"
      using data_ok_snoc [OF data_ok_submit [OF d, of p], of ?n] r
      by (simp add: out f x' receiver_ok_def)
    have r': "receiver_ok (submitted x') y" "receiver_ok (submitted y) x'"
      using r R by (auto simp: receiver_ok_def x' c)
    have a': "ack_ok (acked y) (length (delivered x')) (ty @ out)"
      using ack_ok_snoc [OF a, of "Intact f"] by (simp add: out f x')
    show ?thesis
      using ok s' d' r' a' by (auto simp: both_ok_def direction_ok_def acked' keep)
  qed
qed

subsection \<open>Resending\<close>

lemma resend_ok:
  assumes ok: "both_ok x y tx ty" and re: "ep_resend x = (out, x')"
  shows "both_ok x' y tx (ty @ out)"
proof -
  let ?c = "conn x"
  consider "out = []" "\<exists>st. x' = x\<lparr>conn := ?c\<lparr>state := st\<rparr>\<rparr>"
    | f fs k where "in_flight ?c = f # fs"
      "out = [Intact (Data (flight_num f) (next_rx_frame ?c) True (flight_payload f))]"
      "x' = x\<lparr>conn := ?c\<lparr>in_flight := f\<lparr>sends := k\<rparr> # fs\<rparr>\<rparr>"
  proof (cases "in_flight ?c")
    case Nil
    with re have "out = []" "x' = x" by (auto simp: ep_resend_def retransmit_oldest_def packets_of_def)
    moreover have "x = x\<lparr>conn := ?c\<lparr>state := state ?c\<rparr>\<rparr>" by simp
    ultimately show ?thesis using that(1) by metis
  next
    case (Cons f fs)
    with re show ?thesis
      using that(1) that(2) [of f fs]
      by (fastforce simp: ep_resend_def retransmit_oldest_def packets_of_def split: if_splits)
  qed
  then show ?thesis
  proof cases
    case 1
    with ok show ?thesis by (auto simp: both_ok_def direction_defs acked_def)
  next
    case 2
    from ok have S: "sender_ok x" and R: "receiver_ok (submitted y) x"
      and d: "data_ok (submitted x) (length (delivered y)) ty" and r: "receiver_ok (submitted x) y"
      and a: "ack_ok (acked y) (length (delivered x)) ty"
      by (auto simp: both_ok_def direction_ok_def)
    have lt: "acked x < length (submitted x)" "length (submitted x) < acked x + 8"
      using acked_le [OF S] S 2(1) by (auto simp: sender_ok_def)
    have "flight_num f = seq_num (acked x)" "flight_payload f = submitted x ! acked x"
      using S 2(1) Cons_nth_drop_Suc [OF lt(1), symmetric] by (auto simp: sender_ok_def flight_from_Cons)
    then have d': "data_ok (submitted x) (length (delivered y)) (ty @ out)"
      using data_ok_snoc [OF d _ lt] r by (simp add: 2(2) receiver_ok_def)
    have a': "ack_ok (acked y) (length (delivered x)) (ty @ out)"
      using ack_ok_snoc [OF a] R by (simp add: 2(2) receiver_ok_def)
    have acked': "acked x' = acked x" by (simp add: acked_def 2)
    have "sender_ok x'"
      using S by (simp add: sender_ok_def acked') (simp add: 2 flight_from_Cons)
    moreover have "delivered x' = delivered x" "submitted x' = submitted x"
      "next_rx_frame (conn x') = next_rx_frame ?c" "\<forall>pkt \<in> set out. no_reset pkt"
      by (simp_all add: 2)
    ultimately show ?thesis
      using ok d' a' r R by (auto simp: both_ok_def direction_ok_def receiver_ok_def acked')
  qed
qed

subsection \<open>Receiving\<close>

text \<open>An acknowledgement that arrives: the frames it covers leave the queue, and no others.\<close>

lemma retire_ok:
  assumes S: "sender_ok x" and n: "acked x \<le> n" "n \<le> length (submitted x)"
    and x': "x' = x\<lparr>conn := retire_acknowledged (seq_num n) (conn x)\<rparr>"
  shows "sender_ok x'" "acked x' = n" "submitted x' = submitted x" "delivered x' = delivered x"
    "next_rx_frame (conn x') = next_rx_frame (conn x)" "state (conn x') = state (conn x)"
proof -
  let ?k = "n - acked x"
  have c: "conn x' = (conn x)\<lparr>in_flight := drop ?k (in_flight (conn x))\<rparr>"
    using retire_cumulative [of "acked x" "conn x" n] S n acked_le [OF S]
    by (simp add: x' sender_ok_def)
  have k: "?k \<le> length (in_flight (conn x))" using n acked_le [OF S] by simp
  have sub: "submitted x' = submitted x" by (simp add: x')
  show a: "acked x' = n" using n acked_le [OF S] by (simp add: acked_def c sub)
  have "map flight_payload (in_flight (conn x')) = drop n (submitted x)"
    using S n by (simp add: c sender_ok_def drop_map [symmetric])
  then show "sender_ok x'"
    using acked_le [OF S] S flight_from_drop [OF _ k, of "acked x"] n k by (auto simp: sender_ok_def a c sub)
qed (simp_all add: x' retire_acknowledged_def Let_def)

lemma both_ok_drop_head: "both_ok x y (pkt # tx) ty \<Longrightarrow> both_ok x y tx ty"
  by (auto simp: both_ok_def direction_ok_def intro: data_ok_Cons ack_ok_Cons simp del: ack_ok.simps)

lemma both_ok_retire:
  assumes ok: "both_ok x y (Intact f # tx) ty" and f: "acknowledges f = Some an"
    and x': "x' = x\<lparr>conn := retire_acknowledged an (conn x)\<rparr>"
  shows "both_ok x' y tx ty" "delivered x' = delivered x"
proof -
  from ok f obtain n where n: "an = seq_num n" "acked x \<le> n" and a: "ack_ok n (length (delivered y)) tx"
    by (auto simp: both_ok_def direction_ok_def)
  from ok have S: "sender_ok x" and le: "length (delivered y) \<le> length (submitted x)"
    by (auto simp: both_ok_def direction_ok_def receiver_ok_def)
  have "n \<le> length (submitted x)" using ack_ok_le [OF a] le by simp
  note r = retire_ok [OF S n(2) this x' [unfolded n(1)]]
  show "both_ok x' y tx ty"
    using both_ok_drop_head [OF ok] r a by (auto simp: both_ok_def direction_ok_def receiver_ok_def)
  show "delivered x' = delivered x" by (fact r)
qed

text \<open>An answer without data: an acknowledgement of what has been delivered.\<close>

lemma both_ok_answer:
  assumes "both_ok x y tx ty" and "\<not> is_data pkt" "no_reset pkt"
    and "acks_of pkt = Some (next_rx_frame (conn x))"
  shows "both_ok x y tx (ty @ [pkt])"
  using assms data_ok_snoc_other ack_ok_snoc
  by (auto simp: both_ok_def direction_ok_def receiver_ok_def)

lemma both_ok_state:
  "both_ok x y tx ty \<Longrightarrow> both_ok (x\<lparr>conn := (conn x)\<lparr>nak_pending := b\<rparr>\<rparr>) y tx ty"
  by (auto simp: both_ok_def direction_defs acked_def)

text \<open>The accepted data frame: the receiver has one more payload of the sender's.\<close>

lemma both_ok_accept:
  assumes ok: "both_ok x y (Intact (Data fn an rt p) # tx) ty" and ok': "both_ok x' y tx ty"
    and same: "delivered x' = delivered x" and fn: "fn = next_rx_frame (conn x')"
    and x'': "x'' = x'\<lparr>conn := (conn x')\<lparr>next_rx_frame := next_sequence fn, nak_pending := False\<rparr>,
      delivered := delivered x' @ [p]\<rparr>"
  shows "both_ok x'' y tx ty"
proof -
  let ?e = "length (delivered x)"
  from ok' have S: "sender_ok x'" and R: "receiver_ok (submitted y) x'"
    by (auto simp: both_ok_def direction_ok_def)
  from ok have d: "data_ok (submitted y) ?e (Intact (Data fn an rt p) # tx)"
    and Sy: "sender_ok y" and a: "ack_ok (acked y) ?e ty"
    by (auto simp: both_ok_def direction_ok_def simp del: data_ok.simps)
  have e: "fn = seq_num ?e" using R fn same by (simp add: receiver_ok_def)
  have bound: "length (submitted y) \<le> ?e + 7" "?e \<le> length (submitted y)"
    using ack_ok_le [OF a] acked_le [OF Sy] Sy R same by (auto simp: sender_ok_def receiver_ok_def)
  note acc = data_ok_receive(2) [OF d bound(2,1) e]
  have len: "length (delivered x'') = Suc ?e" by (simp add: x'' same)
  have R'': "receiver_ok (submitted y) x''"
    using R acc by (simp add: receiver_ok_def x'' same e take_Suc_conv_app_nth)
  have S'': "sender_ok x''" using S by (simp add: sender_ok_def acked_def x'')
  have "ack_ok (acked y) (length (delivered x'')) ty"
    using ack_ok_raise [OF a, of "Suc ?e"] by (simp add: len)
  then show ?thesis
    using ok' acc R'' S'' by (auto simp: both_ok_def direction_ok_def len) (simp_all add: x'' acked_def)
qed

lemma receive_ok:
  assumes ok: "both_ok x y (pkt # tx) ty" and rc: "ep_receive pkt x = (out, x')"
  shows "both_ok x' y tx (ty @ out)"
proof (cases pkt)
  case (Garbled err)
  have "both_ok (x\<lparr>conn := (conn x)\<lparr>nak_pending := True\<rparr>\<rparr>) y tx ty"
    by (rule both_ok_state [OF both_ok_drop_head [OF ok]])
  from both_ok_answer [OF this, of "Intact (Nak (next_rx_frame (conn x)) False)"] both_ok_drop_head [OF ok]
  show ?thesis
    using rc by (auto simp: Garbled ep_receive_def on_decode_failure_def packets_of_def split: if_splits)
next
  case (Intact f)
  from ok Intact have nr: "no_reset (Intact f)" by (simp add: both_ok_def)
  show ?thesis
  proof (cases f)
    case (Data fn an rt p)
    define x1 where "x1 = x\<lparr>conn := retire_acknowledged an (conn x)\<rparr>"
    have ok1: "both_ok x1 y tx ty" and d1: "delivered x1 = delivered x"
      by (rule both_ok_retire [OF ok [unfolded Intact Data] _ x1_def]; simp)+
    show ?thesis
    proof (cases "fn = next_rx_frame (conn x1)")
      case True
      define x2 where "x2 = x1\<lparr>conn := (conn x1)\<lparr>next_rx_frame := next_sequence fn, nak_pending := False\<rparr>,
        delivered := delivered x1 @ [p]\<rparr>"
      have "both_ok x2 y tx ty" by (rule both_ok_accept [OF ok [unfolded Intact Data] ok1 d1 True x2_def])
      from both_ok_answer [OF this, of "Intact (Ack (next_rx_frame (conn x2)) False)"] rc True
      show ?thesis
        by (auto simp: Intact Data ep_receive_def on_frame_def packets_of_def Let_def x1_def x2_def)
    next
      case False
      from both_ok_answer [OF ok1, of "Intact (Ack (next_rx_frame (conn x1)) False)"] rc False
      show ?thesis by (auto simp: Intact Data ep_receive_def on_frame_def packets_of_def Let_def x1_def)
    qed
  next
    case (Ack an b)
    define x1 where "x1 = x\<lparr>conn := retire_acknowledged an (conn x)\<rparr>"
    have "both_ok x1 y tx ty" by (rule both_ok_retire [OF ok [unfolded Intact Ack] _ x1_def]) simp
    with rc show ?thesis by (simp add: Intact Ack ep_receive_def on_frame_def packets_of_def x1_def)
  next
    case (Nak an b)
    define x1 where "x1 = x\<lparr>conn := retire_acknowledged an (conn x)\<rparr>"
    have ok1: "both_ok x1 y tx ty" by (rule both_ok_retire [OF ok [unfolded Intact Nak] _ x1_def]) simp
    have "ep_resend x1 = (out, x')"
      using rc by (auto simp: Intact Nak ep_receive_def on_frame_def ep_resend_def x1_def split: prod.splits)
    with ok1 show ?thesis by (rule resend_ok)
  next
    case Rst
    with rc both_ok_drop_head [OF ok] show ?thesis
      by (simp add: Intact ep_receive_def on_frame_def packets_of_def)
  qed (use nr in simp_all)
qed

section \<open>Every reachable state of the link\<close>

lemma both_ok_lose: "both_ok x y (xs @ pkt # ys) ty \<Longrightarrow> both_ok x y (xs @ ys) ty"
  by (auto simp: both_ok_def direction_ok_def intro: data_ok_lose ack_ok_lose)

lemma both_ok_garble: "both_ok x y (xs @ pkt # ys) ty \<Longrightarrow> both_ok x y (xs @ Garbled err # ys) ty"
  by (auto simp: both_ok_def direction_ok_def intro: data_ok_garble ack_ok_garble)

lemma link_start_ok: "link_ok link_start"
  by (simp add: link_ok_def both_ok_def direction_defs acked_def link_start_def on_frame_def
      connection_new_def Let_def)

lemma link_step_ok: "link_step s s' \<Longrightarrow> link_ok s \<Longrightarrow> link_ok s'"
proof (induction rule: link_step.induct)
  case (left_submits p s out e)
  then show ?case by (auto simp: link_ok_def intro: submit_ok)
next
  case (right_submits p s out e)
  then have "both_ok (right s) (left s) (to_right s) (to_left s)"
    by (simp add: link_ok_def both_ok_sym [of "left s"])
  from submit_ok [OF this right_submits(1)] show ?case
    by (simp add: link_ok_def both_ok_sym [of "left s"])
next
  case (left_resends s out e)
  then show ?case by (auto simp: link_ok_def intro: resend_ok)
next
  case (right_resends s out e)
  then have "both_ok (right s) (left s) (to_right s) (to_left s)"
    by (simp add: link_ok_def both_ok_sym [of "left s"])
  from resend_ok [OF this right_resends(1)] show ?case
    by (simp add: link_ok_def both_ok_sym [of "left s"])
next
  case (left_receives s pkt rest out e)
  then show ?case by (auto simp: link_ok_def intro: receive_ok)
next
  case (right_receives s pkt rest out e)
  then have "both_ok (right s) (left s) (pkt # rest) (to_left s)"
    by (simp add: link_ok_def both_ok_sym [of "left s"])
  from receive_ok [OF this right_receives(2)] show ?case
    by (simp add: link_ok_def both_ok_sym [of "left s"])
next
  case (loses_to_right s xs pkt ys)
  then have "both_ok (right s) (left s) (xs @ pkt # ys) (to_left s)"
    by (simp add: link_ok_def both_ok_sym [of "left s"])
  from both_ok_lose [OF this] show ?case by (simp add: link_ok_def both_ok_sym [of "left s"])
next
  case (loses_to_left s xs pkt ys)
  then show ?case by (auto simp: link_ok_def intro: both_ok_lose)
next
  case (garbles_to_right s xs pkt ys err)
  then have "both_ok (right s) (left s) (xs @ pkt # ys) (to_left s)"
    by (simp add: link_ok_def both_ok_sym [of "left s"])
  from both_ok_garble [OF this] show ?case by (simp add: link_ok_def both_ok_sym [of "left s"])
next
  case (garbles_to_left s xs pkt ys err)
  then show ?case by (auto simp: link_ok_def intro: both_ok_garble)
qed

lemma link_reach_ok: "link_reach s \<Longrightarrow> link_ok s"
  by (induction rule: link_reach.induct) (auto intro: link_start_ok link_step_ok)

lemma link_ok_prefix: "both_ok x y tx ty \<Longrightarrow> prefix (delivered y) (submitted x)"
  unfolding both_ok_def direction_ok_def receiver_ok_def by (metis take_is_prefix)

lemma link_ok_queue:
  assumes "both_ok x y tx ty"
  shows "\<exists>done. submitted x = done @ map flight_payload (in_flight (conn x)) \<and> prefix done (delivered y)"
proof -
  from assms have S: "sender_ok x" and r: "receiver_ok (submitted x) y" and "ack_ok (acked x) (length (delivered y)) tx"
    by (auto simp: both_ok_def direction_ok_def)
  then have le: "acked x \<le> length (delivered y)" using ack_ok_le by blast
  have "submitted x = take (acked x) (submitted x) @ map flight_payload (in_flight (conn x))"
    using S by (simp add: sender_ok_def)
  moreover have "take (acked x) (submitted x) = take (acked x) (delivered y)"
    using r le by (metis receiver_ok_def min.absorb1 take_take)
  ultimately show ?thesis by (metis take_is_prefix)
qed

section \<open>Properties of the link\<close>

text \<open>A run in which the first transmission is lost and the resent one arrives.\<close>

lemmas link_eval = ep_submit_def ep_resend_def ep_receive_def send_data_def retransmit_oldest_def
  on_frame_def retire_acknowledged_def link_start_def connection_new_def is_connected_def
  packets_of_def next_sequence_def saturating_inc_def

lemma sample_link:
  "\<exists>s. link_reach s \<and> submitted (left s) = [[7]] \<and> delivered (right s) = [[7]] \<and>
     map flight_payload (in_flight (conn (left s))) = [[7]]"
proof -
  obtain o1 l1 where 1: "ep_submit [7] (left link_start) = (o1, l1)" by (cases "ep_submit [7] (left link_start)")
  define s1 where "s1 = link_start\<lparr>left := l1, to_right := to_right link_start @ o1\<rparr>"
  define s2 where "s2 = s1\<lparr>to_right := []\<rparr>"
  obtain o3 l3 where 3: "ep_resend (left s2) = (o3, l3)" by (cases "ep_resend (left s2)")
  define s3 where "s3 = s2\<lparr>left := l3, to_right := to_right s2 @ o3\<rparr>"
  obtain o4 r4 where 4: "ep_receive (hd (to_right s3)) (right s3) = (o4, r4)"
    by (cases "ep_receive (hd (to_right s3)) (right s3)")
  define s4 where "s4 = s3\<lparr>right := r4, to_right := tl (to_right s3), to_left := to_left s3 @ o4\<rparr>"
  have e1: "s1 = \<lparr>left = \<lparr>conn = \<lparr>state = Connected, next_tx_frame = 1, next_rx_frame = 0,
      in_flight = [\<lparr>flight_num = 0, flight_payload = [7], sends = 1\<rparr>], ack_pending = False, nak_pending = False\<rparr>,
      submitted = [[7]], delivered = []\<rparr>, right = right link_start,
      to_right = [Intact (Data 0 0 False [7])], to_left = []\<rparr>"
    using 1 by (auto simp: s1_def link_eval const_defs Let_def)
  have e3: "to_right s3 = [Intact (Data 0 0 True [7])]" "submitted (left s3) = [[7]]"
    "right s3 = right link_start" "to_left s3 = []"
    "map flight_payload (in_flight (conn (left s3))) = [[7]]"
    using 3 by (auto simp: s3_def s2_def e1 link_eval const_defs word_le_nat_alt)
  have e4: "submitted (left s4) = [[7]]" "delivered (right s4) = [[7]]"
    "map flight_payload (in_flight (conn (left s4))) = [[7]]"
    using 4 e3 by (auto simp: s4_def link_eval const_defs Let_def)
  have "link_step link_start s1" unfolding s1_def by (rule left_submits [OF 1])
  moreover have "link_step s1 s2"
    using loses_to_right [of s1 "[]" "Intact (Data 0 0 False [7])" "[]"] by (simp add: s2_def e1)
  moreover have "link_step s2 s3" unfolding s3_def by (rule left_resends [OF 3])
  moreover have "link_step s3 s4"
    unfolding s4_def by (rule right_receives [OF _ 4]) (simp add: e3)
  ultimately have "link_reach s4" using link_reach_start link_reach_step by metis
  with e4 show ?thesis by (intro exI [of _ s4]) simp
qed

text \<open>
  C4. Reliable delivery between two resets. However the line loses and garbles frames, and however sends, resends
  and receptions interleave, what each side has delivered is at every moment a prefix of what the
  other side submitted: nothing is delivered twice, out of order, altered, or out of thin air,
  although the frames carry only three-bit numbers.
\<close>

theorem link_delivers_prefix:
  assumes "link_reach s"
  shows "prefix (delivered (right s)) (submitted (left s)) \<and> prefix (delivered (left s)) (submitted (right s))"
  using link_reach_ok [OF assms] link_ok_prefix both_ok_sym by (auto simp: link_ok_def)

lemma link_delivers_prefix_witness:
  "\<exists>s :: link. delivered (right s) = [[7]] \<and> prefix (delivered (right s)) (submitted (left s))"
proof -
  obtain s where "link_reach s" "delivered (right s) = [[7]]" using sample_link by blast
  with link_delivers_prefix [of s] show ?thesis by (intro exI [of _ s]) simp
qed

text \<open>An endpoint of the link is connected or has failed; it is not in the middle of a reset.\<close>

definition is_up :: "endpoint \<Rightarrow> bool" where
  "is_up e \<longleftrightarrow> state (conn e) = Connected \<or> state (conn e) = Failed"

lemma is_up_submit: "is_up e \<Longrightarrow> ep_submit p e = (out, e') \<Longrightarrow> is_up e'"
  by (auto simp: is_up_def ep_submit_def send_data_def Let_def split: if_splits)

lemma state_retire [simp]: "state (retire_acknowledged an c) = state c"
  by (simp add: retire_acknowledged_def Let_def)

lemma is_up_resend: "is_up e \<Longrightarrow> ep_resend e = (out, e') \<Longrightarrow> is_up e'"
  by (auto simp: is_up_def ep_resend_def retransmit_oldest_def split: list.splits if_splits)

lemma is_up_receive: "is_up e \<Longrightarrow> ep_receive pkt e = (out, e') \<Longrightarrow> is_up e'"
  by (auto simp: is_up_def ep_receive_def on_frame_def on_decode_failure_def retransmit_oldest_def
      Let_def split: packet.splits ash_frame.splits list.splits if_splits)

lemma link_reach_up: "link_reach s \<Longrightarrow> is_up (left s) \<and> is_up (right s)"
proof (induction rule: link_reach.induct)
  case link_reach_start
  show ?case by (simp add: is_up_def link_start_def on_frame_def Let_def)
next
  case (link_reach_step s s')
  from link_reach_step(2,3) show ?case
    by cases (auto intro: is_up_submit is_up_resend is_up_receive)
qed

lemma begin_reset_empties: "\<forall>n. state c \<noteq> Resetting n \<Longrightarrow> in_flight (snd (begin_reset c)) = []"
  by (auto simp: begin_reset_def MAX_RESET_ATTEMPTS_def split: connection_state.splits)

text \<open>
  C14. Nothing is forgotten between two resets, and a reset forgets exactly the queue. However
  the line loses and garbles frames, what a side \<open>x\<close> submitted since the handshake is at every
  moment some payloads that the other side \<open>y\<close> has delivered, followed by exactly those in the
  retransmission queue of \<open>x\<close>: a payload leaves the queue only after it was delivered. The one
  exception is the end of the connection: a reset begun by the host, an \<open>RSTACK\<close> and an \<open>ERROR\<close>
  frame empty the queue, so that precisely the payloads in it at that moment are given up,
  delivered or not.
\<close>

theorem link_forgets_nothing:
  assumes "link_reach s" and "(x, y) = (left s, right s) \<or> (x, y) = (right s, left s)"
  shows "(\<exists>out. submitted x = out @ map flight_payload (in_flight (conn x)) \<and>
      prefix out (delivered y)) \<and>
    (\<forall>c \<in> {snd (begin_reset (conn x)), snd (on_frame (RstAck v r) (conn x)),
       snd (on_frame (Error v r) (conn x))}. in_flight c = [])"
proof -
  have ok: "both_ok (left s) (right s) (to_left s) (to_right s)"
    using link_reach_ok [OF assms(1)] by (simp add: link_ok_def)
  from link_ok_queue [OF ok] link_ok_queue [OF ok [unfolded both_ok_sym [of "left s"]]] assms(2)
  have "\<exists>out. submitted x = out @ map flight_payload (in_flight (conn x)) \<and> prefix out (delivered y)"
    by blast
  moreover have "\<forall>n. state (conn x) \<noteq> Resetting n"
    using link_reach_up [OF assms(1)] assms(2) by (auto simp: is_up_def)
  ultimately show ?thesis by (simp add: begin_reset_empties) (simp add: on_frame_def)
qed

lemma link_forgets_nothing_witness:
  "\<exists>(s :: link) out. in_flight (conn (left s)) \<noteq> [] \<and>
     submitted (left s) = out @ map flight_payload (in_flight (conn (left s))) \<and>
     in_flight (snd (on_frame (Error 2 0) (conn (left s)))) = []"
proof -
  obtain s where s: "link_reach s" "map flight_payload (in_flight (conn (left s))) = [[7]]"
    using sample_link by auto
  from s(2) have "in_flight (conn (left s)) \<noteq> []" by auto
  with link_forgets_nothing [OF s(1), of "left s" "right s" 2 0] show ?thesis by auto
qed

subsection \<open>Progress\<close>

lemma receive_data_answer:
  assumes "ep_receive (Intact (Data fn an rt p)) r = (out, r')"
  shows "out = [Intact (Ack (next_rx_frame (conn r')) False)]"
    and "delivered r' = delivered r @ (if fn = next_rx_frame (conn r) then [p] else [])"
  using assms
  by (auto simp: ep_receive_def on_frame_def packets_of_def retire_acknowledged_def Let_def split: if_splits)

lemma receive_ack:
  "ep_receive (Intact (Ack an nr)) s = ([], s\<lparr>conn := retire_acknowledged an (conn s)\<rparr>)"
  by (simp add: ep_receive_def on_frame_def packets_of_def)

text \<open>
  C27. Progress between two resets. From every reachable state of the link in which the line is idle and the left
  side still waits for an acknowledgement and may resend, one resend that gets through and one
  acknowledgement that gets through shorten its queue: the loss of frames or acknowledgements
  never leaves the two sides in numbers from which they cannot recover.
\<close>

theorem link_resend_recovers:
  assumes reach: "link_reach s" and idle: "to_right s = []" "to_left s = []"
    and f: "in_flight (conn (left s)) = f # fs" "\<not> MAX_RETRANSMITS \<le> sends f"
  shows "\<exists>s1 s2 s3. link_step s s1 \<and> link_step s1 s2 \<and> link_step s2 s3 \<and>
    length (in_flight (conn (left s3))) < length (in_flight (conn (left s)))"
proof -
  let ?l = "left s" and ?r = "right s"
  define d where "d = Data (flight_num f) (next_rx_frame (conn ?l)) True (flight_payload f)"
  define l1 where "l1 = ?l\<lparr>conn := (conn ?l)\<lparr>in_flight := f\<lparr>sends := saturating_inc (sends f)\<rparr> # fs\<rparr>\<rparr>"
  have re: "ep_resend ?l = ([Intact d], l1)"
    using f by (simp add: ep_resend_def retransmit_oldest_def packets_of_def d_def l1_def)
  define s1 where "s1 = s\<lparr>left := l1, to_right := [Intact d]\<rparr>"
  have step1: "link_step s s1" using left_resends [OF re] idle by (simp add: s1_def)
  obtain out r2 where rc: "ep_receive (Intact d) ?r = (out, r2)" by (cases "ep_receive (Intact d) ?r")
  define a where "a = next_rx_frame (conn r2)"
  have out: "out = [Intact (Ack a False)]" and dl: "delivered r2 = delivered ?r @
      (if flight_num f = next_rx_frame (conn ?r) then [flight_payload f] else [])"
    using receive_data_answer [OF rc [unfolded d_def]] by (simp_all add: a_def)
  define s2 where "s2 = s1\<lparr>right := r2, to_right := [], to_left := out\<rparr>"
  have step2: "link_step s1 s2"
    using right_receives [of s1 "Intact d" "[]" out r2] rc idle by (simp add: s1_def s2_def)
  define l3 where "l3 = l1\<lparr>conn := retire_acknowledged a (conn l1)\<rparr>"
  define s3 where "s3 = s2\<lparr>left := l3, to_left := []\<rparr>"
  have step3: "link_step s2 s3"
    using left_receives [of s2 "Intact (Ack a False)" "[]" "[]" l3] out
    by (cases s) (simp add: s1_def s2_def s3_def l3_def receive_ack)
  have ok: "link_ok s" "link_ok s2"
    using link_reach_ok link_step_ok step1 step2 reach by blast+
  then have S: "sender_ok ?l" and S1: "sender_ok l1" and le: "acked ?l \<le> length (delivered ?r)"
    and R: "receiver_ok (submitted ?l) ?r" and R2: "receiver_ok (submitted l1) r2"
    by (auto simp: link_ok_def both_ok_def direction_ok_def s1_def s2_def dest: ack_ok_le)
  have a: "a = seq_num (length (delivered r2))" "length (delivered r2) \<le> length (submitted l1)"
    using R2 by (auto simp: receiver_ok_def a_def)
  have same: "acked l1 = acked ?l" "submitted l1 = submitted ?l" by (simp_all add: l1_def acked_def f)
  have "flight_num f = seq_num (acked ?l)" using S f(1) by (simp add: sender_ok_def flight_from_Cons)
  with R le have more: "acked ?l < length (delivered r2)"
    by (cases "acked ?l = length (delivered ?r)") (auto simp: dl receiver_ok_def)
  have "acked l3 = length (delivered r2)"
    by (rule retire_ok(2) [OF S1 _ a(2)]) (use more a(1) same in \<open>simp_all add: l3_def\<close>)
  moreover have "sender_ok l3"
    by (rule retire_ok(1) [OF S1 _ a(2)]) (use more a(1) same in \<open>simp_all add: l3_def\<close>)
  ultimately have "length (in_flight (conn l3)) < length (in_flight (conn ?l))"
    using acked_le [of l3] acked_le [OF S] more same by (simp add: l3_def)
  then have "length (in_flight (conn (left s3))) < length (in_flight (conn ?l))" by (simp add: s3_def)
  with step1 step2 step3 show ?thesis by blast
qed

lemma sample_idle:
  "\<exists>s. link_reach s \<and> to_right s = [] \<and> to_left s = [] \<and>
     in_flight (conn (left s)) = [\<lparr>flight_num = 0, flight_payload = [7], sends = 1\<rparr>]"
proof -
  obtain o1 l1 where 1: "ep_submit [7] (left link_start) = (o1, l1)" by (cases "ep_submit [7] (left link_start)")
  define s1 where "s1 = link_start\<lparr>left := l1, to_right := to_right link_start @ o1\<rparr>"
  have e: "to_right s1 = [] @ [Intact (Data 0 0 False [7])]" "to_left s1 = []"
    "in_flight (conn (left s1)) = [\<lparr>flight_num = 0, flight_payload = [7], sends = 1\<rparr>]"
    using 1 by (auto simp: s1_def link_eval const_defs Let_def)
  have "link_reach s1"
    using link_reach_step [OF link_reach_start left_submits [OF 1]] by (simp add: s1_def)
  from link_reach_step [OF this loses_to_right [OF e(1)]]
  show ?thesis using e by (intro exI [of _ "s1\<lparr>to_right := [] @ []\<rparr>"]) simp
qed

lemma link_resend_recovers_witness:
  "\<exists>s s1 s2 s3. length (in_flight (conn (left s))) = 1 \<and> link_step s s1 \<and> link_step s1 s2 \<and>
     link_step s2 s3 \<and> in_flight (conn (left s3)) = []"
proof -
  obtain s where s: "link_reach s" "to_right s = []" "to_left s = []"
    "in_flight (conn (left s)) = [\<lparr>flight_num = 0, flight_payload = [7], sends = 1\<rparr>]"
    using sample_idle by auto
  have "\<not> MAX_RETRANSMITS \<le> sends \<lparr>flight_num = 0, flight_payload = [7], sends = 1\<rparr>"
    by (simp add: const_defs word_le_nat_alt)
  from link_resend_recovers [OF s this] obtain s1 s2 s3 where "link_step s s1" "link_step s1 s2"
    "link_step s2 s3" "in_flight (conn (left s3)) = []" using s(4) by auto
  with s(4) show ?thesis
    by (intro exI [of _ s] exI [of _ s1] exI [of _ s2] exI [of _ s3]) simp
qed

end
