(* ===== verification/NcpLink.thy ===== *)
theory NcpLink
  imports AshLink NcpWire
begin

text \<open>
  The runtime (\<open>ncp.rs\<close>) over a line to an NCP whose side of ASH is a connection of the same code.
  The line loses and garbles frames and keeps their order, as in \<open>AshLink\<close>; here the left side of
  the link is the runtime itself, with its decoder, its read loop and its writes. The result is
  that the payloads the runtime dispatches are those that the NCP submitted, in order.
\<close>

section \<open>The line\<close>

record line =
  peer :: endpoint
  to_peer :: "packet list"
  to_host :: "packet list"

definition fresh_line :: line where
  "fresh_line = \<lparr>peer = right link_start, to_peer = [], to_host = []\<rparr>"

lemma line_same: "(w :: line)\<lparr>to_host := to_host w\<rparr> = w"
  by (cases w) simp

text \<open>What happens on the line and at its other end while the host looks elsewhere.\<close>

inductive line_step :: "line \<Rightarrow> line \<Rightarrow> bool" where
  peer_submits: "ep_submit p (peer w) = (out, e) \<Longrightarrow> line_step w (w\<lparr>peer := e, to_host := to_host w @ out\<rparr>)"
| peer_resends: "ep_resend (peer w) = (out, e) \<Longrightarrow> line_step w (w\<lparr>peer := e, to_host := to_host w @ out\<rparr>)"
| peer_receives: "to_peer w = pkt # rest \<Longrightarrow> ep_receive pkt (peer w) = (out, e) \<Longrightarrow>
    line_step w (w\<lparr>peer := e, to_peer := rest, to_host := to_host w @ out\<rparr>)"
| loses_to_peer: "to_peer w = xs @ pkt # ys \<Longrightarrow> line_step w (w\<lparr>to_peer := xs @ ys\<rparr>)"
| loses_to_host: "to_host w = xs @ pkt # ys \<Longrightarrow> line_step w (w\<lparr>to_host := xs @ ys\<rparr>)"
| garbles_to_peer: "to_peer w = xs @ pkt # ys \<Longrightarrow> line_step w (w\<lparr>to_peer := xs @ Garbled err # ys\<rparr>)"
| garbles_to_host: "to_host w = xs @ pkt # ys \<Longrightarrow> line_step w (w\<lparr>to_host := xs @ Garbled err # ys\<rparr>)"

abbreviation line_steps :: "line \<Rightarrow> line \<Rightarrow> bool" where
  "line_steps \<equiv> line_step\<^sup>*\<^sup>*"

text \<open>The packets \<open>ms\<close> have been read and are not processed yet; they are in front of the others.\<close>

abbreviation line_ok :: "endpoint \<Rightarrow> packet list \<Rightarrow> line \<Rightarrow> bool" where
  "line_ok h ms w \<equiv> both_ok h (peer w) (ms @ to_host w) (to_peer w)"

lemma line_step_ok: "line_step w w' \<Longrightarrow> line_ok h ms w \<Longrightarrow> line_ok h ms w'"
proof (induction rule: line_step.induct)
  case (peer_submits p w out e)
  then show ?case using submit_ok [of "peer w" h "to_peer w" "ms @ to_host w" p out e] by (simp add: both_ok_sym [of h])
next
  case (peer_resends w out e)
  then show ?case using resend_ok [of "peer w" h "to_peer w" "ms @ to_host w" out e] by (simp add: both_ok_sym [of h])
next
  case (peer_receives w pkt rest out e)
  then show ?case
    using receive_ok [of "peer w" h pkt rest "ms @ to_host w" out e] by (simp add: both_ok_sym [of h])
next
  case (loses_to_peer w xs pkt ys)
  then show ?case using both_ok_lose [of "peer w" h xs pkt ys] by (simp add: both_ok_sym [of h])
next
  case (loses_to_host w xs pkt ys)
  then show ?case using both_ok_lose [of h "peer w" "ms @ xs" pkt ys] by simp
next
  case (garbles_to_peer w xs pkt ys err)
  then show ?case using both_ok_garble [of "peer w" h xs pkt ys] by (simp add: both_ok_sym [of h])
next
  case (garbles_to_host w xs pkt ys err)
  then show ?case using both_ok_garble [of h "peer w" "ms @ xs" pkt ys] by simp
qed

lemma line_steps_ok: "line_steps w w' \<Longrightarrow> line_ok h ms w \<Longrightarrow> line_ok h ms w'"
  by (induction rule: rtranclp_induct) (auto intro: line_step_ok)

text \<open>What the decoder of the receiver makes of a packet.\<close>

fun arrival :: "packet \<Rightarrow> decoded" where
  "arrival (Intact f) = Frame f"
| "arrival (Garbled e) = Rejected e"

text \<open>
  A transport that is such a line: a frame written goes onto it, and may be lost there; a read takes
  whole packets off it, in bytes that the decoder, which keeps what it has of an unfinished frame,
  turns into what the packets are.
\<close>

text \<open>
  What the line does, \<open>env\<close>, may be less than \<open>line_step\<close> allows, and \<open>side\<close> is a condition on the
  host's endpoint, the packets read, the packets to be written and the line that these moves and
  the host's own keep.
\<close>

locale line_condition =
  fixes env :: "line \<Rightarrow> line \<Rightarrow> bool" and side :: "endpoint \<Rightarrow> packet list \<Rightarrow> packet list \<Rightarrow> line \<Rightarrow> bool"
  assumes env_step: "env w w' \<Longrightarrow> line_step w w'"
    and side_env: "env w w' \<Longrightarrow> line_ok h ms w \<Longrightarrow> side h ms [] w \<Longrightarrow> side h ms [] w'"
    and side_put: "side h ms [pkt] w \<Longrightarrow> side h ms [] (w\<lparr>to_peer := to_peer w @ [pkt]\<rparr>)"
    and side_unwritten: "side h ms out w \<Longrightarrow> side h ms [] w"
    and side_take: "side h [] [] w \<Longrightarrow> to_host w = ms @ rest \<Longrightarrow> side h ms [] (w\<lparr>to_host := rest\<rparr>)"
    and side_drop: "side h (m # ms) [] w \<Longrightarrow> side h ms [] w"
    and side_receive: "side h (m # ms) [] w \<Longrightarrow> line_ok h (m # ms) w \<Longrightarrow> ep_receive m h = (out, h') \<Longrightarrow> side h' ms out w"
    and side_submit: "side h [] [] w \<Longrightarrow> line_ok h [] w \<Longrightarrow> ep_submit p h = (out, h') \<Longrightarrow> side h' [] out w"
begin

lemma env_steps_keep:
  "env\<^sup>*\<^sup>* w w' \<Longrightarrow> line_ok h ms w \<Longrightarrow> side h ms [] w \<Longrightarrow> line_ok h ms w' \<and> side h ms [] w'"
  by (induction rule: rtranclp_induct) (auto intro: side_env line_step_ok env_step)

end

locale ash_line = line_condition +
  fixes ops :: "'t transport_ops" and line_of :: "'t \<Rightarrow> line" and host_decoder :: "'t \<Rightarrow> decoder"
  assumes line_write: "t_write ops bs t = (r, t') \<Longrightarrow> encode f = Inr bs \<Longrightarrow> reduce_frame f = f \<Longrightarrow>
      env\<^sup>*\<^sup>* ((line_of t)\<lparr>to_peer := to_peer (line_of t) @ [Intact f]\<rparr>) (line_of t') \<and>
      host_decoder t' = host_decoder t"
    and line_read: "t_read ops t = (ReadOk bs, t') \<Longrightarrow>
      \<exists>w ms rest. env\<^sup>*\<^sup>* (line_of t) w \<and> to_host w = ms @ rest \<and> line_of t' = w\<lparr>to_host := rest\<rparr> \<and>
        feed bs (host_decoder t) = (map arrival ms, host_decoder t')"
    and line_quiet: "t_read ops t = (q, t') \<Longrightarrow> \<forall>bs. q \<noteq> ReadOk bs \<Longrightarrow>
      env\<^sup>*\<^sup>* (line_of t) (line_of t') \<and> host_decoder t' = host_decoder t"

section \<open>The runtime at one end of the line\<close>

text \<open>
  \<open>link_core side line_of sub del ms out s\<close>: the connection of the runtime, which was given the payloads
  \<open>sub\<close> to send and has accepted the payloads \<open>del\<close>, and the line are in step, with the packets \<open>ms\<close> still to be
  processed and the packets \<open>out\<close> still to be written, and \<open>side\<close> holds.
\<close>

definition link_core ::
  "(endpoint \<Rightarrow> packet list \<Rightarrow> packet list \<Rightarrow> line \<Rightarrow> bool) \<Rightarrow> ('t \<Rightarrow> line) \<Rightarrow> bytes list \<Rightarrow> bytes list \<Rightarrow> packet list \<Rightarrow> packet list \<Rightarrow> 't ncp \<Rightarrow> bool" where
  "link_core side line_of sub del ms out s \<longleftrightarrow>
     both_ok \<lparr>conn = ash s, submitted = sub, delivered = del\<rparr> (peer (line_of (transport s)))
       (ms @ to_host (line_of (transport s))) (to_peer (line_of (transport s)) @ out) \<and>
     side \<lparr>conn = ash s, submitted = sub, delivered = del\<rparr> ms out (line_of (transport s))"

lemma link_core_prefix:
  assumes "link_core side line_of sub del ms out s"
  shows "prefix del (submitted (peer (line_of (transport s))))" "prefix (delivered (peer (line_of (transport s)))) sub"
  using link_ok_prefix [OF assms [unfolded link_core_def both_ok_sym [of "\<lparr>conn = _, submitted = _, delivered = _\<rparr>"], THEN conjunct1]]
    link_ok_prefix [OF assms [unfolded link_core_def, THEN conjunct1]] by simp_all

text \<open>Packets that are to be written carry numbers below eight.\<close>

lemma data_ok_last: "data_ok sub e (F @ [pkt]) \<Longrightarrow> data_ok sub e [pkt]"
  by (induction F) (auto dest: data_ok_Cons simp del: data_ok.simps)

lemma ack_ok_last: "ack_ok lo hi (B @ [pkt]) \<Longrightarrow> \<exists>lo'. ack_ok lo' hi [pkt]"
proof (induction B arbitrary: lo)
  case (Cons b B)
  then obtain lo1 where "ack_ok lo1 hi (B @ [pkt])" by (auto split: option.splits)
  then show ?case by (rule Cons.IH)
qed auto

lemma outgoing_reduced:
  assumes "both_ok h p tx (ty @ [Intact g])"
  shows "reduce_frame g = g"
proof -
  obtain sub e where d: "data_ok sub e [Intact g]"
    using assms data_ok_last by (fastforce simp: both_ok_def direction_ok_def simp del: data_ok.simps)
  obtain lo hi where a: "ack_ok lo hi [Intact g]"
    using assms ack_ok_last by (fastforce simp: both_ok_def direction_ok_def simp del: ack_ok.simps)
  show ?thesis
    using d a by (cases g) (auto simp: mod_8_idem)
qed

text \<open>
  \<open>linked side line_of whole h0 ms s\<close>: since \<open>heard\<close> was \<open>h0\<close>, the runtime has dispatched a part of what its
  connection accepted, all of it when \<open>whole\<close> holds, in the order of acceptance, and it has logged what
  its connection was given to send.
\<close>

definition logged_as :: "bytes \<Rightarrow> log_line \<Rightarrow> bool" where
  "logged_as p l \<longleftrightarrow> (\<exists>i format. l = sent_line i format p)"

definition logged :: "bytes list \<Rightarrow> log_line list \<Rightarrow> bool" where
  "logged ps ls \<longleftrightarrow> (\<exists>ms. subseq ms ls \<and> list_all2 logged_as ps ms)"

lemma logged_none: "logged [] ls"
  by (auto simp: logged_def)

lemma logged_extend: "logged ps ls \<Longrightarrow> logged ps (ls @ xs)"
  unfolding logged_def using list_emb_append_mono [of "(=)" _ ls "[]" xs] by fastforce

lemma logged_sent: "logged ps ls \<Longrightarrow> logged (ps @ [p]) (ls @ [sent_line i format p])"
proof -
  assume "logged ps ls"
  then obtain ms where "subseq (ms @ [sent_line i format p]) (ls @ [sent_line i format p])" "list_all2 logged_as ps ms"
    by (auto simp: logged_def)
  moreover have "logged_as p (sent_line i format p)" unfolding logged_as_def by blast
  then have "list_all2 logged_as (ps @ [p]) (ms @ [sent_line i format p])"
    using \<open>list_all2 logged_as ps ms\<close> by (simp add: list_all2_appendI)
  ultimately show ?thesis unfolding logged_def by blast
qed

lemma logged_prefix: "logged ps ls \<Longrightarrow> prefix qs ps \<Longrightarrow> logged qs ls"
  unfolding logged_def
  by (auto simp: list_all2_append1 elim!: prefixE) (metis subseq_order.order_trans list_emb_append2 prefix_imp_subseq prefixI)

definition linked ::
  "(endpoint \<Rightarrow> packet list \<Rightarrow> packet list \<Rightarrow> line \<Rightarrow> bool) \<Rightarrow> ('t \<Rightarrow> line) \<Rightarrow> bool \<Rightarrow> bytes list \<Rightarrow> packet list \<Rightarrow> 't ncp \<Rightarrow> bool" where
  "linked side line_of whole h0 ms s \<longleftrightarrow>
     (\<exists>sub del new. heard s = h0 @ new \<and> subseq new del \<and> (whole \<longrightarrow> new = del) \<and>
        logged sub (log_lines s) \<and> link_core side line_of sub del ms [] s)"

definition writes_ok :: "'t transport_ops \<Rightarrow> bool" where
  "writes_ok ops \<longleftrightarrow> (\<forall>bs t. fst (t_write ops bs t) = Inr ())"

lemma link_core_cong:
  "transport s' = transport s \<Longrightarrow> ash s' = ash s \<Longrightarrow> link_core side line_of sub del ms out s' = link_core side line_of sub del ms out s"
  by (simp add: link_core_def)

lemma linked_cong:
  "transport s' = transport s \<Longrightarrow> ash s' = ash s \<Longrightarrow> heard s' = heard s \<Longrightarrow>
   log_lines s' = log_lines s \<Longrightarrow> linked side line_of whole h0 ms s' = linked side line_of whole h0 ms s"
  by (simp add: linked_def link_core_def)

lemma on_frame_payload: "on_frame f c = ((Some p, out), c') \<Longrightarrow> \<exists>a. out = Send (Ack a False)"
  by (cases f) (auto simp: on_frame_def Let_def split: if_splits prod.splits)

lemma list_emb_extend: "list_emb P xs ys \<Longrightarrow> list_emb P xs (ys @ zs)"
  using list_emb_append_mono [of P xs ys "[]" zs] by simp

context ash_line begin

lemma link_core_lose: "link_core side line_of sub del (ms @ ns) [] s \<Longrightarrow> link_core side line_of sub del ns [] s"
  by (induction ms) (auto simp: link_core_def dest: both_ok_drop_head side_drop)

lemma linked_lose:
  assumes "linked side line_of whole h0 ms s"
  shows "linked side line_of whole h0 [] s"
proof -
  obtain sub del new where "heard s = h0 @ new \<and> subseq new del \<and> (whole \<longrightarrow> new = del) \<and> logged sub (log_lines s)"
    "link_core side line_of sub del (ms @ []) [] s"
    using assms by (auto simp: linked_def)
  then show ?thesis using link_core_lose unfolding linked_def by blast
qed

lemma link_core_receive:
  assumes "link_core side line_of sub del (m # ms) [] s"
    and "ep_receive m \<lparr>conn = ash s, submitted = [], delivered = del\<rparr> = (out, e)"
  shows "link_core side line_of sub (delivered e) ms out (s\<lparr>ash := conn e\<rparr>)"
proof -
  let ?w = "line_of (transport s)" and ?h = "\<lparr>conn = ash s, submitted = sub, delivered = del\<rparr>"
  have ok: "line_ok ?h (m # ms) ?w" and sd: "side ?h (m # ms) [] ?w"
    using assms(1) by (auto simp: link_core_def)
  have r: "ep_receive m ?h = (out, e\<lparr>submitted := sub\<rparr>)"
    using assms(2) by (auto simp: ep_receive_def split: packet.splits prod.splits)
  have "both_ok (e\<lparr>submitted := sub\<rparr>) (peer ?w) (ms @ to_host ?w) (to_peer ?w @ out)"
    using receive_ok [OF _ r] ok by simp
  moreover have "side (e\<lparr>submitted := sub\<rparr>) ms out ?w" by (rule side_receive [OF sd ok r])
  moreover have "e\<lparr>submitted := sub\<rparr> = \<lparr>conn = conn e, submitted = sub, delivered = delivered e\<rparr>" by (cases e) simp
  ultimately show ?thesis unfolding link_core_def by auto
qed

lemma write_frame_core:
  assumes "link_core side line_of sub del ms [Intact g] s" "write_frame ops g s = (r, s')"
  shows "link_core side line_of sub del ms [] s' \<and> host_decoder (transport s') = host_decoder (transport s)"
proof -
  let ?w = "line_of (transport s)" and ?h = "\<lparr>conn = ash s, submitted = sub, delivered = del\<rparr>"
  have ok: "both_ok ?h (peer ?w) (ms @ to_host ?w) (to_peer ?w @ [Intact g])" and sd: "side ?h ms [Intact g] ?w"
    using assms(1) by (auto simp: link_core_def)
  show ?thesis
  proof (cases "encode g")
    case (Inl e)
    have "both_ok (peer ?w) ?h (to_peer ?w @ []) (ms @ to_host ?w)"
      by (rule both_ok_lose) (use ok in \<open>simp add: both_ok_sym\<close>)
    moreover have "s' = s" using assms(2) Inl by (simp add: write_frame_def)
    ultimately show ?thesis
      using side_unwritten [OF sd] unfolding link_core_def both_ok_sym [of "\<lparr>conn = _, submitted = _, delivered = _\<rparr>"] by blast
  next
    case (Inr bs)
    obtain q t where t: "t_write ops bs (transport s) = (q, t)" by (metis surj_pair)
    from line_write [OF this Inr outgoing_reduced [OF ok]]
    have st: "env\<^sup>*\<^sup>* (?w\<lparr>to_peer := to_peer ?w @ [Intact g]\<rparr>) (line_of t)"
      and d: "host_decoder t = host_decoder (transport s)" by auto
    have "line_ok ?h ms (line_of t) \<and> side ?h ms [] (line_of t)"
      by (rule env_steps_keep [OF st _ side_put [OF sd]]) (use ok in simp)
    moreover have "s' = s\<lparr>transport := t\<rparr>" using assms(2) Inr t by (cases q) (auto simp: write_frame_def)
    ultimately show ?thesis using d by (auto simp: link_core_def)
  qed
qed

lemma write_outbound_core:
  "link_core side line_of sub del ms (packets_of out) s \<Longrightarrow> write_outbound ops out s = (r, s') \<Longrightarrow>
   link_core side line_of sub del ms [] s' \<and> host_decoder (transport s') = host_decoder (transport s)"
  using write_frame_core by (cases out) (auto simp: write_outbound_def packets_of_def)

lemma on_decoded_linked:
  assumes l: "linked side line_of whole h0 (m # ms) s" and w: "whole \<longrightarrow> writes_ok ops"
    and d: "on_decoded ops (arrival m) s = (r, s')"
  shows "linked side line_of whole h0 ms s' \<and> host_decoder (transport s') = host_decoder (transport s) \<and> decoder s' = decoder s"
proof -
  obtain sub del new where n: "heard s = h0 @ new" "subseq new del" "whole \<longrightarrow> new = del" "link_core side line_of sub del (m # ms) [] s"
    and lg: "logged sub (log_lines s)"
    using l by (auto simp: linked_def)
  have keep: "heard s2 = heard s1 \<and> decoder s2 = decoder s1 \<and> log_lines s2 = log_lines s1" if "write_outbound ops out s1 = (q, s2)" for out s1 q s2
    using that by (cases out) (auto simp: write_outbound_def dest!: write_frame_link)
  show ?thesis
  proof (cases m)
    case (Garbled e)
    obtain out c where o: "on_decode_failure e (ash s) = (out, c)" by (metis surj_pair)
    with d Garbled have wo: "write_outbound ops out (s\<lparr>ash := c\<rparr>) = (r, s')" by (simp add: on_decoded_def)
    have "link_core side line_of sub del ms (packets_of out) (s\<lparr>ash := c\<rparr>)"
      using link_core_receive [OF n(4), of "packets_of out" "\<lparr>conn = c, submitted = [], delivered = del\<rparr>"] o Garbled
      by (simp add: ep_receive_def)
    from write_outbound_core [OF this wo] keep [OF wo] n(1-3) lg show ?thesis by (auto simp: linked_def)
  next
    case (Intact f)
    obtain p out c where o: "on_frame f (ash s) = ((p, out), c)" by (metis surj_pair)
    let ?got = "case p of Some x \<Rightarrow> [x] | None \<Rightarrow> []"
    obtain q s1 where wo: "write_outbound ops out (s\<lparr>ash := c\<rparr>) = (q, s1)" by (metis surj_pair)
    have "link_core side line_of sub (del @ ?got) ms (packets_of out) (s\<lparr>ash := c\<rparr>)"
      using link_core_receive [OF n(4), of "packets_of out" "\<lparr>conn = c, submitted = [], delivered = del @ ?got\<rparr>"] o Intact
      by (simp add: ep_receive_def)
    from write_outbound_core [OF this wo] keep [OF wo]
    have core: "link_core side line_of sub (del @ ?got) ms [] s1" and hd: "host_decoder (transport s1) = host_decoder (transport s)"
      and h1: "heard s1 = h0 @ new" "decoder s1 = decoder s" "log_lines s1 = log_lines s" using n(1) by auto
    show ?thesis
    proof (cases q)
      case (Inl e)
      with d Intact o wo have s': "s' = s1" by (simp add: on_decoded_def andthen_def)
      have "\<not> whole" if "p = Some x" for x
        using on_frame_payload [of f "ash s" x out c] o wo Inl that w
        by (auto simp: write_outbound_def write_frame_def encode_eq writes_ok_def split: sum.splits prod.splits)
          (metis fst_conv sum.distinct(1))
      then have "whole \<longrightarrow> new = del @ ?got" using n(3) by (cases p) auto
      with core hd h1 s' n(2) lg list_emb_extend [of "(=)" new del ?got]
      have "linked side line_of whole h0 ms s'" unfolding linked_def by auto
      with s' hd h1 show ?thesis by simp
    next
      case (Inr u)
      with d Intact o wo have s': "s' = (case p of Some x \<Rightarrow> dispatch x s1 | None \<Rightarrow> s1)"
        by (simp add: on_decoded_def andthen_def)
      have tr: "transport (dispatch x s1) = transport s1" for x
        by (auto simp: dispatch_def Let_def split: sum.split prod.split classified.split)
      have "logged sub (log_lines s')"
        using lg h1 s' logged_extend by (cases p) (simp_all add: dispatch_same)
      moreover have "heard s' = h0 @ new @ ?got" "link_core side line_of sub (del @ ?got) ms [] s'" "decoder s' = decoder s"
        "transport s' = transport s1"
        using core h1 s' tr by (cases p; simp add: dispatch_same dispatch_link_state link_core_def)+
      moreover have "subseq (new @ ?got) (del @ ?got)" using n(2) by simp
      moreover have "whole \<longrightarrow> new @ ?got = del @ ?got" using n(3) by simp
      ultimately have "linked side line_of whole h0 ms s'" unfolding linked_def by blast
      with \<open>transport s' = transport s1\<close> \<open>decoder s' = decoder s\<close> hd show ?thesis by simp
    qed
  qed
qed

lemma on_decoded_all_linked:
  "linked side line_of whole h0 ms s \<Longrightarrow> whole \<longrightarrow> writes_ok ops \<Longrightarrow> on_decoded_all ops (map arrival ms) s = (r, s') \<Longrightarrow>
   linked side line_of whole h0 [] s' \<and> host_decoder (transport s') = host_decoder (transport s) \<and> decoder s' = decoder s"
proof (induction ms arbitrary: s)
  case (Cons m ms)
  obtain q s1 where d: "on_decoded ops (arrival m) s = (q, s1)" by (metis surj_pair)
  from on_decoded_linked [OF Cons.prems(1,2) d]
  have 1: "linked side line_of whole h0 ms s1" "host_decoder (transport s1) = host_decoder (transport s)" "decoder s1 = decoder s"
    by simp_all
  show ?case
  proof (cases q)
    case (Inl e)
    with Cons.prems(3) d have "s' = s1" by (simp add: andthen_def)
    with 1 linked_lose show ?thesis by blast
  next
    case (Inr u)
    with Cons.prems(3) d have "on_decoded_all ops (map arrival ms) s1 = (r, s')" by (simp add: andthen_def)
    from Cons.IH [OF 1(1) Cons.prems(2) this] 1 show ?thesis by simp
  qed
qed simp

text \<open>Between two calls nothing read is left unprocessed, and the transport knows the decoder's state.\<close>

definition at_rest :: "bool \<Rightarrow> bytes list \<Rightarrow> 't ncp \<Rightarrow> bool" where
  "at_rest whole h0 s \<longleftrightarrow> linked side line_of whole h0 [] s \<and> decoder s = host_decoder (transport s)"

lemma at_rest_cong:
  "transport s' = transport s \<Longrightarrow> ash s' = ash s \<Longrightarrow> heard s' = heard s \<Longrightarrow> decoder s' = decoder s \<Longrightarrow>
   log_lines s' = log_lines s \<Longrightarrow> at_rest whole h0 s' = at_rest whole h0 s"
  by (simp add: at_rest_def linked_cong [of s' s])

lemma at_rest_untouched:
  "at_rest whole h0 (s\<lparr>response := r\<rparr>) = at_rest whole h0 s"
  "at_rest whole h0 (s\<lparr>correlator := k\<rparr>) = at_rest whole h0 s"
  "at_rest whole h0 (s\<lparr>callbacks := cs\<rparr>) = at_rest whole h0 s"
  by (rule at_rest_cong; simp)+

lemma linked_transport:
  assumes "linked side line_of whole h0 [] s" "env\<^sup>*\<^sup>* (line_of (transport s)) w" "to_host w = ms @ rest"
    "line_of t = w\<lparr>to_host := rest\<rparr>"
  shows "linked side line_of whole h0 ms (s\<lparr>transport := t, decoder := d\<rparr>)"
proof -
  have "link_core side line_of sub del ms [] (s\<lparr>transport := t, decoder := d\<rparr>)" if "link_core side line_of sub del [] [] s" for sub del
    using that env_steps_keep [OF assms(2), of "\<lparr>conn = ash s, submitted = sub, delivered = del\<rparr>" "[]"]
      side_take [OF _ assms(3)] assms(3,4) by (simp add: link_core_def)
  with assms(1) show ?thesis unfolding linked_def by fastforce
qed

lemma read_consume_at_rest:
  assumes "at_rest whole h0 s" "whole \<longrightarrow> writes_ok ops" "t_read ops (transport s) = (ReadOk bs, t)"
    and "consume ops bs (s\<lparr>transport := t\<rparr>) = (r, s')"
  shows "at_rest whole h0 s'"
proof -
  obtain w ms rest where w: "env\<^sup>*\<^sup>* (line_of (transport s)) w" "to_host w = ms @ rest" "line_of t = w\<lparr>to_host := rest\<rparr>"
    and f: "feed bs (decoder s) = (map arrival ms, host_decoder t)"
    using line_read [OF assms(3)] assms(1) unfolding at_rest_def by metis
  have "linked side line_of whole h0 ms (s\<lparr>transport := t, decoder := host_decoder t\<rparr>)"
    using linked_transport [OF _ w] assms(1) by (simp add: at_rest_def)
  moreover have "on_decoded_all ops (map arrival ms) (s\<lparr>transport := t, decoder := host_decoder t\<rparr>) = (r, s')"
    using assms(4) f by (simp add: consume_def)
  ultimately show ?thesis using on_decoded_all_linked assms(2) by (fastforce simp: at_rest_def)
qed

lemma read_quiet_at_rest:
  assumes "at_rest whole h0 s" "t_read ops (transport s) = (q, t)" "\<forall>bs. q \<noteq> ReadOk bs"
  shows "at_rest whole h0 (s\<lparr>transport := t\<rparr>)"
proof -
  have q: "env\<^sup>*\<^sup>* (line_of (transport s)) (line_of t)" "host_decoder t = host_decoder (transport s)"
    using line_quiet [OF assms(2,3)] by simp_all
  have "linked side line_of whole h0 [] (s\<lparr>transport := t, decoder := decoder s\<rparr>)"
    by (rule linked_transport [OF _ q(1), of _ _ "[]" "to_host (line_of t)"])
      (use assms(1) line_same [of "line_of t"] in \<open>simp_all add: at_rest_def\<close>)
  then show ?thesis using assms(1) q(2) by (simp add: at_rest_def)
qed

lemma pump_at_rest:
  assumes stop: "\<And>s. at_rest whole h0 s \<Longrightarrow> at_rest whole h0 (snd (snd (stop s)))" and w: "whole \<longrightarrow> writes_ok ops"
  shows "pump_until n ops stop s = (q, x, s') \<Longrightarrow> at_rest whole h0 s \<Longrightarrow> at_rest whole h0 s'"
proof (induction n arbitrary: s)
  case 0
  then show ?case using stop [of s] by (auto split: prod.splits)
next
  case (Suc n)
  obtain b y s1 where st: "stop s = (b, y, s1)" by (metis surj_pair)
  have s1: "at_rest whole h0 s1" using stop [OF Suc.prems(2)] st by simp
  obtain rr t where rd: "t_read ops (transport s1) = (rr, t)" by (metis surj_pair)
  show ?case
  proof (cases "b \<or> (\<forall>bs. rr \<noteq> ReadOk bs)")
    case True
    with Suc.prems(1) st rd have "s' = s1 \<or> (\<forall>bs. rr \<noteq> ReadOk bs) \<and> s' = s1\<lparr>transport := t\<rparr>"
      by (auto split: if_splits read_result.splits)
    then show ?thesis using s1 read_quiet_at_rest [OF s1 rd] by blast
  next
    case False
    then obtain bs where b: "\<not> b" "rr = ReadOk bs" by blast
    obtain r s2 where c: "consume ops bs (s1\<lparr>transport := t\<rparr>) = (r, s2)" by (metis surj_pair)
    have "at_rest whole h0 s2" using read_consume_at_rest [OF s1 w _ c] rd b by simp
    with Suc st rd b c show ?thesis by (auto split: sum.splits)
  qed
qed

lemma send_command_at_rest:
  assumes "send_command ops c s = (r, s')" "at_rest whole h0 s"
  shows "at_rest whole h0 s'"
proof -
  obtain sub del new where n: "heard s = h0 @ new" "subseq new del" "whole \<longrightarrow> new = del" "link_core side line_of sub del [] [] s"
    and lg: "logged sub (log_lines s)"
    using assms(2) by (auto simp: at_rest_def linked_def)
  consider xs where "transport s' = transport s \<and> ash s' = ash s \<and> heard s' = heard s \<and> decoder s' = decoder s"
      "log_lines s' = log_lines s @ xs"
    | bs i format f a s3 where "send_data bs (ash s) = (Inr f, a)" "write_frame ops f (s3\<lparr>ash := a\<rparr>) = (r, s')"
      "transport s3 = transport s" "heard s3 = heard s" "decoder s3 = decoder s"
      "log_lines s3 = log_lines s @ [sent_line i format bs]"
    using assms(1) unfolding send_command_def
    by (fastforce simp: Let_def send_data_def split: if_splits prod.splits sum.splits)
  then show ?thesis
  proof cases
    case 1
    with n lg logged_extend [OF lg, of xs] assms(2) show ?thesis
      by (auto simp: at_rest_def linked_def link_core_def)
  next
    case (2 bs i format f a s3)
    have "both_ok \<lparr>conn = a, submitted = sub @ [bs], delivered = del\<rparr> (peer (line_of (transport s)))
        (to_host (line_of (transport s))) (to_peer (line_of (transport s)) @ [Intact f])"
      by (rule submit_ok [of "\<lparr>conn = ash s, submitted = sub, delivered = del\<rparr>" _ _ _ bs])
        (use n(4) 2(1) in \<open>simp_all add: link_core_def ep_submit_def\<close>)
    moreover have "side \<lparr>conn = a, submitted = sub @ [bs], delivered = del\<rparr> [] [Intact f] (line_of (transport s))"
      by (rule side_submit [of "\<lparr>conn = ash s, submitted = sub, delivered = del\<rparr>" _ bs])
        (use n(4) 2(1) in \<open>simp_all add: link_core_def ep_submit_def\<close>)
    ultimately have "link_core side line_of (sub @ [bs]) del [] [Intact f] (s3\<lparr>ash := a\<rparr>)"
      using 2(3) by (simp add: link_core_def)
    from write_frame_core [OF this 2(2)]
    have "link_core side line_of (sub @ [bs]) del [] [] s'" "host_decoder (transport s') = host_decoder (transport s)"
      using 2(3) by simp_all
    moreover have "heard s' = heard s" "decoder s' = decoder s" "log_lines s' = log_lines s @ [sent_line i format bs]"
      using write_frame_link [OF 2(2)] 2(4-6) by auto
    ultimately show ?thesis using n logged_sent [OF lg, of bs i format] assms(2)
      unfolding at_rest_def linked_def by auto
  qed
qed

lemma method_call_at_rest:
  assumes "method_call ops m s s'" "m \<noteq> ResetCalled" and w: "whole \<longrightarrow> writes_ok ops"
  shows "at_rest whole h0 s \<Longrightarrow> at_rest whole h0 s'"
  using assms(1,2)
proof (induction rule: method_call.induct)
  case (command n c s r s')
  obtain q s1 where sc: "send_command ops c s = (q, s1)" by (metis surj_pair)
  have s1: "at_rest whole h0 s1" by (rule send_command_at_rest [OF sc command(2)])
  obtain w' x s2 where pu: "pump_until n ops answer_arrived s1 = (w', x, s2)" by (rule prod_cases3)
  have s2: "at_rest whole h0 s2"
    by (rule pump_at_rest [OF _ w pu s1]) (simp add: answer_arrived_def take_response_def at_rest_untouched)
  have n: "at_rest whole h0 (snd (report_no_answer c w' s2))"
    using s2 by (simp add: report_no_answer_def Let_def at_rest_untouched split: prod.split sum.split)
  show ?case
  proof (cases q)
    case (Inl e)
    with command(1) sc s1 show ?thesis by (simp add: run_command_not_sent)
  next
    case (Inr u)
    with command(1) sc pu have "(case x of Some ps \<Rightarrow> decode_answer c ps s2 | None \<Rightarrow> report_no_answer c w' s2) = (r, s')"
      by (simp add: run_command_sent await_answer_def)
    then have "s' = snd (case x of Some ps \<Rightarrow> decode_answer c ps s2 | None \<Rightarrow> report_no_answer c w' s2)" by simp
    with s2 n show ?thesis by (simp split: option.split)
  qed
next
  case (poll n s r s')
  obtain w' x s1 where pu: "pump_until n ops (\<lambda>s. (callbacks s \<noteq> [], (), s)) s = (w', x, s1)" by (rule prod_cases3)
  have "at_rest whole h0 s1" by (rule pump_at_rest [OF _ w pu poll(2)]) simp
  with poll(1) pu show ?case
    by (auto simp: poll_def take_callbacks_def at_rest_untouched split: sum.splits)
next
  case (callbacks s cs s')
  then show ?case by (auto simp: take_callbacks_def at_rest_untouched)
qed simp

lemma session_at_rest:
  assumes "session ops s s'" "whole \<longrightarrow> writes_ok ops" "at_rest whole h0 s"
  shows "at_rest whole h0 s'"
  using assms(1,3) unfolding session_def
  by (induction rule: rtranclp_induct) (use method_call_at_rest assms(2) in blast)+

lemma at_rest_heard:
  assumes "at_rest whole h0 s"
  obtains new where "heard s = h0 @ new" "subseq new (submitted (peer (line_of (transport s))))"
    "whole \<Longrightarrow> prefix new (submitted (peer (line_of (transport s))))"
proof -
  obtain sub del new where n: "heard s = h0 @ new" "subseq new del" "whole \<longrightarrow> new = del" "link_core side line_of sub del [] [] s"
    using assms by (auto simp: at_rest_def linked_def)
  from link_core_prefix(1) [OF n(4)] have p: "prefix del (submitted (peer (line_of (transport s))))" .
  then have "subseq new (submitted (peer (line_of (transport s))))"
    using n(2) list_emb_extend by (auto elim!: prefixE)
  with that n p show ?thesis by simp
qed

lemma at_rest_logged: "at_rest whole h0 s \<Longrightarrow> logged (delivered (peer (line_of (transport s)))) (log_lines s)"
  unfolding at_rest_def linked_def using link_core_prefix(2) logged_prefix by blast

lemma just_connected_at_rest:
  assumes "ash s = conn (left link_start)" "line_of (transport s) = fresh_line" "decoder s = host_decoder (transport s)"
    and "side (left link_start) [] [] fresh_line"
  shows "at_rest whole (heard s) s"
proof -
  have "link_core side line_of [] [] [] [] s"
    using link_start_ok assms(1,2,4)
    by (auto simp: link_core_def fresh_line_def link_ok_def link_start_def Let_def)
  with assms(3) logged_none show ?thesis unfolding at_rest_def linked_def by fastforce
qed

end

section \<open>The scripted line\<close>

text \<open>
  A transport that follows a script, one entry for each read: what happens on the line first, and
  what the read returns. Bytes are returned only if they are, for a decoder that has read all
  bytes before them, the next packets of the line. A write puts on the line what a decoder makes of the
  bytes; on a line whose writes may fail, \<open>refusals\<close> says which ones do. On a line that does not
  garble what the host sends, the moves of the script that would do so have no effect.
\<close>

datatype move =
    PeerSubmits bytes
  | PeerResends
  | PeerReceives
  | LosesToPeer nat
  | LosesToHost nat
  | GarblesToPeer nat ash_error
  | GarblesToHost nat ash_error

definition lose_nth :: "nat \<Rightarrow> packet list \<Rightarrow> packet list" where
  "lose_nth i ps = take i ps @ drop (Suc i) ps"

fun move_line :: "move \<Rightarrow> line \<Rightarrow> line" where
  "move_line (PeerSubmits p) w =
     (let (out, e) = ep_submit p (peer w) in w\<lparr>peer := e, to_host := to_host w @ out\<rparr>)"
| "move_line PeerResends w = (let (out, e) = ep_resend (peer w) in w\<lparr>peer := e, to_host := to_host w @ out\<rparr>)"
| "move_line PeerReceives w =
     (case to_peer w of
        [] \<Rightarrow> w
      | pkt # rest \<Rightarrow>
          (let (out, e) = ep_receive pkt (peer w) in w\<lparr>peer := e, to_peer := rest, to_host := to_host w @ out\<rparr>))"
| "move_line (LosesToPeer i) w = w\<lparr>to_peer := lose_nth i (to_peer w)\<rparr>"
| "move_line (LosesToHost i) w = w\<lparr>to_host := lose_nth i (to_host w)\<rparr>"
| "move_line (GarblesToPeer i e) w = w\<lparr>to_peer := (to_peer w)[i := Garbled e]\<rparr>"
| "move_line (GarblesToHost i e) w = w\<lparr>to_host := (to_host w)[i := Garbled e]\<rparr>"

lemma lose_nth_cases: "lose_nth i ps = ps \<or> (\<exists>xs p ys. ps = xs @ p # ys \<and> lose_nth i ps = xs @ ys)"
  by (cases "i < length ps") (auto simp: lose_nth_def dest: id_take_nth_drop)

lemma garble_nth_cases: "ps[i := q] = ps \<or> (\<exists>xs p ys. ps = xs @ p # ys \<and> ps[i := q] = xs @ q # ys)"
  by (cases "i < length ps") (auto simp: upd_conv_take_nth_drop list_update_beyond dest: id_take_nth_drop)

lemma move_line_step: "move_line m w = w \<or> line_step w (move_line m w)"
proof (cases m)
  case (LosesToPeer i)
  then show ?thesis using lose_nth_cases [of i "to_peer w"] loses_to_peer [of w] by fastforce
next
  case (LosesToHost i)
  then show ?thesis using lose_nth_cases [of i "to_host w"] loses_to_host [of w] by fastforce
next
  case (GarblesToPeer i e)
  then show ?thesis using garble_nth_cases [of "to_peer w" i "Garbled e"] garbles_to_peer [of w] by fastforce
next
  case (GarblesToHost i e)
  then show ?thesis using garble_nth_cases [of "to_host w" i "Garbled e"] garbles_to_host [of w] by fastforce
qed (auto split: prod.split list.split intro: peer_submits peer_resends peer_receives)

lemma move_lines_steps: "line_steps w (fold move_line ms w)"
proof (induction ms arbitrary: w)
  case (Cons m ms)
  have "line_steps w (move_line m w)" using move_line_step [of m w] by auto
  with Cons [of "move_line m w"] show ?case by simp
qed simp

record scripted =
  the_line :: line
  read_so_far :: decoder
  script :: "(move list \<times> read_result) list"
  refusals :: "bool list"

fun garbles_towards_peer :: "move \<Rightarrow> bool" where
  "garbles_towards_peer (GarblesToPeer _ _) = True"
| "garbles_towards_peer _ = False"

definition scripted_read :: "bool \<Rightarrow> scripted \<Rightarrow> read_result \<times> scripted" where
  "scripted_read may_garble t =
     (case script t of
        [] \<Rightarrow> (ReadPending, t)
      | (ms, r) # rest \<Rightarrow>
          (let w = fold move_line (filter (\<lambda>m. may_garble \<or> \<not> garbles_towards_peer m) ms) (the_line t); t1 = t\<lparr>the_line := w, script := rest\<rparr>
           in case r of
                ReadOk bs \<Rightarrow>
                  (let (ds, d) = feed bs (read_so_far t) in
                   if map arrival (take (length ds) (to_host w)) = ds
                   then (r, t1\<lparr>the_line := w\<lparr>to_host := drop (length ds) (to_host w)\<rparr>, read_so_far := d\<rparr>)
                   else (ReadPending, t1))
              | _ \<Rightarrow> (r, t1)))"

fun packet_read :: "decoded \<Rightarrow> packet" where
  "packet_read (Frame f) = Intact f"
| "packet_read (Rejected e) = Garbled e"

definition scripted_write :: "bool \<Rightarrow> bytes \<Rightarrow> scripted \<Rightarrow> (transport_error + unit) \<times> scripted" where
  "scripted_write may_refuse bs t =
     (if may_refuse \<and> refusals t \<noteq> [] \<and> hd (refusals t) then (Inl TransportClosed, t\<lparr>refusals := tl (refusals t)\<rparr>)
      else (Inr (), t\<lparr>refusals := tl (refusals t),
        the_line := (the_line t)\<lparr>to_peer := to_peer (the_line t) @ map packet_read (fst (feed bs decoder_new))\<rparr>\<rparr>))"

definition scripted_ops :: "bool \<Rightarrow> bool \<Rightarrow> scripted transport_ops" where
  "scripted_ops may_refuse may_garble = \<lparr>t_write = scripted_write may_refuse, t_read = scripted_read may_garble\<rparr>"

lemma feed_written:
  assumes "encode f = Inr bs" "reduce_frame f = f"
  shows "fst (feed bs decoder_new) = [Frame f] \<or> (\<exists>e. fst (feed bs decoder_new) = [Rejected e] \<and> \<not> is_recoverable_by_nak e)"
proof (cases "length (body f) \<le> MAX_DATA_FIELD_LEN")
  case True
  then show ?thesis using feed_encoded [OF _ assms(1)] assms(2) by simp
next
  case False
  have "from_parts (control f) (body f) \<noteq> Inr g" for g
    using from_parts_sound [of "control f" "body f" g] wf_frame_body [of g] False by auto
  then obtain e where e: "from_parts (control f) (body f) = Inl e"
    by (cases "from_parts (control f) (body f)") blast+
  from assms(1) have "bs = stuff (frame_bytes f) @ [FLAG]" "length (body f) \<le> 130"
    by (simp_all add: encode_eq split: if_splits)
  with e from_parts_errors [OF e] show ?thesis by (auto simp: feed_frame)
qed

lemma scripted_write_line:
  assumes "scripted_write b bs t = (r, t')" "encode f = Inr bs" "reduce_frame f = f"
  shows "line_steps ((the_line t)\<lparr>to_peer := to_peer (the_line t) @ [Intact f]\<rparr>) (the_line t') \<and> read_so_far t' = read_so_far t"
proof -
  let ?w = "(the_line t)\<lparr>to_peer := to_peer (the_line t) @ [Intact f]\<rparr>"
  have lost: "line_steps ?w (the_line t)"
    using loses_to_peer [of ?w "to_peer (the_line t)" "Intact f" "[]"] by (cases "the_line t") auto
  have garbled: "line_steps ?w ((the_line t)\<lparr>to_peer := to_peer (the_line t) @ [Garbled e]\<rparr>)" for e
    using garbles_to_peer [of ?w "to_peer (the_line t)" "Intact f" "[]" e] by auto
  show ?thesis
    using assms(1) lost garbled feed_written [OF assms(2,3)]
    by (auto simp: scripted_write_def split: if_splits)
qed

text \<open>A read: what happened on the line before it, and what it took off the line.\<close>

lemma scripted_read_ok:
  assumes "t_read (scripted_ops b g) t = (ReadOk bs, t')"
  obtains ms w k where "\<forall>m\<in>set ms. g \<or> \<not> garbles_towards_peer m" "w = fold move_line ms (the_line t)"
    "the_line t' = w\<lparr>to_host := drop k (to_host w)\<rparr>" "feed bs (read_so_far t) = (map arrival (take k (to_host w)), read_so_far t')"
proof -
  obtain ms r rest where s: "script t = (ms, r) # rest"
    using assms by (cases "script t") (auto simp: scripted_ops_def scripted_read_def)
  let ?ms = "filter (\<lambda>m. g \<or> \<not> garbles_towards_peer m) ms"
  let ?w = "fold move_line ?ms (the_line t)"
  obtain ds d where f: "feed bs (read_so_far t) = (ds, d)" by (metis surj_pair)
  from assms s f have "map arrival (take (length ds) (to_host ?w)) = ds" "read_so_far t' = d"
    "the_line t' = ?w\<lparr>to_host := drop (length ds) (to_host ?w)\<rparr>"
    by (auto simp: scripted_ops_def scripted_read_def Let_def split: read_result.splits if_splits prod.splits)
  with f that [of ?ms ?w "length ds"] show ?thesis by simp
qed

lemma scripted_read_quiet:
  assumes "t_read (scripted_ops b g) t = (q, t')" "\<forall>bs. q \<noteq> ReadOk bs"
  obtains ms where "\<forall>m\<in>set ms. g \<or> \<not> garbles_towards_peer m" "the_line t' = fold move_line ms (the_line t)"
    "read_so_far t' = read_so_far t"
proof (cases "script t")
  case Nil
  with assms that [of "[]"] show ?thesis by (simp add: scripted_ops_def scripted_read_def)
next
  case (Cons e rest)
  let ?ms = "filter (\<lambda>m. g \<or> \<not> garbles_towards_peer m) (fst e)"
  have "the_line t' = fold move_line ?ms (the_line t) \<and> read_so_far t' = read_so_far t"
    using assms Cons
    by (auto simp: scripted_ops_def scripted_read_def Let_def split: prod.splits read_result.splits if_splits)
  with that [of ?ms] show ?thesis by simp
qed

interpretation scripted: ash_line line_step "\<lambda>_ _ _ _. True" "scripted_ops b g" the_line read_so_far for b g
proof
  fix f bs t r t'
  assume "t_write (scripted_ops b g) bs t = (r, t')" "encode f = Inr bs" "reduce_frame f = f"
  then show "line_steps ((the_line t)\<lparr>to_peer := to_peer (the_line t) @ [Intact f]\<rparr>) (the_line t') \<and> read_so_far t' = read_so_far t"
    by (intro scripted_write_line) (simp_all add: scripted_ops_def)
next
  fix t bs t'
  assume "t_read (scripted_ops b g) t = (ReadOk bs, t')"
  then show "\<exists>w ms rest. line_steps (the_line t) w \<and> to_host w = ms @ rest \<and> the_line t' = w\<lparr>to_host := rest\<rparr> \<and>
      feed bs (read_so_far t) = (map arrival ms, read_so_far t')"
    by (rule scripted_read_ok) (metis move_lines_steps append_take_drop_id)
next
  fix t q t'
  assume "t_read (scripted_ops b g) t = (q, t')" "\<forall>bs. q \<noteq> ReadOk bs"
  then show "line_steps (the_line t) (the_line t') \<and> read_so_far t' = read_so_far t"
    by (rule scripted_read_quiet) (simp add: move_lines_steps)
qed auto

lemma writes_ok_scripted: "writes_ok (scripted_ops False g)"
  by (simp add: writes_ok_def scripted_ops_def scripted_write_def)

section \<open>What the runtime hears and what the NCP gets\<close>

text \<open>The runtime and the line right after a reset: both connections new, nothing on the line.\<close>

definition newly_connected :: "scripted ncp \<Rightarrow> bool" where
  "newly_connected s \<longleftrightarrow> ash s = conn (left link_start) \<and> the_line (transport s) = fresh_line \<and>
     decoder s = read_so_far (transport s)"

lemma newly_connected_session:
  "newly_connected s \<Longrightarrow> session (scripted_ops b g) s s' \<Longrightarrow> \<not> b \<or> \<not> w \<Longrightarrow> scripted.at_rest w (heard s) s'"
  using scripted.session_at_rest [OF _ _ scripted.just_connected_at_rest] writes_ok_scripted
  by (auto simp: newly_connected_def)

text \<open>
  C8. What the runtime hears. In a session over a line that loses and garbles frames and delays them
  as it likes, with an NCP whose side of ASH is a connection of the same code, the payloads given to
  \<open>dispatch\<close> are payloads that the NCP submitted, unaltered, in their order and once each. If no
  write of the runtime fails they are the first ones, without a gap. A write that fails can cost one:
  \<open>consume\<close> writes the acknowledgement of a payload before it dispatches the payload.
\<close>

theorem runtime_hears_what_the_ncp_sent:
  assumes "newly_connected s" "session (scripted_ops may_refuse may_garble) s s'"
  shows "\<exists>new. heard s' = heard s @ new \<and>
    subseq new (submitted (peer (the_line (transport s')))) \<and>
    (may_refuse \<or> prefix new (submitted (peer (the_line (transport s')))))"
proof (cases may_refuse)
  case True
  from newly_connected_session [OF assms, of False] have "scripted.at_rest False (heard s) s'" by simp
  then show ?thesis by (rule scripted.at_rest_heard) (use True in auto)
next
  case False
  with newly_connected_session [OF assms, of True] have "scripted.at_rest True (heard s) s'" by simp
  then show ?thesis by (rule scripted.at_rest_heard) auto
qed

text \<open>
  C9. What the NCP gets. In such a session the payloads that the NCP's side of ASH delivers are the
  bytes of requests of the runtime, each of them logged as sent, in the order of the log and at most
  once each: a retransmission never makes the NCP see a command twice.
\<close>

theorem ncp_gets_the_requests_in_order:
  assumes "newly_connected s" "session (scripted_ops may_refuse may_garble) s s'"
  shows "\<exists>ls. subseq ls (log_lines s') \<and> list_all2 logged_as (delivered (peer (the_line (transport s')))) ls"
  using newly_connected_session [OF assms, of False] scripted.at_rest_logged by (auto simp: logged_def)

subsection \<open>An exchange over a line that loses\<close>

text \<open>
  The request arrives, the acknowledgement and the first transmission of the answer are lost, the
  answer is sent again and read.
\<close>

definition sample_moves :: "bytes \<Rightarrow> move list" where
  "sample_moves p = [PeerReceives, PeerSubmits p, LosesToHost 1, LosesToHost 0, PeerResends]"

definition sample_lossy :: "scripted ncp" where
  "sample_lossy =
     (ncp_start \<lparr>the_line = fresh_line, read_so_far = decoder_new,
        script = [(sample_moves sample_version_payload,
          ReadOk (wire_of (Data 0 1 True sample_version_payload)))], refusals = []\<rparr>)\<lparr>ash := conn (left link_start)\<rparr>"

lemma sample_lossy_new: "newly_connected sample_lossy"
  by (simp add: newly_connected_def sample_lossy_def ncp_start_def)

lemma scripted_write_frame:
  "wf_frame f \<Longrightarrow> refusals (transport s) = [] \<Longrightarrow> write_frame (scripted_ops b g) f s = (Inr (), s\<lparr>transport :=
     (transport s)\<lparr>the_line := (the_line (transport s))\<lparr>to_peer := to_peer (the_line (transport s)) @ [Intact f]\<rparr>\<rparr>\<rparr>)"
proof -
  assume f: "wf_frame f" and r: "refusals (transport s) = []"
  have "encode f = Inr (wire_of f)" using wf_frame_body [OF f] by (simp add: wire_of_def encode_eq const_defs)
  with r feed_wire [OF f] show ?thesis
    by (cases "transport s") (simp add: write_frame_def scripted_ops_def scripted_write_def)
qed

lemma scripted_read_one:
  "script t = (ms, ReadOk (wire_of f)) # rest \<Longrightarrow> \<forall>m\<in>set ms. \<not> garbles_towards_peer m \<Longrightarrow> read_so_far t = decoder_new \<Longrightarrow> wf_frame f \<Longrightarrow>
   to_host (fold move_line ms (the_line t)) = [Intact f] \<Longrightarrow>
   t_read (scripted_ops b g) t = (ReadOk (wire_of f), t\<lparr>the_line := (fold move_line ms (the_line t))\<lparr>to_host := []\<rparr>, script := rest\<rparr>)"
  by (cases t) (simp add: scripted_ops_def scripted_read_def feed_wire filter_id_conv)

lemma sample_moves_clean: "\<forall>m\<in>set (sample_moves p). \<not> garbles_towards_peer m"
  by (simp add: sample_moves_def)

lemma sample_moves_line:
  "\<exists>c. fold move_line (sample_moves p)
     \<lparr>peer = \<lparr>conn = \<lparr>state = Connected, next_tx_frame = 0, next_rx_frame = 0, in_flight = [],
        ack_pending = False, nak_pending = False\<rparr>, submitted = [], delivered = []\<rparr>,
       to_peer = [Intact (Data 0 0 False q)], to_host = []\<rparr> =
   \<lparr>peer = \<lparr>conn = c, submitted = [p], delivered = [q]\<rparr>, to_peer = [], to_host = [Intact (Data 0 1 True p)]\<rparr>"
  by (simp add: sample_moves_def link_eval const_defs Let_def lose_nth_def word_le_nat_alt)

lemma sample_lossy_run:
  "\<exists>s'. run_command (Suc 0) (scripted_ops b g) (version_command (Version PREFERRED)) sample_lossy =
     (Inr \<lparr>protocol_version = ProtocolVersion 0x0d, stack_type = 2, stack_version = 0x7440\<rparr>, s') \<and>
   heard s' = [sample_version_payload] \<and> submitted (peer (the_line (transport s'))) = [sample_version_payload] \<and>
   delivered (peer (the_line (transport s'))) = [[0, 0, 0, 0x13]]"
proof -
  obtain c where "fold move_line (sample_moves [0, 0x80, 0, 0x0d, 2, 0x40, 0x74])
     \<lparr>peer = \<lparr>conn = \<lparr>state = Connected, next_tx_frame = 0, next_rx_frame = 0, in_flight = [],
        ack_pending = False, nak_pending = False\<rparr>, submitted = [], delivered = []\<rparr>,
       to_peer = [Intact (Data 0 0 False [0, 0, 0, 0x13])], to_host = []\<rparr> =
     \<lparr>peer = \<lparr>conn = c, submitted = [[0, 0x80, 0, 0x0d, 2, 0x40, 0x74]], delivered = [[0, 0, 0, 0x13]]\<rparr>, to_peer = [],
       to_host = [Intact (Data 0 1 True [0, 0x80, 0, 0x0d, 2, 0x40, 0x74])]\<rparr>"
    using sample_moves_line by blast
  then show ?thesis
    using reader_used_up [of "[0x0d, 2, 0x40, 0x74]" "ProtocolVersion 0x13"]
    by (simp add: run_command_def andthen_def sample_lossy_def run_defs sample_defs const_defs Let_def fits_legacy_def
        link_eval fresh_line_def scripted_write_frame scripted_read_one sample_moves_clean consume_wire sample_version_payload_def
        version_response_bytes)
qed

lemma runtime_hears_what_the_ncp_sent_witness:
  "\<exists>s' :: scripted ncp. heard s' = [sample_version_payload] \<and> prefix (heard s') (submitted (peer (the_line (transport s'))))"
proof -
  obtain s' where s': "run_command (Suc 0) (scripted_ops False True) (version_command (Version PREFERRED)) sample_lossy =
     (Inr \<lparr>protocol_version = ProtocolVersion 0x0d, stack_type = 2, stack_version = 0x7440\<rparr>, s')"
    "heard s' = [sample_version_payload]"
    using sample_lossy_run by blast
  have "heard sample_lossy = []" by (simp add: sample_lossy_def ncp_start_def)
  with runtime_hears_what_the_ncp_sent [OF sample_lossy_new session_command [OF s'(1)]]
  have "prefix (heard s') (submitted (peer (the_line (transport s'))))" by auto
  with s'(2) show ?thesis by blast
qed

lemma ncp_gets_the_requests_in_order_witness:
  "\<exists>(s' :: scripted ncp) l. delivered (peer (the_line (transport s'))) = [[0, 0, 0, 0x13]] \<and> l \<in> set (log_lines s') \<and>
     logged_as [0, 0, 0, 0x13] l"
proof -
  obtain s' where s': "run_command (Suc 0) (scripted_ops True True) (version_command (Version PREFERRED)) sample_lossy =
     (Inr \<lparr>protocol_version = ProtocolVersion 0x0d, stack_type = 2, stack_version = 0x7440\<rparr>, s')"
    "delivered (peer (the_line (transport s'))) = [[0, 0, 0, 0x13]]"
    using sample_lossy_run by blast
  from ncp_gets_the_requests_in_order [OF sample_lossy_new session_command [OF s'(1)]] s'(2)
  obtain l where "subseq [l] (log_lines s')" "logged_as [0, 0, 0, 0x13] l"
    by (auto simp: list_all2_Cons1)
  with s'(2) show ?thesis by (auto simp: subseq_singleton_left)
qed

end
