(* ===== verification/NcpStall.thy ===== *)
theory NcpStall
  imports NcpLink
begin

text \<open>
  A loss between two connections of this code (\<open>ncp.rs\<close> over \<open>ash/state.rs\<close>, with a second
  \<open>ash/state.rs\<close> for the peer). By \<open>NcpReplies\<close> the runtime resends only when it receives a NAK, and a
  connection of this code sends a NAK only for a frame that arrives garbled: a frame that does not
  arrive, and the ones after it, are answered by repeating the last acknowledgement. So between two
  such connections the loss of one request stops the traffic of requests until the next reset. The
  firmware of an NCP is not part of the repository and may well answer a gap with a NAK; nothing
  here is a statement about it.
\<close>

section \<open>A line that loses but does not garble\<close>

fun draws_nak :: "packet \<Rightarrow> bool" where
  "draws_nak (Garbled e) = is_recoverable_by_nak e"
| "draws_nak _ = False"

fun is_nak :: "packet \<Rightarrow> bool" where
  "is_nak (Intact (Nak _ _)) = True"
| "is_nak _ = False"

definition clean_step :: "line \<Rightarrow> line \<Rightarrow> bool" where
  "clean_step w w' \<longleftrightarrow> line_step w w' \<and> (\<forall>pkt \<in> set (to_peer w'). pkt \<in> set (to_peer w) \<or> (\<exists>e. pkt = Garbled e \<and> \<not> draws_nak pkt))"

text \<open>The data frame with index \<open>d\<close> is not on the way to the peer, nor anything that it answers with a NAK.\<close>

fun harmless :: "nat \<Rightarrow> packet \<Rightarrow> bool" where
  "harmless d (Intact (Data fn _ _ _)) \<longleftrightarrow> fn \<noteq> seq_num d"
| "harmless d pkt \<longleftrightarrow> \<not> draws_nak pkt"

definition stalled :: "bytes list \<Rightarrow> endpoint \<Rightarrow> packet list \<Rightarrow> packet list \<Rightarrow> line \<Rightarrow> bool" where
  "stalled got h ms out w \<longleftrightarrow> length got < length (submitted h) \<and> delivered (peer w) = got \<and>
     (\<forall>pkt \<in> set (to_peer w) \<union> set out. harmless (length got) pkt) \<and>
     (\<forall>pkt \<in> set ms \<union> set (to_host w). \<not> is_nak pkt)"

lemma ep_submit_shape:
  assumes "ep_submit p e = (out, e')"
  shows "delivered e' = delivered e \<and> (\<forall>pkt\<in>set out. \<not> is_nak pkt)"
  using assms by (auto simp: ep_submit_def send_data_def Let_def split: if_splits)

lemma ep_resend_shape:
  assumes "ep_resend e = (out, e')"
  shows "delivered e' = delivered e \<and> (\<forall>pkt\<in>set out. \<not> is_nak pkt)"
  using assms by (auto simp: ep_resend_def retransmit_oldest_def packets_of_def split: list.splits if_splits prod.splits)

lemma retransmit_not_nak: "retransmit_oldest c = (out, c') \<Longrightarrow> \<forall>pkt\<in>set (packets_of out). \<not> is_nak pkt"
  by (auto simp: retransmit_oldest_def packets_of_def split: list.splits if_splits)

text \<open>The peer, a connection of this code that waits for the data frame with index \<open>d\<close>, accepts nothing and sends no NAK.\<close>

lemma harmless_receive:
  assumes "harmless d pkt" "next_rx_frame (conn e) = seq_num d" "no_reset pkt" "ep_receive pkt e = (out, e')"
  shows "delivered e' = delivered e \<and> (\<forall>pkt\<in>set out. \<not> is_nak pkt)"
proof (cases pkt)
  case (Garbled err)
  with assms show ?thesis by (auto simp: ep_receive_def on_decode_failure_def packets_of_def)
next
  case (Intact f)
  with assms retransmit_not_nak show ?thesis
    by (cases f) (auto simp: ep_receive_def on_frame_def packets_of_def retire_acknowledged_def Let_def
        split: prod.splits outbound.splits if_splits)
qed

lemma host_receive_harmless:
  assumes "\<not> is_nak m" "ep_receive m h = (out, h')"
  shows "submitted h' = submitted h \<and> (\<forall>pkt\<in>set out. harmless d pkt)"
proof (cases m)
  case (Garbled e)
  with assms show ?thesis by (auto simp: ep_receive_def on_decode_failure_def packets_of_def split: if_splits)
next
  case (Intact f)
  with assms show ?thesis
    by (cases f) (auto simp: ep_receive_def on_frame_def packets_of_def Let_def split: if_splits prod.splits)
qed

text \<open>The host's window keeps a new data frame off the number that the peer waits for.\<close>

lemma host_submit_harmless:
  assumes ok: "both_ok h p tx ty" and "ep_submit q h = (out, h')" "length (delivered p) < length (submitted h)"
  shows "length (submitted h) \<le> length (submitted h') \<and> (\<forall>pkt\<in>set out. harmless (length (delivered p)) pkt)"
proof -
  let ?d = "length (delivered p)" and ?n = "length (submitted h)"
  from ok have S: "sender_ok h" and a: "ack_ok (acked h) ?d tx" by (auto simp: both_ok_def direction_ok_def)
  have "out = [] \<and> submitted h' = submitted h \<or>
    (\<exists>an. out = [Intact (Data (seq_num ?n) an False q)] \<and> submitted h' = submitted h @ [q] \<and> length (in_flight (conn h)) < 7)"
    using assms(2) S by (auto simp: ep_submit_def send_data_def Let_def sender_ok_def const_defs split: if_splits)
  moreover have "seq_num ?n \<noteq> seq_num ?d" if "length (in_flight (conn h)) < 7"
    using that acked_le [OF S] ack_ok_le [OF a] assms(3) seq_num_window [of ?d ?n] by auto
  ultimately show ?thesis by auto
qed

lemma stalled_expects: "both_ok h p tx ty \<Longrightarrow> next_rx_frame (conn p) = seq_num (length (delivered p))"
  by (simp add: both_ok_def direction_ok_def receiver_ok_def)

lemma stalled_env:
  assumes "clean_step w w'" "line_ok h ms w" "stalled got h ms [] w"
  shows "stalled got h ms [] w'"
proof -
  have st: "line_step w w'" and tp: "\<forall>pkt\<in>set (to_peer w'). harmless (length got) pkt"
    using assms(1,3) by (auto simp: clean_step_def stalled_def)
  have nr: "\<forall>pkt\<in>set (to_peer w). no_reset pkt" using assms(2) by (auto simp: both_ok_def)
  have rx: "next_rx_frame (conn (peer w)) = seq_num (length got)"
    using stalled_expects [OF assms(2)] assms(3) by (simp add: stalled_def)
  have "delivered (peer w') = got \<and> (\<forall>pkt \<in> set (to_host w'). \<not> is_nak pkt)"
    using st
  proof cases
    case (peer_submits p out e)
    with assms(3) ep_submit_shape [of p "peer w" out e] show ?thesis by (auto simp: stalled_def)
  next
    case (peer_resends out e)
    with assms(3) ep_resend_shape [of "peer w" out e] show ?thesis by (auto simp: stalled_def)
  next
    case (peer_receives pkt rest out e)
    then have "harmless (length got) pkt" "no_reset pkt" using assms(3) nr by (auto simp: stalled_def)
    with peer_receives harmless_receive [of "length got" pkt "peer w" out e] rx assms(3) show ?thesis
      by (auto simp: stalled_def)
  qed (use assms(3) in \<open>auto simp: stalled_def\<close>)
  with assms(3) tp show ?thesis by (auto simp: stalled_def)
qed

interpretation stall: line_condition clean_step "stalled got" for got
proof
  fix w w' h ms
  assume "clean_step w w'" "line_ok h ms w" "stalled got h ms [] w"
  then show "stalled got h ms [] w'" by (rule stalled_env)
next
  fix h m ms w out h'
  assume "stalled got h (m # ms) [] w" "ep_receive m h = (out, h')"
  with host_receive_harmless [of m h out h' "length got"] show "stalled got h' ms out w" by (auto simp: stalled_def)
next
  fix h w p out h'
  assume "stalled got h [] [] w" "line_ok h [] w" "ep_submit p h = (out, h')"
  with host_submit_harmless [of h "peer w" "to_host w" "to_peer w" p out h'] show "stalled got h' [] out w" by (auto simp: stalled_def)
qed (auto simp: stalled_def clean_step_def)

text \<open>The scripted line, with a script that garbles nothing on the way to the peer.\<close>

lemma clean_move: "\<not> garbles_towards_peer m \<Longrightarrow> move_line m w = w \<or> clean_step w (move_line m w)"
  using move_line_step [of m w] unfolding clean_step_def
  by (cases m) (auto simp: lose_nth_def dest: in_set_takeD in_set_dropD split: prod.splits list.splits)

lemma clean_moves: "\<forall>m\<in>set ms. \<not> garbles_towards_peer m \<Longrightarrow> clean_step\<^sup>*\<^sup>* w (fold move_line ms w)"
proof (induction ms arbitrary: w)
  case (Cons m ms)
  have "clean_step\<^sup>*\<^sup>* w (move_line m w)" using clean_move [of m w] Cons.prems by auto
  with Cons.IH [of "move_line m w"] Cons.prems show ?case by simp
qed simp

lemma clean_write:
  assumes "scripted_write b bs t = (r, t')" "encode f = Inr bs" "reduce_frame f = f"
  shows "clean_step\<^sup>*\<^sup>* ((the_line t)\<lparr>to_peer := to_peer (the_line t) @ [Intact f]\<rparr>) (the_line t') \<and> read_so_far t' = read_so_far t"
proof -
  let ?w = "(the_line t)\<lparr>to_peer := to_peer (the_line t) @ [Intact f]\<rparr>"
  have "clean_step ?w (the_line t)"
    using loses_to_peer [of ?w "to_peer (the_line t)" "Intact f" "[]"] by (cases "the_line t") (simp add: clean_step_def)
  moreover have "clean_step ?w ((the_line t)\<lparr>to_peer := to_peer (the_line t) @ [Garbled e]\<rparr>)" if "\<not> is_recoverable_by_nak e" for e
    using garbles_to_peer [of ?w "to_peer (the_line t)" "Intact f" "[]" e] that by (auto simp: clean_step_def)
  ultimately show ?thesis
    using assms(1) feed_written [OF assms(2,3)] by (auto simp: scripted_write_def split: if_splits)
qed

interpretation stall: ash_line clean_step "stalled got" "scripted_ops b False" the_line read_so_far for got b
proof
  fix f bs t r t'
  assume "t_write (scripted_ops b False) bs t = (r, t')" "encode f = Inr bs" "reduce_frame f = f"
  then show "clean_step\<^sup>*\<^sup>* ((the_line t)\<lparr>to_peer := to_peer (the_line t) @ [Intact f]\<rparr>) (the_line t') \<and> read_so_far t' = read_so_far t"
    by (intro clean_write) (simp_all add: scripted_ops_def)
next
  fix t bs t'
  assume "t_read (scripted_ops b False) t = (ReadOk bs, t')"
  then show "\<exists>w ms rest. clean_step\<^sup>*\<^sup>* (the_line t) w \<and> to_host w = ms @ rest \<and> the_line t' = w\<lparr>to_host := rest\<rparr> \<and>
      feed bs (read_so_far t) = (map arrival ms, read_so_far t')"
    by (rule scripted_read_ok) (metis clean_moves append_take_drop_id)
next
  fix t q t'
  assume "t_read (scripted_ops b False) t = (q, t')" "\<forall>bs. q \<noteq> ReadOk bs"
  then show "clean_step\<^sup>*\<^sup>* (the_line t) (the_line t') \<and> read_so_far t' = read_so_far t"
    by (rule scripted_read_quiet) (simp add: clean_moves)
qed

section \<open>A lost request\<close>

text \<open>
  A request is lost: one was submitted that the peer has not accepted, nothing is on its way to the
  peer, and no NAK is on its way to the host.
\<close>

definition request_lost :: "scripted ncp \<Rightarrow> bool" where
  "request_lost s \<longleftrightarrow> (let w = the_line (transport s) in
     next_tx_frame (ash s) \<noteq> next_rx_frame (conn (peer w)) \<and> to_peer w = [] \<and> (\<forall>pkt \<in> set (to_host w). \<not> is_nak pkt))"

lemma lost_stalls:
  assumes "scripted.at_rest False h0 s" "request_lost s"
  shows "stall.at_rest (delivered (peer (the_line (transport s)))) False h0 s"
proof -
  let ?w = "the_line (transport s)"
  obtain sub del new where n: "heard s = h0 @ new" "subseq new del" "logged sub (log_lines s)"
    "link_core (\<lambda>_ _ _ _. True) the_line sub del [] [] s" "decoder s = read_so_far (transport s)"
    using assms(1) by (auto simp: scripted.at_rest_def linked_def)
  let ?h = "\<lparr>conn = ash s, submitted = sub, delivered = del\<rparr>"
  have ok: "both_ok ?h (peer ?w) (to_host ?w) (to_peer ?w)" using n(4) by (simp add: link_core_def)
  then have "length (delivered (peer ?w)) \<le> length sub" "next_tx_frame (ash s) = seq_num (length sub)"
    by (simp_all add: both_ok_def direction_ok_def receiver_ok_def sender_ok_def)
  then have "length (delivered (peer ?w)) < length sub"
    using assms(2) stalled_expects [OF ok] by (cases "length (delivered (peer ?w)) = length sub") (auto simp: request_lost_def)
  then have "stalled (delivered (peer ?w)) ?h [] [] ?w"
    using assms(2) by (simp add: stalled_def request_lost_def Let_def)
  with n show ?thesis unfolding stall.at_rest_def linked_def link_core_def by auto
qed

lemma stalled_rest:
  assumes "stall.at_rest got w h0 s"
  shows "delivered (peer (the_line (transport s))) = got" "in_flight (ash s) \<noteq> []"
proof -
  obtain sub del where c: "link_core (stalled got) the_line sub del [] [] s"
    using assms by (auto simp: stall.at_rest_def linked_def)
  then show g: "delivered (peer (the_line (transport s))) = got" by (simp add: link_core_def stalled_def)
  let ?h = "\<lparr>conn = ash s, submitted = sub, delivered = del\<rparr>"
  have S: "sender_ok ?h" and "ack_ok (acked ?h) (length got) (to_host (the_line (transport s)))"
    and l: "length got < length sub"
    using c g by (auto simp: link_core_def both_ok_def direction_ok_def stalled_def)
  then show "in_flight (ash s) \<noteq> []" using acked_le [OF S] ack_ok_le by force
qed

text \<open>
  If in a session with a peer that is a connection of this code the line has lost a request, then
  from then on, as long as the line garbles nothing on the way to the peer, whatever commands are
  called and however long they wait, the peer delivers no further request, and the lost one stays
  in the queue: nothing sends it again.
\<close>

theorem lost_request_stops_the_link:
  assumes "newly_connected s" "session (scripted_ops b g) s s1" "request_lost s1" "session (scripted_ops b' False) s1 s2"
  shows "delivered (peer (the_line (transport s2))) = delivered (peer (the_line (transport s1))) \<and> in_flight (ash s2) \<noteq> []"
proof -
  have "scripted.at_rest False (heard s) s1" by (rule newly_connected_session [OF assms(1,2)]) simp
  from stall.session_at_rest [OF assms(4) _ lost_stalls [OF this assms(3)]]
  have "stall.at_rest (delivered (peer (the_line (transport s1)))) False (heard s) s2" by simp
  then show ?thesis using stalled_rest by blast
qed

definition sample_losing :: "scripted ncp" where
  "sample_losing =
     (ncp_start \<lparr>the_line = fresh_line, read_so_far = decoder_new,
        script = [([LosesToPeer 0], ReadPending), ([PeerReceives, PeerResends], ReadPending)], refusals = []\<rparr>)\<lparr>ash := conn (left link_start)\<rparr>"

lemma scripted_reads: "t_read (scripted_ops b g) = scripted_read g"
  by (simp add: scripted_ops_def)

lemma sample_losing_run:
  "\<exists>s1. run_command (Suc 0) (scripted_ops b g) (version_command (Version PREFERRED)) sample_losing =
     (Inl (Timeout ID_VERSION), s1) \<and> request_lost s1"
  by (simp add: run_command_def andthen_def sample_losing_def run_defs sample_defs const_defs Let_def fits_legacy_def
      link_eval fresh_line_def scripted_write_frame scripted_reads scripted_read_def lose_nth_def report_no_answer_def
      time_out_def request_lost_def)

lemma lost_request_stops_the_link_witness:
  "\<exists>s1 r s2. run_command 1 (scripted_ops False False) (version_command (Version PREFERRED)) sample_losing =
      (Inl (Timeout ID_VERSION), s1) \<and>
    run_command 1 (scripted_ops False False) (version_command (Version PREFERRED)) s1 = (r, s2) \<and>
    delivered (peer (the_line (transport s2))) = delivered (peer (the_line (transport s1))) \<and> in_flight (ash s2) \<noteq> []"
proof -
  obtain s1 where s1: "run_command 1 (scripted_ops False False) (version_command (Version PREFERRED)) sample_losing =
     (Inl (Timeout ID_VERSION), s1)" "request_lost s1"
    using sample_losing_run by auto
  obtain r s2 where s2: "run_command 1 (scripted_ops False False) (version_command (Version PREFERRED)) s1 = (r, s2)"
    by (metis surj_pair)
  have "newly_connected sample_losing" by (simp add: newly_connected_def sample_losing_def ncp_start_def)
  from lost_request_stops_the_link [OF this session_command [OF s1(1)] s1(2) session_command [OF s2]] s1(1) s2
  show ?thesis by blast
qed

end
