(* ===== verification/NcpLive.thy ===== *)
theory NcpLive
  imports NcpWire
begin

text \<open>
  What completes (\<open>ncp.rs\<close>): a command whose answer is on its way returns it, whatever callbacks
  come before it and however the bytes are divided into reads, and so does \<open>connect\<close>. The NCP's
  side is the content of the scripted transport; its frames are in step with the connection.
\<close>

section \<open>What the NCP sends\<close>

text \<open>
  \<open>in_step rx fs\<close>: the data frames among \<open>fs\<close> are numbered from \<open>rx\<close> on, without a gap, and the
  others are acknowledgements.
\<close>

fun in_step :: "u8 \<Rightarrow> ash_frame list \<Rightarrow> bool" where
  "in_step rx (Data n _ _ _ # fs) \<longleftrightarrow> n = rx \<and> in_step (next_sequence rx) fs"
| "in_step rx (Ack _ _ # fs) \<longleftrightarrow> in_step rx fs"
| "in_step rx [] \<longleftrightarrow> True"
| "in_step rx _ \<longleftrightarrow> False"

fun carried :: "ash_frame \<Rightarrow> bytes list" where
  "carried (Data _ _ _ p) = [p]"
| "carried _ = []"

abbreviation all_carried :: "ash_frame list \<Rightarrow> bytes list" where
  "all_carried fs \<equiv> concat (map carried fs)"

definition next_expected :: "u8 \<Rightarrow> ash_frame list \<Rightarrow> u8" where
  "next_expected rx fs = fold (\<lambda>_. next_sequence) (all_carried fs) rx"

lemma in_step_append:
  "in_step rx (fs @ gs) \<longleftrightarrow> in_step rx fs \<and> in_step (next_expected rx fs) gs"
  by (induction rx fs rule: in_step.induct) (auto simp: next_expected_def)

lemma next_expected_none: "all_carried fs = [] \<Longrightarrow> next_expected rx fs = rx"
  by (simp only: next_expected_def fold.simps id_apply)

text \<open>A scripted transport on which nothing fails.\<close>

definition healthy :: "fake_transport \<Rightarrow> bool" where
  "healthy t \<longleftrightarrow> fail_next_read t = None \<and> \<not> closed t"

lemma retire_fields [simp]:
  "next_rx_frame (retire_acknowledged a c) = next_rx_frame c" "next_tx_frame (retire_acknowledged a c) = next_tx_frame c" "state (retire_acknowledged a c) = state c"
  by (simp_all add: retire_acknowledged_def Let_def)

text \<open>What the acknowledgement in a frame does to the frames in flight.\<close>

definition drop_acked :: "u8 \<Rightarrow> in_flight_frame list \<Rightarrow> in_flight_frame list" where
  "drop_acked a fl = drop (case position (\<lambda>f. flight_num f = a) fl of Some i \<Rightarrow> i | None \<Rightarrow> length fl) fl"

fun retired_by :: "ash_frame \<Rightarrow> in_flight_frame list \<Rightarrow> in_flight_frame list" where
  "retired_by (Data _ a _ _) fl = drop_acked a fl"
| "retired_by (Ack a _) fl = drop_acked a fl"
| "retired_by _ fl = fl"

lemma in_flight_retire [simp]: "in_flight (retire_acknowledged a c) = drop_acked a (in_flight c)"
  by (simp add: retire_acknowledged_def drop_acked_def)

lemma length_acked: "length (fold retired_by fs fl) \<le> length fl"
proof (induction fs arbitrary: fl)
  case (Cons f fs)
  have "length (retired_by f fl) \<le> length fl" by (cases f) (simp_all add: drop_acked_def)
  with Cons.IH [of "retired_by f fl"] show ?case by simp
qed simp

definition acked_by :: "ash_frame list \<Rightarrow> 't ncp \<Rightarrow> 't ncp \<Rightarrow> bool" where
  "acked_by fs s s' \<longleftrightarrow> in_flight (ash s') = fold retired_by fs (in_flight (ash s)) \<and> next_tx_frame (ash s') = next_tx_frame (ash s)"

lemma acked_by_trans: "acked_by fs s s1 \<Longrightarrow> acked_by gs s1 s2 \<Longrightarrow> acked_by (fs @ gs) s s2"
  by (simp add: acked_by_def)

lemma drop_acked_all: "a \<notin> flight_num ` set fl \<Longrightarrow> drop_acked a fl = []"
proof -
  assume "a \<notin> flight_num ` set fl"
  then have "position (\<lambda>f. flight_num f = a) fl = None" by (auto simp: position_None)
  then show ?thesis by (simp add: drop_acked_def)
qed

lemma on_decoded_in_step:
  assumes "in_step (next_rx_frame (ash s)) [f]" "is_connected (ash s)" "healthy (transport s)"
  shows "\<exists>s'. on_decoded fake_ops (Frame f) s = (Inr (), s') \<and> dispatched (carried f) s s' \<and>
    next_rx_frame (ash s') = next_expected (next_rx_frame (ash s)) [f] \<and> is_connected (ash s') \<and>
    healthy (transport s') \<and> to_read (transport s') = to_read (transport s) \<and> decoder s' = decoder s \<and>
     acked_by [f] s s'"
proof (cases f)
  case (Data n a r p)
  let ?a = "snd (on_frame f (ash s))"
  let ?s1 = "s\<lparr>ash := ?a, transport := (transport s)\<lparr>written := written (transport s) @ wire_of (Ack (next_sequence n) False)\<rparr>\<rparr>"
  have "on_decoded fake_ops (Frame f) s = (Inr (), dispatch p ?s1)"
    using assms(1) Data by (simp add: on_decoded_def on_frame_def Let_def write_outbound_def fake_write_frame)
  moreover have "dispatched [] s ?s1"
    using dispatched_trans [OF dispatched_link(2) dispatched_link(1)] by fastforce
  then have "dispatched [p] s (dispatch p ?s1)"
    using dispatched_trans [OF _ dispatched_one] by fastforce
  ultimately show ?thesis using assms Data
    by (auto simp: on_frame_def Let_def next_expected_def is_connected_def healthy_def acked_by_def dispatch_link_state
        dispatch_def split: sum.split prod.split classified.split)
next
  case (Ack a r)
  have "on_decoded fake_ops (Frame f) s = (Inr (), s\<lparr>ash := retire_acknowledged a (ash s)\<rparr>)"
    using Ack by (simp add: on_decoded_def on_frame_def write_outbound_def)
  with assms Ack dispatched_link(2) show ?thesis by (auto simp: next_expected_def is_connected_def acked_by_def)
qed (use assms in simp_all)

lemma on_decoded_all_in_step:
  "in_step (next_rx_frame (ash s)) fs \<Longrightarrow> is_connected (ash s) \<Longrightarrow> healthy (transport s) \<Longrightarrow>
   \<exists>s'. on_decoded_all fake_ops (map Frame fs) s = (Inr (), s') \<and> dispatched (all_carried fs) s s' \<and>
     next_rx_frame (ash s') = next_expected (next_rx_frame (ash s)) fs \<and> is_connected (ash s') \<and>
     healthy (transport s') \<and> to_read (transport s') = to_read (transport s) \<and> decoder s' = decoder s \<and>
     acked_by fs s s'"
proof (induction fs arbitrary: s)
  case Nil
  then show ?case by (auto simp: next_expected_def acked_by_def)
next
  case (Cons f fs)
  have st: "in_step (next_rx_frame (ash s)) [f]" "in_step (next_expected (next_rx_frame (ash s)) [f]) fs"
    using Cons.prems(1) in_step_append [of _ "[f]" fs] by simp_all
  from on_decoded_in_step [OF st(1) Cons.prems(2,3)] obtain s1 where s1:
    "on_decoded fake_ops (Frame f) s = (Inr (), s1)" "dispatched (carried f) s s1"
    "next_rx_frame (ash s1) = next_expected (next_rx_frame (ash s)) [f]" "is_connected (ash s1)"
    "healthy (transport s1)" "to_read (transport s1) = to_read (transport s)" "decoder s1 = decoder s"
    "acked_by [f] s s1" by blast
  from Cons.IH [of s1] s1 st(2) obtain s2 where s2:
    "on_decoded_all fake_ops (map Frame fs) s1 = (Inr (), s2)" "dispatched (all_carried fs) s1 s2"
    "next_rx_frame (ash s2) = next_expected (next_rx_frame (ash s1)) fs" "is_connected (ash s2)"
    "healthy (transport s2)" "to_read (transport s2) = to_read (transport s1)" "decoder s2 = decoder s1"
    "acked_by fs s1 s2" by auto
  have "next_rx_frame (ash s2) = next_expected (next_rx_frame (ash s)) (f # fs)"
    using s1(3) s2(3) by (simp add: next_expected_def)
  with s1 s2 dispatched_trans [OF s1(2) s2(2)] acked_by_trans [OF s1(8) s2(8)] show ?case by (simp add: andthen_def)
qed

section \<open>A command that is answered\<close>

lemma feed_split:
  assumes "feed (c @ cs) d = (map Frame fs, e)"
  obtains gs hs d' where "fs = gs @ hs" "feed c d = (map Frame gs, d')" "feed cs d' = (map Frame hs, e)"
proof -
  obtain out d' where 1: "feed c d = (out, d')" by (metis surj_pair)
  obtain outs e' where 2: "feed cs d' = (outs, e')" by (metis surj_pair)
  from assms 1 2 have "out @ outs = map Frame fs" "e' = e" by (simp_all add: feed_append)
  then obtain gs hs where "fs = gs @ hs" "out = map Frame gs" "outs = map Frame hs"
    by (metis append_eq_map_conv map_eq_append_conv)
  with that 1 2 \<open>e' = e\<close> show ?thesis by blast
qed

text \<open>
  \<open>ahead k s chunks fs d later\<close>: the next reads bring \<open>chunks\<close>, which decode to the frames \<open>fs\<close>
  and leave the decoder in the state \<open>d\<close>; the data frames are in step with the connection, which
  has at most \<open>k\<close> frames in flight.
\<close>

definition ahead :: "nat \<Rightarrow> fake_transport ncp \<Rightarrow> bytes list \<Rightarrow> ash_frame list \<Rightarrow> decoder \<Rightarrow> bytes list \<Rightarrow> bool" where
  "ahead k s chunks fs d later \<longleftrightarrow> length (in_flight (ash s)) \<le> k \<and> is_connected (ash s) \<and> healthy (transport s) \<and>
     to_read (transport s) = chunks @ later \<and> feed (concat chunks) (decoder s) = (map Frame fs, d) \<and>
     in_step (next_rx_frame (ash s)) fs"

lemma ahead_read_acked:
  assumes "ahead k s (c # cs) fs d later"
  obtains gs hs s1 s2 where "fs = gs @ hs" "t_read fake_ops (transport s) = (ReadOk c, s1)"
    "consume fake_ops c (s\<lparr>transport := s1\<rparr>) = (Inr (), s2)" "dispatched (all_carried gs) s s2"
    "ahead k s2 cs hs d later" "next_rx_frame (ash s2) = next_expected (next_rx_frame (ash s)) gs"
    "acked_by gs s s2"
proof -
  have "feed (c @ concat cs) (decoder s) = (map Frame fs, d)" using assms by (simp add: ahead_def)
  then obtain gs hs d' where g: "fs = gs @ hs" "feed c (decoder s) = (map Frame gs, d')" "feed (concat cs) d' = (map Frame hs, d)"
    by (rule feed_split)
  let ?t = "(transport s)\<lparr>to_read := cs @ later\<rparr>"
  let ?s = "s\<lparr>transport := ?t, decoder := d'\<rparr>"
  have rd: "t_read fake_ops (transport s) = (ReadOk c, ?t)"
    using assms by (simp add: fake_ops_def fake_read_def healthy_def ahead_def)
  have sp: "in_step (next_rx_frame (ash s)) gs" "in_step (next_expected (next_rx_frame (ash s)) gs) hs"
    using assms g(1) by (simp_all add: in_step_append ahead_def)
  from on_decoded_all_in_step [of ?s gs] sp(1) assms obtain s2 where s2:
    "on_decoded_all fake_ops (map Frame gs) ?s = (Inr (), s2)" "dispatched (all_carried gs) ?s s2"
    "next_rx_frame (ash s2) = next_expected (next_rx_frame (ash s)) gs" "is_connected (ash s2)"
    "healthy (transport s2)" "to_read (transport s2) = cs @ later" "decoder s2 = d'"
    "acked_by gs ?s s2"
    by (auto simp: healthy_def ahead_def)
  have drained: "acked_by gs s s2" using s2(8) by (simp add: acked_by_def)
  have "consume fake_ops c (s\<lparr>transport := ?t\<rparr>) = (Inr (), s2)" using g(2) s2(1) by (simp add: consume_def)
  moreover have "dispatched [] s ?s" using dispatched_trans [OF dispatched_link(1) dispatched_link(3)] by fastforce
  then have "dispatched (all_carried gs) s s2" using dispatched_trans [OF _ s2(2)] by fastforce
  moreover have "length (in_flight (ash s2)) \<le> k"
    using length_acked [of gs "in_flight (ash s)"] drained assms by (simp add: ahead_def acked_by_def)
  then have "ahead k s2 cs hs d later" using s2(3-7) sp(2) g(3) by (simp add: ahead_def)
  ultimately show ?thesis using that [of gs hs ?t s2] g(1) rd s2(3) drained by simp
qed

lemma ahead_read:
  assumes "ahead k s (c # cs) fs d later"
  obtains gs hs s1 s2 where "fs = gs @ hs" "t_read fake_ops (transport s) = (ReadOk c, s1)"
    "consume fake_ops c (s\<lparr>transport := s1\<rparr>) = (Inr (), s2)" "dispatched (all_carried gs) s s2"
    "ahead k s2 cs hs d later" "next_rx_frame (ash s2) = next_expected (next_rx_frame (ash s)) gs"
  by (rule ahead_read_acked [OF assms]) (rule that)

lemma pump_answered:
  assumes "awaiting q fmt s" "ahead k s chunks fs d later" "all_carried fs = us @ [p]"
    and "\<forall>u\<in>set us. \<not> is_answer q fmt u" "answer_frame q fmt p f" "length chunks \<le> n"
  shows "\<exists>s1 cs es gs. pump_until n fake_ops answer_arrived s = (Inr (), Some (parameters f), s1\<lparr>response := None\<rparr>) \<and>
    dispatched (us @ [p]) s s1 \<and> pending (correlator s1) = None \<and> ahead k s1 cs gs d later \<and>
    length cs \<le> length chunks \<and> all_carried gs = [] \<and> next_rx_frame (ash s1) = next_expected (next_rx_frame (ash s)) fs \<and>
    fs = es @ gs \<and> acked_by es s s1"
  using assms
proof (induction chunks arbitrary: n s fs us)
  case Nil
  then show ?case by (auto simp: ahead_def)
next
  case (Cons c cs)
  then obtain m where n: "n = Suc m" by (cases n) auto
  from Cons.prems(2) obtain gs hs t s2 where g: "fs = gs @ hs" "t_read fake_ops (transport s) = (ReadOk c, t)"
    "consume fake_ops c (s\<lparr>transport := t\<rparr>) = (Inr (), s2)" "dispatched (all_carried gs) s s2"
    "ahead k s2 cs hs d later" "next_rx_frame (ash s2) = next_expected (next_rx_frame (ash s)) gs"
    "acked_by gs s s2"
    by (rule ahead_read_acked)
  have "answer_arrived s = (False, None, s)"
    using Cons.prems(1,2) by (simp add: answer_arrived_def take_response_def awaiting_def ahead_def)
  with n g(2,3) have run: "pump_until n fake_ops answer_arrived s = pump_until m fake_ops answer_arrived s2" by simp
  have rx: "next_expected (next_rx_frame (ash s)) fs = next_expected (next_rx_frame (ash s2)) hs"
    using g(1,6) by (simp add: next_expected_def)
  show ?case
  proof (cases "all_carried hs = []")
    case True
    with Cons.prems(3) g(1) have all: "all_carried gs = us @ [p]" by simp
    have aw: "awaiting q fmt (fold dispatch us s)"
      using fold_dispatch_unanswered [OF Cons.prems(1)] Cons.prems(4) by blast
    have "pending (correlator (fold dispatch (us @ [p]) s)) = None \<and> response (fold dispatch (us @ [p]) s) = Some (parameters f)"
      using dispatch_awaiting [OF aw, of p] Cons.prems(5) by (auto simp: answer_frame_def is_answer_def)
    with g(4) all have "pending (correlator s2) = None" and r: "response s2 = Some (parameters f)"
      by (auto simp: dispatched_def)
    moreover have "pump_until m fake_ops answer_arrived s2 = (Inr (), Some (parameters f), s2\<lparr>response := None\<rparr>)"
      using r by (cases m) (simp_all add: answer_arrived_def take_response_def)
    moreover have "next_rx_frame (ash s2) = next_expected (next_rx_frame (ash s)) fs"
      using rx next_expected_none [OF True] by simp
    moreover have "length cs \<le> length (c # cs)" by simp
    ultimately show ?thesis using run all g(1,4,5,7) True by metis
  next
    case False
    then obtain us2 where u2: "all_carried hs = us2 @ [p]" "us = all_carried gs @ us2"
      using Cons.prems(3) g(1) by (cases "all_carried hs" rule: rev_cases) auto
    have aw: "awaiting q fmt (fold dispatch (all_carried gs) s)"
      by (rule fold_dispatch_unanswered [OF Cons.prems(1)]) (use Cons.prems(4) u2(2) in auto)
    then have aw2: "awaiting q fmt s2" using g(4) by (auto simp: dispatched_def awaiting_def)
    have un: "\<forall>u\<in>set us2. \<not> is_answer q fmt u" and m: "length cs \<le> m"
      using Cons.prems(4,6) u2(2) n by simp_all
    from Cons.IH [OF aw2 g(5) u2(1) un Cons.prems(5) m] obtain s1 cs1 es1 gs1 where
      "pump_until m fake_ops answer_arrived s2 = (Inr (), Some (parameters f), s1\<lparr>response := None\<rparr>)"
      "dispatched (us2 @ [p]) s2 s1" "pending (correlator s1) = None" "ahead k s1 cs1 gs1 d later" "length cs1 \<le> length cs"
      "all_carried gs1 = []" "next_rx_frame (ash s1) = next_expected (next_rx_frame (ash s2)) hs"
      "hs = es1 @ gs1" "acked_by es1 s2 s1"
      by (elim exE conjE)
    moreover from this have "length cs1 \<le> length (c # cs)" "fs = (gs @ es1) @ gs1"
      "acked_by (gs @ es1) s s1" using g(1,7) acked_by_trans [OF g(7)] by simp_all
    ultimately show ?thesis using run rx u2(2) dispatched_trans [OF g(4)] by (metis append.assoc)
  qed
qed

text \<open>Sending keeps what is ahead.\<close>

lemma send_command_ahead:
  assumes "send_command fake_ops c s = (Inr (), s1)" "ahead k s chunks fs d later"
  shows "ahead (Suc k) s1 chunks fs d later \<and> next_rx_frame (ash s1) = next_rx_frame (ash s)"
  using assms
  by (auto simp: send_command_def Let_def send_data_def write_frame_def fake_ops_def fake_write_def ahead_def
      healthy_def is_connected_def begin_command_def split: sum.splits prod.splits if_splits option.splits)

lemma send_command_number:
  "send_command ops c s = (Inr (), s0) \<Longrightarrow> next_tx_frame (ash s0) = next_sequence (next_tx_frame (ash s))"
  by (auto simp: send_command_def Let_def send_data_def write_frame_def begin_command_def
      split: sum.splits prod.splits if_splits option.splits)

lemma command_answered_acked:
  assumes "send_command fake_ops c s = (Inr (), s0)" "response s = None" "ahead k s chunks fs d later"
    and "all_carried fs = us @ [p]" "\<forall>u\<in>set us. \<not> is_answer (registered c s) (choose_format c s) u"
    and "answer_frame (registered c s) (choose_format c s) p f"
    and "answer c (reader_new (parameters f) (version s)) = (Inr x, r)" "reader_is_empty r" "length chunks \<le> n"
  shows "\<exists>s' cs es gs. run_command n fake_ops c s = (Inr x, s') \<and> heard s' = heard s @ us @ [p] \<and>
    version s' = version s \<and> response s' = None \<and> pending (correlator s') = None \<and>
    initial_version_sent s' = initial_version_sent s0 \<and> next_seq (correlator s') = next_seq (correlator s) + 1 \<and>
    ahead (Suc k) s' cs gs d later \<and> length cs \<le> length chunks \<and> all_carried gs = [] \<and>
    next_rx_frame (ash s') = next_expected (next_rx_frame (ash s)) fs \<and>
    fs = es @ gs \<and> acked_by es s0 s'"
proof -
  have aw: "awaiting (registered c s) (choose_format c s) s0"
    using assms(1,2) by (rule send_command_awaiting)
  have a0: "ahead (Suc k) s0 chunks fs d later" and rx: "next_rx_frame (ash s0) = next_rx_frame (ash s)"
    using send_command_ahead [OF assms(1,3)] by simp_all
  obtain s1 cs es gs where p: "pump_until n fake_ops answer_arrived s0 = (Inr (), Some (parameters f), s1\<lparr>response := None\<rparr>)"
    "dispatched (us @ [p]) s0 s1" "pending (correlator s1) = None" "ahead (Suc k) s1 cs gs d later" "length cs \<le> length chunks" "all_carried gs = []"
    "next_rx_frame (ash s1) = next_expected (next_rx_frame (ash s0)) fs" "fs = es @ gs"
    "acked_by es s0 s1"
    using pump_answered [OF aw a0 assms(4,5,6,9)] by (elim exE conjE)
  have si: "same_inbox s s0" and ns: "next_seq (correlator s0) = next_seq (correlator s) + 1"
    using assms(1) send_command_registers [OF _ _ assms(1)] by (auto elim: send_command_ok)
  let ?s = "s1\<lparr>response := None\<rparr>"
  have "decode_answer c (parameters f) ?s = (Inr x, ?s)"
    unfolding decode_answer_Inr using assms(7,8) si dispatched_same(1) [OF p(2)] by (simp add: same_inbox_def)
  then have "run_command n fake_ops c s = (Inr x, ?s)"
    using run_command_sent [OF assms(1)] p(1) by (simp add: await_answer_def)
  moreover have "ahead (Suc k) ?s cs gs d later" using p(4) by (simp add: ahead_def)
  moreover have "heard ?s = heard s @ us @ [p]" "version ?s = version s" "next_seq (correlator ?s) = next_seq (correlator s) + 1"
    "initial_version_sent ?s = initial_version_sent s0"
    using dispatched_same [OF p(2)] si ns by (simp_all add: same_inbox_def)
  moreover have "acked_by es s0 ?s" "pending (correlator ?s) = None" "response ?s = None"
    "next_rx_frame (ash ?s) = next_expected (next_rx_frame (ash s)) fs"
    using p(3,7,9) rx by (simp_all add: acked_by_def)
  ultimately show ?thesis using p(5,6,8) by blast
qed

lemma command_answered_ahead:
  assumes "send_command fake_ops c s = (Inr (), s0)" "response s = None" "ahead k s chunks fs d later"
    and "all_carried fs = us @ [p]" "\<forall>u\<in>set us. \<not> is_answer (registered c s) (choose_format c s) u"
    and "answer_frame (registered c s) (choose_format c s) p f"
    and "answer c (reader_new (parameters f) (version s)) = (Inr x, r)" "reader_is_empty r" "length chunks \<le> n"
  shows "\<exists>s' cs gs. run_command n fake_ops c s = (Inr x, s') \<and> heard s' = heard s @ us @ [p] \<and>
    version s' = version s \<and> response s' = None \<and> pending (correlator s') = None \<and>
    initial_version_sent s' = initial_version_sent s0 \<and> next_seq (correlator s') = next_seq (correlator s) + 1 \<and>
    ahead (Suc k) s' cs gs d later \<and> length cs \<le> length chunks \<and> all_carried gs = [] \<and>
    next_rx_frame (ash s') = next_expected (next_rx_frame (ash s)) fs \<and>
    next_tx_frame (ash s') = next_sequence (next_tx_frame (ash s))"
  using command_answered_acked [OF assms] send_command_number [OF assms(1)] unfolding acked_by_def by metis

text \<open>
  \<open>relays chunks rx q fmt fs p\<close>: the reads \<open>chunks\<close>, with flow control bytes anywhere in them, bring
  the encoded frames \<open>fs\<close>, in step from \<open>rx\<close>; the last payload they carry is \<open>p\<close>, and none
  before it is an answer to \<open>q\<close>.
\<close>

definition relays :: "bytes list \<Rightarrow> u8 \<Rightarrow> pending \<Rightarrow> header_format \<Rightarrow> ash_frame list \<Rightarrow> bytes \<Rightarrow> bool" where
  "relays chunks rx q fmt fs p \<longleftrightarrow>
     strip_flow (concat chunks) = concat (map wire_of fs) \<and> (\<forall>f \<in> set fs. wf_frame f) \<and> in_step rx fs \<and>
     all_carried fs \<noteq> [] \<and> last (all_carried fs) = p \<and> (\<forall>u \<in> set (butlast (all_carried fs)). \<not> is_answer q fmt u)"

lemma relays_feed: "relays chunks rx q fmt fs p \<Longrightarrow> feed (concat chunks) decoder_new = (map Frame fs, decoder_new)"
  using feed_wires [of fs] feed_strip_flow [of "concat chunks" decoder_new] by (simp add: relays_def)

lemma relays_ahead:
  assumes "relays chunks (next_rx_frame (ash s)) q fmt fs p" "is_connected (ash s)" "healthy (transport s)"
    and "to_read (transport s) = chunks @ later" "decoder s = decoder_new" "length (in_flight (ash s)) \<le> k"
  shows "ahead k s chunks fs decoder_new later"
  using assms relays_feed [OF assms(1)] by (simp add: ahead_def relays_def)

lemma ahead_relays:
  assumes "ahead k s cs gs decoder_new (chunks @ later)" "all_carried gs = []"
    and "relays chunks (next_rx_frame (ash s)) q fmt fs p"
  shows "ahead k s (cs @ chunks) (gs @ fs) decoder_new later"
  using assms relays_feed [OF assms(3)] next_expected_none [OF assms(2)]
  by (simp add: ahead_def in_step_append feed_append relays_def del: concat_eq_Nil_conv)

text \<open>
  C2. A command whose answer is on its way returns it: when the request has been sent and the reads
  to come bring the answer, after any callbacks and stale frames, with acknowledgements and flow
  control bytes in between and divided into reads in any way, then as many turns of the read loop
  as there are reads are enough. The result is what the answer decodes to, all payloads up to it
  have been dispatched in order, nothing is outstanding, and the next frame expected is the one
  after the answer.
\<close>

theorem command_returns_when_answered:
  assumes "send_command fake_ops c s = (Inr (), s0)" "response s = None" "decoder s = decoder_new"
    and "healthy (transport s)" "to_read (transport s) = chunks @ later"
    and "relays chunks (next_rx_frame (ash s)) (registered c s) (choose_format c s) fs p"
    and "answer_frame (registered c s) (choose_format c s) p f"
    and "answer c (reader_new (parameters f) (version s)) = (Inr x, r)" "reader_is_empty r" "length chunks \<le> n"
  shows "\<exists>s'. run_command n fake_ops c s = (Inr x, s') \<and> heard s' = heard s @ all_carried fs \<and>
    pending (correlator s') = None \<and> is_connected (ash s') \<and>
    next_rx_frame (ash s') = next_expected (next_rx_frame (ash s)) fs"
proof -
  have "is_connected (ash s)"
    using assms(1) by (auto simp: send_command_def Let_def send_data_def split: sum.splits prod.splits if_splits)
  with assms have a: "ahead (length (in_flight (ash s))) s chunks fs decoder_new later"
    by (intro relays_ahead) auto
  have p: "all_carried fs = butlast (all_carried fs) @ [p]"
    "\<forall>u\<in>set (butlast (all_carried fs)). \<not> is_answer (registered c s) (choose_format c s) u"
    using assms(6) append_butlast_last_id [of "all_carried fs"] by (simp_all add: relays_def del: concat_eq_Nil_conv)
  from command_answered_ahead [OF assms(1,2) a p assms(7-10)] obtain s' cs gs where
    "run_command n fake_ops c s = (Inr x, s')" "heard s' = heard s @ butlast (all_carried fs) @ [p]"
    "pending (correlator s') = None" "ahead (Suc (length (in_flight (ash s)))) s' cs gs decoder_new later"
    "next_rx_frame (ash s') = next_expected (next_rx_frame (ash s)) fs"
    by (elim exE conjE)
  then show ?thesis using p(1) by (auto simp: ahead_def)
qed

section \<open>The exchange of versions\<close>

text \<open>The NCP's answer to \<open>version\<close> in either format: version, stack type, firmware version.\<close>

fun version_payload :: "header_format \<Rightarrow> u8 \<Rightarrow> version_response \<Rightarrow> bytes" where
  "version_payload Legacy sq v = [sq, 0x80, 0] @ [raw (protocol_version v), stack_type v] @ le_bytes 2 (stack_version v)"
| "version_payload Extended sq v = [sq, 0x80, 1, 0, 0] @ [raw (protocol_version v), stack_type v] @ le_bytes 2 (stack_version v)"

definition version_pending :: "u8 \<Rightarrow> pending" where
  "version_pending sq = \<lparr>pending_sequence = sq, pending_frame_id = ID_VERSION\<rparr>"

lemma version_payload_answers:
  "\<exists>f. answer_frame (version_pending sq) fmt (version_payload fmt sq v) f \<and>
     parameters f = [raw (protocol_version v), stack_type v] @ le_bytes 2 (stack_version v)"
  by (cases fmt) (simp_all add: answer_frame_def version_pending_def parse_eq header_id_def from_low_byte_def const_defs
      le_bytes_2)

lemma version_payload_decodes:
  "\<exists>r. version_response_decode (reader_new ([raw (protocol_version v), stack_type v] @ le_bytes 2 (stack_version v)) w) =
     (Inr v, r) \<and> reader_is_empty r"
proof -
  have "le_word (le_bytes 2 (stack_version v)) = stack_version v" by simp
  moreover obtain a b where "le_bytes 2 (stack_version v) = [a, b]" by (simp add: le_bytes_2)
  ultimately show ?thesis
    using reader_used_up [of "[raw (protocol_version v), stack_type v, a, b]" w]
    by (auto simp: version_response_bytes simp del: le_word.simps)
qed

lemma version_sent:
  assumes "pending (correlator s) = None" "is_connected (ash s)" "length (in_flight (ash s)) < 7"
  shows "\<exists>s0. send_command fake_ops (version_command (Version w)) s = (Inr (), s0) \<and> initial_version_sent s0"
  using assms
  by (auto simp: send_command_def begin_command_def version_command_def version_encode_def choose_format_def
      request_bytes_def write_header_def fits_legacy_def send_data_def is_connected_def writer_u8_def
      writer_u16_def writer_put_def writer_new_def andthen_def fake_write_frame Let_def const_defs split: option.split)

lemma version_exchange:
  assumes "ahead k s chunks fs d later" "k < 7" "response s = None" "pending (correlator s) = None"
    and "all_carried fs = us @ [version_payload fmt sq v]"
    and "fmt = (if initial_version_sent s then Extended else Legacy)" "sq = next_seq (correlator s)"
    and "\<forall>u\<in>set us. \<not> is_answer (version_pending sq) fmt u" "length chunks \<le> n"
  shows "\<exists>s' cs gs. run_command n fake_ops (version_command (Version w)) s = (Inr v, s') \<and>
    heard s' = heard s @ us @ [version_payload fmt sq v] \<and> version s' = version s \<and> response s' = None \<and>
    pending (correlator s') = None \<and> initial_version_sent s' \<and> next_seq (correlator s') = sq + 1 \<and>
    ahead (Suc k) s' cs gs d later \<and> length cs \<le> length chunks \<and> all_carried gs = [] \<and>
    next_rx_frame (ash s') = next_expected (next_rx_frame (ash s)) fs \<and>
    next_tx_frame (ash s') = next_sequence (next_tx_frame (ash s))"
proof -
  let ?c = "version_command (Version w)"
  obtain s0 where s0: "send_command fake_ops ?c s = (Inr (), s0)" "initial_version_sent s0"
    using version_sent [of s w] assms(1,2,4) by (auto simp: ahead_def)
  have q: "registered ?c s = version_pending sq" "choose_format ?c s = fmt"
    using assms(6,7) by (simp_all add: registered_def version_pending_def version_command_def choose_format_def)
  obtain f where f: "answer_frame (version_pending sq) fmt (version_payload fmt sq v) f"
    "parameters f = [raw (protocol_version v), stack_type v] @ le_bytes 2 (stack_version v)"
    using version_payload_answers by blast
  have a: "answer ?c = version_response_decode" by (simp add: version_command_def)
  obtain r where "answer ?c (reader_new (parameters f) (version s)) = (Inr v, r)" "reader_is_empty r"
    unfolding a f(2) using version_payload_decodes by blast
  from command_answered_ahead [OF s0(1) assms(3,1,5) _ _ this assms(9)] q f(1) assms(7,8) s0(2)
  show ?thesis by (simp only: q) metis
qed

text \<open>Encoded frames contain no flow control bytes.\<close>

lemma wire_no_flow:
  assumes "wf_frame f"
  shows "strip_flow (wire_of f) = wire_of f"
proof -
  have "XON \<notin> set (wire_of f) \<and> XOFF \<notin> set (wire_of f)"
    using wf_frame_body [OF assms] stuff_clean [of XON "frame_bytes f"] stuff_clean [of XOFF "frame_bytes f"]
    by (auto simp: wire_of_def encode_eq is_reserved_def const_defs)
  then show ?thesis by (auto simp: strip_flow_def filter_id_conv)
qed

lemma wires_no_flow: "\<forall>f \<in> set fs. wf_frame f \<Longrightarrow> strip_flow (concat (map wire_of fs)) = concat (map wire_of fs)"
  using wire_no_flow by (induction fs) (auto simp: strip_flow_def)

text \<open>A run with the answer to \<open>version\<close> split into two reads, after a stale frame and an acknowledgement.\<close>

lemma command_returns_when_answered_witness:
  "\<exists>s'. run_command 2 fake_ops (version_command (Version PREFERRED))
      (sample_ncp (let w = wire_of (Data 0 1 False [9, 0x80, 0, 1]) @ wire_of (Ack 1 False) @
         wire_of (Data 1 1 False (version_payload Legacy 0 \<lparr>protocol_version = ProtocolVersion 13, stack_type = 2, stack_version = 7\<rparr>))
       in [take 5 w, drop 5 w])) =
    (Inr \<lparr>protocol_version = ProtocolVersion 13, stack_type = 2, stack_version = 7\<rparr>, s') \<and> length (heard s') = 2"
proof -
  let ?v = "\<lparr>protocol_version = ProtocolVersion 13, stack_type = 2, stack_version = 7\<rparr>"
  let ?c = "version_command (Version PREFERRED)"
  let ?fs = "[Data 0 1 False [9, 0x80, 0, 1], Ack 1 False, Data 1 1 False (version_payload Legacy 0 ?v)]"
  let ?w = "concat (map wire_of ?fs)"
  let ?s = "sample_ncp [take 5 ?w, drop 5 ?w]"
  obtain s0 where s0: "send_command fake_ops ?c ?s = (Inr (), s0)" using sample_send by blast
  have q: "registered ?c ?s = version_pending 0" "choose_format ?c ?s = Legacy"
    by (simp_all add: registered_def version_pending_def choose_format_def sample_defs)
  have wf: "\<forall>f\<in>set ?fs. wf_frame f" by (simp add: const_defs le_bytes_2)
  have "\<not> is_answer (version_pending 0) Legacy [9, 0x80, 0, 1]"
    by (simp add: is_answer_def answer_frame_def version_pending_def parse_eq const_defs)
  moreover have "concat [take 5 ?w, drop 5 ?w] = ?w" by (simp only: concat.simps append_Nil2 append_take_drop_id)
  ultimately have rel: "relays [take 5 ?w, drop 5 ?w] (next_rx_frame (ash ?s)) (registered ?c ?s) (choose_format ?c ?s) ?fs
      (version_payload Legacy 0 ?v)"
    unfolding relays_def q using wires_no_flow [OF wf] wf by (simp add: sample_defs next_sequence_def const_defs)
  obtain f where f: "answer_frame (version_pending 0) Legacy (version_payload Legacy 0 ?v) f"
    "parameters f = [raw (protocol_version ?v), stack_type ?v] @ le_bytes 2 (stack_version ?v)"
    using version_payload_answers by blast
  have a: "answer ?c = version_response_decode" by (simp add: version_command_def)
  obtain r where r: "answer ?c (reader_new (parameters f) (version ?s)) = (Inr ?v, r)" "reader_is_empty r"
    unfolding a f(2) using version_payload_decodes by blast
  have st: "response ?s = None" "decoder ?s = decoder_new" "healthy (transport ?s)" "heard ?s = []"
    "to_read (transport ?s) = [take 5 ?w, drop 5 ?w] @ []"
    by (simp_all add: sample_defs healthy_def)
  from command_returns_when_answered [OF s0 st(1,2,3,5) rel _ r, of 2] f(1) st(4)
  show ?thesis unfolding q by (auto simp: Let_def)
qed

end
