(* ===== verification/NcpConnect.thy ===== *)
theory NcpConnect
  imports NcpLive
begin

text \<open>
  \<open>Ncp::connect\<close> with an NCP that answers: the attempts of the reset, of which some may go
  unanswered, and the negotiation of the version, over the scripted transport and for any
  division of the bytes into reads. The state it leaves is described completely enough to go on
  with commands.
\<close>

section \<open>The attempts of a reset\<close>

abbreviation connected_stop :: "'t ncp \<Rightarrow> bool \<times> unit \<times> 't ncp" where
  "connected_stop \<equiv> (\<lambda>s. (is_connected (ash s), (), s))"

lemma fake_read_next:
  "healthy t \<Longrightarrow> to_read t = c # cs \<Longrightarrow> t_read fake_ops t = (ReadOk c, t\<lparr>to_read := cs\<rparr>)"
  by (simp add: fake_ops_def fake_read_def healthy_def)

text \<open>Reads that bring no whole frame leave the attempt where it is.\<close>

lemma pump_no_frame:
  assumes "feed (concat cs) (decoder s) = ([], d)" "healthy (transport s)" "to_read (transport s) = cs @ later"
    "\<not> is_connected (ash s)"
  shows "pump_until (length cs) fake_ops connected_stop s =
    (Inr (), (), s\<lparr>transport := (transport s)\<lparr>to_read := later\<rparr>, decoder := d\<rparr>)"
  using assms
proof (induction cs arbitrary: s)
  case Nil
  then have "s\<lparr>transport := (transport s)\<lparr>to_read := later\<rparr>, decoder := d\<rparr> = s" by (cases s; cases "transport s") simp
  then show ?case by simp
next
  case (Cons c cs)
  obtain d' where f: "feed c (decoder s) = ([], d')" "feed (concat cs) d' = ([], d)"
    using Cons.prems(1) by (auto simp: feed_append split: prod.splits)
  let ?s = "s\<lparr>transport := (transport s)\<lparr>to_read := cs @ later\<rparr>, decoder := d'\<rparr>"
  have "consume fake_ops c (s\<lparr>transport := (transport s)\<lparr>to_read := cs @ later\<rparr>\<rparr>) = (Inr (), ?s)"
    using f(1) by (simp add: consume_def)
  moreover have "pump_until (length cs) fake_ops connected_stop ?s =
      (Inr (), (), ?s\<lparr>transport := (transport ?s)\<lparr>to_read := later\<rparr>, decoder := d\<rparr>)"
    by (rule Cons.IH) (use Cons.prems f(2) in \<open>simp_all add: healthy_def\<close>)
  ultimately show ?case using Cons.prems fake_read_next [of "transport s" c "cs @ later"] by simp
qed

definition link_up :: connection where
  "link_up = connection_new\<lparr>state := Connected\<rparr>"

text \<open>Reads that bring the RSTACK end it; what is left of them brings nothing more.\<close>

lemma pump_rstack:
  assumes "feed (concat rs) (decoder s) = ([Frame (RstAck v code)], d)" "healthy (transport s)"
    "to_read (transport s) = rs @ later" "\<not> is_connected (ash s)" "length rs \<le> n"
  shows "\<exists>cs d'. pump_until n fake_ops connected_stop s =
      (Inr (), (), s\<lparr>transport := (transport s)\<lparr>to_read := cs @ later\<rparr>, decoder := d', ash := link_up\<rparr>) \<and>
    feed (concat cs) d' = ([], d) \<and> length cs \<le> length rs"
  using assms
proof (induction rs arbitrary: s n)
  case (Cons c cs)
  then obtain m where n: "n = Suc m" "length cs \<le> m" by (cases n) auto
  obtain out d' where f: "feed c (decoder s) = (out, d')" by (metis surj_pair)
  obtain outs where g: "feed (concat cs) d' = (outs, d)" "out @ outs = [Frame (RstAck v code)]"
    using Cons.prems(1) f by (auto simp: feed_append split: prod.splits)
  have rd: "t_read fake_ops (transport s) = (ReadOk c, (transport s)\<lparr>to_read := cs @ later\<rparr>)"
    using Cons.prems(2,3) by (intro fake_read_next) simp_all
  let ?t = "(transport s)\<lparr>to_read := cs @ later\<rparr>"
  show ?case
  proof (cases "out = []")
    case True
    let ?s = "s\<lparr>transport := ?t, decoder := d'\<rparr>"
    have c: "consume fake_ops c (s\<lparr>transport := ?t\<rparr>) = (Inr (), ?s)" using f True by (simp add: consume_def)
    have "\<exists>as e. pump_until m fake_ops connected_stop ?s =
        (Inr (), (), ?s\<lparr>transport := (transport ?s)\<lparr>to_read := as @ later\<rparr>, decoder := e, ash := link_up\<rparr>) \<and>
        feed (concat as) e = ([], d) \<and> length as \<le> length cs"
      by (rule Cons.IH) (use Cons.prems True g n in \<open>simp_all add: healthy_def\<close>)
    with n c rd Cons.prems(4) show ?thesis by (auto intro: le_SucI)
  next
    case False
    then have o: "out = [Frame (RstAck v code)]" "outs = []" using g(2) by (auto simp: append_eq_Cons_conv)
    let ?s = "s\<lparr>transport := ?t, decoder := d', ash := link_up\<rparr>"
    have "(ash s)\<lparr>state := Connected, next_tx_frame := 0, next_rx_frame := 0, in_flight := [], ack_pending := False,
        nak_pending := False\<rparr> = link_up"
      by (cases "ash s") (simp add: link_up_def connection_new_def)
    then have "consume fake_ops c (s\<lparr>transport := ?t\<rparr>) = (Inr (), ?s)"
      using f o(1) by (simp add: consume_def andthen_def on_decoded_def on_frame_def write_outbound_def)
    moreover have "pump_until m fake_ops connected_stop ?s = (Inr (), (), ?s)"
      by (cases m) (simp_all add: is_connected_def link_up_def)
    ultimately have "pump_until n fake_ops connected_stop s = (Inr (), (), ?s)" using n rd Cons.prems(4) by simp
    then show ?thesis using g(1) o(2) by (intro exI [of _ cs] exI [of _ d']) simp
  qed
qed simp

text \<open>
  \<open>quiet clock k qs\<close>: the reads of the attempts with \<open>k\<close>, \<open>k - 1\<close>, ... attempts to come bring no whole
  frame, and use up the time of their attempt.
\<close>

fun quiet :: "(nat \<Rightarrow> nat) \<Rightarrow> nat \<Rightarrow> bytes list list \<Rightarrow> bool" where
  "quiet clock k [] \<longleftrightarrow> True"
| "quiet clock k (q # qs) \<longleftrightarrow> 0 < k \<and> length q = clock (k - 1) \<and> fst (feed (concat q) decoder_new) = [] \<and> quiet clock (k - 1) qs"

definition rsts :: "nat \<Rightarrow> bytes" where
  "rsts k = concat (replicate k (wire_of Rst))"

lemma rsts_simps: "rsts 0 = []" "rsts (Suc k) = wire_of Rst @ rsts k" "rsts k @ wire_of Rst = rsts (Suc k)"
proof -
  show "rsts k @ wire_of Rst = rsts (Suc k)" unfolding rsts_def by (induction k) simp_all
qed (simp_all add: rsts_def)

lemma begin_reset_room:
  assumes "\<forall>n. state (ash s) = Resetting n \<longrightarrow> unat n + k < 5" "k < 5"
  obtains a where "begin_reset (ash s) = (Send Rst, a)" "\<not> is_connected a"
    "\<forall>n. state a = Resetting n \<longrightarrow> unat n + k \<le> 5"
proof (cases "state (ash s)")
  case (Resetting n)
  with assms have n: "unat n + k < 5" by simp
  then have u: "unat (n + 1) = Suc (unat n)" by (simp add: unat_word_ariths)
  then have "n \<noteq> - 1" by auto
  moreover note u
  moreover have "n < 5" using n by (simp add: word_less_nat_alt)
  ultimately have "n < 5" "unat (saturating_inc n) = Suc (unat n)" by (simp_all add: saturating_inc_def)
  with that Resetting n show ?thesis by (simp add: begin_reset_def is_connected_def const_defs not_le)
qed (use that assms in \<open>simp_all add: begin_reset_def is_connected_def const_defs saturating_inc_def\<close>)

text \<open>After unanswered attempts the state is as before, but for the time spent.\<close>

definition after_quiet :: "nat \<Rightarrow> bytes list \<Rightarrow> connection \<Rightarrow> decoder \<Rightarrow> fake_transport ncp \<Rightarrow> fake_transport ncp" where
  "after_quiet k later a d s = s\<lparr>transport := (transport s)\<lparr>to_read := later, written := written (transport s) @ rsts k\<rparr>,
     ash := a, decoder := d\<rparr>"

lemma quiet_attempts:
  assumes "quiet clock k qs" "length qs \<le> k" "healthy (transport s)" "to_read (transport s) = concat qs @ later"
    and "\<forall>n. state (ash s) = Resetting n \<longrightarrow> unat n + length qs < 5" "length qs < 5"
  shows "\<exists>a d. reset_attempts k clock fake_ops s = reset_attempts (k - length qs) clock fake_ops (after_quiet (length qs) later a d s) \<and>
    (\<forall>n. state a = Resetting n \<longrightarrow> unat n < 5)"
  using assms
proof (induction qs arbitrary: k s)
  case Nil
  then have "s = after_quiet 0 later (ash s) (decoder s) s"
    by (cases s; cases "transport s") (simp add: after_quiet_def rsts_simps)
  with Nil show ?case by (intro exI [of _ "ash s"] exI [of _ "decoder s"]) simp
next
  case (Cons q qs)
  then obtain j where k: "k = Suc j" by (cases k) auto
  have "\<forall>n. state (ash s) = Resetting n \<longrightarrow> unat n + Suc (length qs) < 5" using Cons.prems(5) by simp
  then obtain a where a: "begin_reset (ash s) = (Send Rst, a)" "\<not> is_connected a"
    "\<forall>n. state a = Resetting n \<longrightarrow> unat n + Suc (length qs) \<le> 5"
    by (rule begin_reset_room) (use Cons.prems(6) in simp)
  obtain d where d: "feed (concat q) decoder_new = ([], d)" using Cons.prems(1) by (metis prod.collapse quiet.simps(2))
  let ?s3 = "s\<lparr>decoder := decoder_new, ash := a, transport := (transport s)\<lparr>written := written (transport s) @ wire_of Rst\<rparr>\<rparr>"
  let ?s4 = "after_quiet 1 (concat qs @ later) a d s"
  have w: "write_frame fake_ops Rst (s\<lparr>decoder := decoder_reset (decoder s), ash := a\<rparr>) = (Inr (), ?s3)"
    by (simp add: fake_write_frame decoder_reset_new)
  have "pump_until (length q) fake_ops connected_stop ?s3 =
      (Inr (), (), ?s3\<lparr>transport := (transport ?s3)\<lparr>to_read := concat qs @ later\<rparr>, decoder := d\<rparr>)"
    by (rule pump_no_frame) (use Cons.prems(3,4) d a(2) in \<open>simp_all add: healthy_def\<close>)
  then have p: "pump_until (clock j) fake_ops connected_stop ?s3 = (Inr (), (), ?s4)"
    using Cons.prems(1) k by (simp add: after_quiet_def rsts_simps)
  have run: "reset_attempts k clock fake_ops s = reset_attempts j clock fake_ops ?s4"
    using reset_attempt_waits [where clock = clock and k = j, OF a(1) w p] a(2) k by (simp add: after_quiet_def del: reset_attempts.simps)
  have "\<exists>a' d'. reset_attempts j clock fake_ops ?s4 = reset_attempts (j - length qs) clock fake_ops (after_quiet (length qs) later a' d' ?s4) \<and>
      (\<forall>n. state a' = Resetting n \<longrightarrow> unat n < 5)"
    by (rule Cons.IH) (use Cons.prems k a(3) in \<open>auto simp: after_quiet_def healthy_def\<close>)
  moreover have "after_quiet (length qs) later a' d' ?s4 = after_quiet (length (q # qs)) later a' d' s" for a' d'
    by (simp add: after_quiet_def rsts_simps)
  ultimately show ?case using run k by simp
qed

lemma reset_answered_later:
  assumes "quiet clock 5 qs" "length qs \<le> 4" "healthy (transport s)" "to_read (transport s) = concat qs @ rs @ later"
    and "\<forall>n. state (ash s) \<noteq> Resetting n" "feed (concat rs) decoder_new = ([Frame (RstAck v code)], d)"
    and "length rs \<le> clock (4 - length qs)"
  shows "\<exists>cs d'. reset clock fake_ops s = (Inr (), (after_quiet (Suc (length qs)) (cs @ later) link_up d' s)
      \<lparr>correlator := correlator_new, initial_version_sent := False\<rparr>) \<and>
    feed (concat cs) d' = ([], d) \<and> length cs \<le> length rs"
proof -
  have five: "unat MAX_RESET_ATTEMPTS = 5" by (simp add: const_defs)
  obtain a d0 where q: "reset clock fake_ops s =
      reset_attempts (5 - length qs) clock fake_ops (after_quiet (length qs) (rs @ later) a d0 s)"
    "\<forall>n. state a = Resetting n \<longrightarrow> unat n < 5"
    using quiet_attempts [OF assms(1) _ assms(3,4)] assms(2,5) unfolding reset_def five by fastforce
  let ?s = "after_quiet (length qs) (rs @ later) a d0 s" and ?k = "4 - length qs"
  have "\<forall>n. state (ash ?s) = Resetting n \<longrightarrow> unat n + 0 < 5" using q(2) by (simp add: after_quiet_def)
  then obtain b where b: "begin_reset (ash ?s) = (Send Rst, b)" "\<not> is_connected b"
    by (rule begin_reset_room) simp_all
  let ?s3 = "?s\<lparr>decoder := decoder_new, ash := b, transport := (transport ?s)\<lparr>written := written (transport ?s) @ wire_of Rst\<rparr>\<rparr>"
  have w: "write_frame fake_ops Rst (?s\<lparr>decoder := decoder_reset (decoder ?s), ash := b\<rparr>) = (Inr (), ?s3)"
    by (simp add: fake_write_frame decoder_reset_new)
  obtain cs d' where p: "pump_until (clock ?k) fake_ops connected_stop ?s3 =
      (Inr (), (), ?s3\<lparr>transport := (transport ?s3)\<lparr>to_read := cs @ later\<rparr>, decoder := d', ash := link_up\<rparr>)"
    "feed (concat cs) d' = ([], d)" "length cs \<le> length rs"
    using pump_rstack [of rs ?s3 v code d later "clock ?k"] assms(3,6,7) b(2) by (auto simp: after_quiet_def healthy_def)
  have "reset_attempts (Suc ?k) clock fake_ops ?s =
      (Inr (), (after_quiet (Suc (length qs)) (cs @ later) link_up d' s)\<lparr>correlator := correlator_new, initial_version_sent := False\<rparr>)"
    using reset_attempt_waits [where clock = clock and k = ?k, OF b(1) w p(1)]
    by (simp add: after_quiet_def rsts_simps(3) link_up_def is_connected_def del: reset_attempts.simps)
  moreover have "Suc ?k = 5 - length qs" using assms(2) by simp
  ultimately show ?thesis using q(1) p(2,3) by auto
qed

section \<open>The negotiation\<close>

text \<open>What follows the RSTACK: the reads of the first exchange, and those of the second if there is one.\<close>

definition negotiation :: "bytes list \<Rightarrow> bytes list \<Rightarrow> version_response \<Rightarrow> version_response \<Rightarrow>
    ash_frame list \<Rightarrow> ash_frame list \<Rightarrow> bool" where
  "negotiation chunks1 chunks2 v1 v2 fs gs \<longleftrightarrow>
     is_supported (protocol_version v1) \<and> stack_type v1 = STACK_TYPE_MESH \<and>
     relays chunks1 0 (version_pending 0) Legacy fs (version_payload Legacy 0 v1) \<and>
     (if protocol_version v1 = PREFERRED then v2 = v1 \<and> chunks2 = [] \<and> gs = []
      else protocol_version v2 = protocol_version v1 \<and>
        relays chunks2 (next_expected 0 fs) (version_pending 1) Extended gs (version_payload Extended 1 v2))"

lemma relays_split:
  assumes "relays chunks rx q fmt fs p"
  shows "all_carried fs = butlast (all_carried fs) @ [p]" "\<forall>u\<in>set (butlast (all_carried fs)). \<not> is_answer q fmt u"
  using assms append_butlast_last_id [of "all_carried fs"] by (simp_all add: relays_def del: concat_eq_Nil_conv)

text \<open>
  \<open>settled k m s later\<close>: nothing is outstanding, at most \<open>k\<close> frames are in flight, at most \<open>m\<close> reads
  are left that bring acknowledgements only, and the reads after them are \<open>later\<close>.
\<close>

definition settled :: "nat \<Rightarrow> nat \<Rightarrow> fake_transport ncp \<Rightarrow> bytes list \<Rightarrow> bool" where
  "settled k m s later \<longleftrightarrow> response s = None \<and> pending (correlator s) = None \<and>
     (\<exists>cs hs. ahead k s cs hs decoder_new later \<and> all_carried hs = [] \<and> length cs \<le> m)"

lemma settled_less: "settled k m s later \<Longrightarrow> k \<le> j \<Longrightarrow> m \<le> n \<Longrightarrow> settled j n s later"
  unfolding settled_def ahead_def using order_trans by blast

lemma settled_relays:
  assumes "settled k m s (chunks @ later)" "relays chunks (next_rx_frame (ash s)) q fmt fs p"
  obtains cs gs where "ahead k s cs gs decoder_new later" "all_carried gs = butlast (all_carried fs) @ [p]"
    "\<forall>u\<in>set (butlast (all_carried fs)). \<not> is_answer q fmt u" "length cs \<le> m + length chunks"
    "next_expected (next_rx_frame (ash s)) gs = next_expected (next_rx_frame (ash s)) fs"
proof -
  obtain cs hs where c: "ahead k s cs hs decoder_new (chunks @ later)" "all_carried hs = []" "length cs \<le> m"
    using assms(1) by (auto simp: settled_def)
  show ?thesis
    by (rule that [of "cs @ chunks" "hs @ fs"])
      (use ahead_relays [OF c(1,2) assms(2)] c(2,3) relays_split [OF assms(2)] in
        \<open>simp_all add: next_expected_def del: concat_eq_Nil_conv\<close>)
qed

text \<open>One exchange of versions, from a settled state to a settled state.\<close>

lemma version_exchange_settled:
  assumes "settled k m s (chunks @ later)" "k < 7"
    and "fmt = (if initial_version_sent s then Extended else Legacy)" "sq = next_seq (correlator s)"
    and "relays chunks (next_rx_frame (ash s)) (version_pending sq) fmt fs (version_payload fmt sq v)"
    and "m + length chunks \<le> n"
  shows "\<exists>s'. run_command n fake_ops (version_command (Version w)) s = (Inr v, s') \<and>
    heard s' = heard s @ all_carried fs \<and> version s' = version s \<and> initial_version_sent s' \<and>
    next_seq (correlator s') = sq + 1 \<and> next_rx_frame (ash s') = next_expected (next_rx_frame (ash s)) fs \<and>
    next_tx_frame (ash s') = next_sequence (next_tx_frame (ash s)) \<and> settled (Suc k) (m + length chunks) s' later"
proof -
  obtain cs gs where c: "ahead k s cs gs decoder_new later" "all_carried gs = butlast (all_carried fs) @ [version_payload fmt sq v]"
    "\<forall>u\<in>set (butlast (all_carried fs)). \<not> is_answer (version_pending sq) fmt u" "length cs \<le> m + length chunks"
    "next_expected (next_rx_frame (ash s)) gs = next_expected (next_rx_frame (ash s)) fs"
    by (rule settled_relays [OF assms(1,5)])
  have i: "response s = None" "pending (correlator s) = None" using assms(1) by (simp_all add: settled_def)
  have n: "length cs \<le> n" using c(4) assms(6) by simp
  from version_exchange [OF c(1) assms(2) i c(2) assms(3,4) c(3) n, of w] obtain s' cs' gs' where
    "run_command n fake_ops (version_command (Version w)) s = (Inr v, s')"
    "heard s' = heard s @ butlast (all_carried fs) @ [version_payload fmt sq v]" "version s' = version s"
    "response s' = None" "pending (correlator s') = None" "initial_version_sent s'" "next_seq (correlator s') = sq + 1"
    "ahead (Suc k) s' cs' gs' decoder_new later" "length cs' \<le> length cs" "all_carried gs' = []"
    "next_rx_frame (ash s') = next_expected (next_rx_frame (ash s)) gs"
    "next_tx_frame (ash s') = next_sequence (next_tx_frame (ash s))"
    by (elim exE conjE)
  moreover from this have "settled (Suc k) (m + length chunks) s' later"
    using c(4) unfolding settled_def by (metis order_trans)
  ultimately show ?thesis using relays_split(1) [OF assms(5)] c(5) by metis
qed

lemma negotiate_answered:
  assumes "negotiation chunks1 chunks2 v1 v2 fs gs" "settled 0 m s (chunks1 @ chunks2 @ later)"
    and "next_rx_frame (ash s) = 0" "next_tx_frame (ash s) = 0" "correlator s = correlator_new" "\<not> initial_version_sent s"
    and "m + length chunks1 \<le> n1" "m + length chunks1 + length chunks2 \<le> n2"
  shows "\<exists>s'. negotiate n1 n2 fake_ops s = (Inr v2, s') \<and> heard s' = heard s @ all_carried fs @ all_carried gs \<and>
    initial_version_sent s' \<and> next_seq (correlator s') = (if protocol_version v1 = PREFERRED then 1 else 2) \<and>
    next_rx_frame (ash s') = next_expected 0 (fs @ gs) \<and>
    next_tx_frame (ash s') = (if protocol_version v1 = PREFERRED then 1 else 2) \<and>
    settled 2 (m + length chunks1 + length chunks2) s' later"
proof -
  note neg = assms(1) [unfolded negotiation_def]
  have r1: "relays chunks1 (next_rx_frame (ash s)) (version_pending 0) Legacy fs (version_payload Legacy 0 v1)"
    using neg assms(3) by (simp del: version_payload.simps)
  have c: "Legacy = (if initial_version_sent s then Extended else Legacy)" "0 = next_seq (correlator s)" "(0::nat) < 7" "Suc 0 < 7"
    using assms(5,6) by (simp_all add: correlator_new_def)
  from version_exchange_settled [OF assms(2) c(3,1,2) r1 assms(7), of PREFERRED]
  obtain s1 where e1: "run_command n1 fake_ops (version_command (Version PREFERRED)) s = (Inr v1, s1)"
    "heard s1 = heard s @ all_carried fs" "initial_version_sent s1" "next_seq (correlator s1) = 1"
    "next_rx_frame (ash s1) = next_expected 0 fs" "next_tx_frame (ash s1) = 1" "settled (Suc 0) (m + length chunks1) s1 (chunks2 @ later)"
    using assms(3,4) by (auto simp: next_sequence_def SEQUENCE_MODULUS_def)
  show ?thesis
  proof (cases "protocol_version v1 = PREFERRED")
    case True
    with neg have "v2 = v1" "chunks2 = []" "gs = []" by simp_all
    with True neg e1 settled_less [OF e1(7), of 2 "m + length chunks1"] show ?thesis
      by (simp add: negotiate_def andthen_def)
  next
    case False
    with neg e1(5)
    have r2: "relays chunks2 (next_rx_frame (ash s1)) (version_pending 1) Extended gs (version_payload Extended 1 v2)"
      and pv: "protocol_version v2 = protocol_version v1" by (simp_all del: version_payload.simps)
    have c2: "Extended = (if initial_version_sent s1 then Extended else Legacy)" "1 = next_seq (correlator s1)"
      using e1(3,4) by simp_all
    from version_exchange_settled [OF e1(7) c(4) c2 r2 assms(8), of "protocol_version v1"]
    obtain s2 where e2: "run_command n2 fake_ops (version_command (Version (protocol_version v1))) s1 = (Inr v2, s2)"
      "heard s2 = heard s1 @ all_carried gs" "initial_version_sent s2" "next_seq (correlator s2) = 1 + 1"
      "next_rx_frame (ash s2) = next_expected (next_expected 0 fs) gs" "next_tx_frame (ash s2) = 2"
      "settled (Suc (Suc 0)) (m + length chunks1 + length chunks2) s2 later"
      using e1(5,6) by (auto simp: next_sequence_def SEQUENCE_MODULUS_def)
    have "next_expected (next_expected 0 fs) gs = next_expected 0 (fs @ gs)" by (simp add: next_expected_def)
    with False neg e1(1,2) e2 pv settled_less [OF e2(7), of 2 "m + length chunks1 + length chunks2"] show ?thesis
      by (simp add: negotiate_def andthen_def Let_def)
  qed
qed

section \<open>Connecting\<close>

text \<open>The link after a reset that was answered: up, with nothing exchanged on it yet.\<close>

lemma reset_settled:
  assumes "healthy t" "to_read t = concat qs @ rs @ later"
    and "quiet clock 5 qs" "length qs \<le> 4" "feed (concat rs) decoder_new = ([Frame (RstAck a b)], decoder_new)"
    and "length rs \<le> clock (4 - length qs)"
  shows "\<exists>s. reset clock fake_ops (ncp_start t) = (Inr (), s) \<and> settled 0 (length rs) s later \<and>
    next_rx_frame (ash s) = 0 \<and> next_tx_frame (ash s) = 0 \<and> correlator s = correlator_new \<and> \<not> initial_version_sent s \<and> heard s = [] \<and>
    version s = PREFERRED"
proof -
  have "\<exists>cs d'. reset clock fake_ops (ncp_start t) =
      (Inr (), (after_quiet (Suc (length qs)) (cs @ later) link_up d' (ncp_start t))
        \<lparr>correlator := correlator_new, initial_version_sent := False\<rparr>) \<and>
      feed (concat cs) d' = ([], decoder_new) \<and> length cs \<le> length rs"
    by (rule reset_answered_later) (use assms in \<open>simp_all add: ncp_start_def connection_new_def\<close>)
  then obtain cs d' where r: "reset clock fake_ops (ncp_start t) =
      (Inr (), (after_quiet (Suc (length qs)) (cs @ later) link_up d' (ncp_start t))
        \<lparr>correlator := correlator_new, initial_version_sent := False\<rparr>)"
      "feed (concat cs) d' = ([], decoder_new)" "length cs \<le> length rs"
    by blast
  let ?s = "(after_quiet (Suc (length qs)) (cs @ later) link_up d' (ncp_start t))
      \<lparr>correlator := correlator_new, initial_version_sent := False\<rparr>"
  have "ahead 0 ?s cs [] decoder_new later"
    using r(2) assms(1) by (simp add: ahead_def after_quiet_def link_up_def connection_new_def is_connected_def healthy_def ncp_start_def)
  moreover have "response ?s = None" "pending (correlator ?s) = None" "all_carried [] = []"
    by (simp_all add: correlator_new_def after_quiet_def ncp_start_def)
  ultimately have "settled 0 (length rs) ?s later"
    using r(3) unfolding settled_def by blast
  moreover have "next_rx_frame (ash ?s) = 0" "next_tx_frame (ash ?s) = 0" "correlator ?s = correlator_new" "\<not> initial_version_sent ?s" "heard ?s = []"
    "version ?s = PREFERRED"
    by (simp_all add: after_quiet_def link_up_def connection_new_def ncp_start_def)
  ultimately show ?thesis using r(1) by blast
qed

lemma connect_answered:
  assumes "healthy t" "to_read t = concat qs @ rs @ chunks1 @ chunks2 @ later"
    and "quiet clock 5 qs" "length qs \<le> 4" "feed (concat rs) decoder_new = ([Frame (RstAck a b)], decoder_new)"
    and "length rs \<le> clock (4 - length qs)" "negotiation chunks1 chunks2 v1 v2 fs gs"
    and "length rs + length chunks1 \<le> n1" "length rs + length chunks1 + length chunks2 \<le> n2"
  shows "\<exists>s. connect clock n1 n2 fake_ops t = Inr s \<and> version s = protocol_version v1 \<and>
    ncp_stack_version s = stack_version v2 \<and> heard s = all_carried fs @ all_carried gs \<and> initial_version_sent s \<and>
    next_seq (correlator s) = (if protocol_version v1 = PREFERRED then 1 else 2) \<and>
    next_rx_frame (ash s) = next_expected 0 (fs @ gs) \<and>
    next_tx_frame (ash s) = (if protocol_version v1 = PREFERRED then 1 else 2) \<and>
    settled 2 (length rs + length chunks1 + length chunks2) s later"
proof -
  obtain s0 where r: "reset clock fake_ops (ncp_start t) = (Inr (), s0)" "settled 0 (length rs) s0 (chunks1 @ chunks2 @ later)"
    "next_rx_frame (ash s0) = 0" "next_tx_frame (ash s0) = 0" "correlator s0 = correlator_new" "\<not> initial_version_sent s0" "heard s0 = []"
    using reset_settled [OF assms(1-6)] by blast
  then obtain s' where n: "negotiate n1 n2 fake_ops s0 = (Inr v2, s')" "heard s' = all_carried fs @ all_carried gs"
    "initial_version_sent s'" "next_seq (correlator s') = (if protocol_version v1 = PREFERRED then 1 else 2)"
    "next_rx_frame (ash s') = next_expected 0 (fs @ gs)" "next_tx_frame (ash s') = (if protocol_version v1 = PREFERRED then 1 else 2)"
    "settled 2 (length rs + length chunks1 + length chunks2) s' later"
    using negotiate_answered [OF assms(7), of "length rs" s0 later n1 n2] assms(8,9) by fastforce
  have "protocol_version v2 = protocol_version v1" using assms(7) by (simp add: negotiation_def split: if_splits)
  with r(1) n show ?thesis by (simp add: connect_def andthen_def settled_def ahead_def)
qed

text \<open>
  C6. A connection comes up when the NCP answers: if up to four attempts of the reset go unanswered,
  the reads of the next one bring the RSTACK, divided in any way, and the reads after it bring
  the answer to the bootstrap \<open>version\<close> with a supported version on a mesh stack, then \<open>connect\<close>
  succeeds with that version; when it is not the version offered, the answer to a second
  \<open>version\<close> that confirms it is needed too, and the firmware version is taken from the second
  answer. Callbacks before either answer do not matter, nor does the division into reads.
\<close>

theorem connect_succeeds_when_answered:
  assumes "healthy t" "to_read t = concat qs @ rs @ chunks1 @ chunks2 @ later"
    and "quiet clock 5 qs" "length qs \<le> 4" "feed (concat rs) decoder_new = ([Frame (RstAck a b)], decoder_new)"
    and "length rs \<le> clock (4 - length qs)" "negotiation chunks1 chunks2 v1 v2 fs gs"
    and "length rs + length chunks1 \<le> n1" "length rs + length chunks1 + length chunks2 \<le> n2"
  shows "\<exists>s. connect clock n1 n2 fake_ops t = Inr s \<and> version s = protocol_version v1 \<and>
    ncp_stack_version s = stack_version v2 \<and> heard s = all_carried fs @ all_carried gs"
  using connect_answered [OF assms] by blast

lemma connect_succeeds_when_answered_witness:
  "\<exists>s. connect (\<lambda>k. if k = 4 then 1 else 2) 3 4 fake_ops
      (fake_with_chunks [[XON],
         [0x80, ESCAPE], CANCEL # wire_of (RstAck 2 1),
         wire_of (Data 0 1 False (version_payload Legacy 0 \<lparr>protocol_version = ProtocolVersion 13, stack_type = 2, stack_version = 0x7440\<rparr>)),
         wire_of (Ack 2 False) @ wire_of (Data 1 2 False (version_payload Extended 1 \<lparr>protocol_version = ProtocolVersion 13, stack_type = 2, stack_version = 0x7440\<rparr>))])
    = Inr s \<and> version s = ProtocolVersion 13 \<and> ncp_stack_version s = 0x7440"
proof -
  let ?v = "\<lparr>protocol_version = ProtocolVersion 13, stack_type = 2, stack_version = 0x7440\<rparr>"
  let ?f = "Data 0 1 False (version_payload Legacy 0 ?v)"
  let ?gs = "[Ack 2 False, Data 1 2 False (version_payload Extended 1 ?v)]"
  let ?rs = "[[0x80, ESCAPE], CANCEL # wire_of (RstAck 2 1)]"
  let ?t = "fake_with_chunks (concat [[[XON]]] @ ?rs @ [wire_of ?f] @ [concat (map wire_of ?gs)] @ [])"
  have flow: "strip_flow (concat [concat (map wire_of fs)]) = concat (map wire_of fs)" if "\<forall>f\<in>set fs. wf_frame f" for fs
    using that wires_no_flow by simp
  have wf: "\<forall>f\<in>set [?f]. wf_frame f" "\<forall>f\<in>set ?gs. wf_frame f" by (simp_all add: const_defs le_bytes_2)
  have n: "negotiation [wire_of ?f] [concat (map wire_of ?gs)] ?v ?v [?f] ?gs"
    unfolding negotiation_def relays_def using flow [OF wf(1)] flow [OF wf(2)] wf
    by (simp add: const_defs is_supported_def next_expected_def next_sequence_def)
  have r: "feed (concat ?rs) decoder_new = ([Frame (RstAck 2 1)], decoder_new)"
    using feed_cancelled [of "[0x80, ESCAPE]" "RstAck 2 1"] by (simp add: const_defs)
  have q: "quiet (\<lambda>k. if k = 4 then 1 else 2) 5 [[[XON]]]" by (simp add: push_def const_defs)
  have "healthy ?t" "to_read ?t = concat [[[XON]]] @ ?rs @ [wire_of ?f] @ [concat (map wire_of ?gs)] @ []"
    by (simp_all add: fake_with_chunks_def healthy_def)
  from connect_succeeds_when_answered [OF this q _ r _ n, of 3 4] show ?thesis by auto
qed

end
