(* ===== verification/NcpCallbacks.thy ===== *)
theory NcpCallbacks
  imports NcpWire
begin

text \<open>
  What becomes of callbacks (\<open>ncp.rs\<close>): they are queued in the order of their arrival, during a
  command as during a poll, until the caller takes them.
\<close>

section \<open>The queue\<close>

text \<open>The callback that a payload is, read with a header format, if it is one that decodes.\<close>

definition callback_as :: "header_format \<Rightarrow> protocol_version \<Rightarrow> bytes \<Rightarrow> callback list" where
  "callback_as fmt v p =
     (case parse p fmt of
        Inl _ \<Rightarrow> []
      | Inr f \<Rightarrow>
          if is_callback (frame_control f)
          then (case callback_decode (frame_id f) (parameters f) v of Inr c \<Rightarrow> [c] | Inl _ \<Rightarrow> [])
          else [])"

abbreviation callback_in :: "protocol_version \<Rightarrow> bytes \<Rightarrow> callback list" where
  "callback_in \<equiv> callback_as Extended"

abbreviation callbacks_in :: "protocol_version \<Rightarrow> bytes list \<Rightarrow> callback list" where
  "callbacks_in v ps \<equiv> concat (map (callback_in v) ps)"

text \<open>
  The callbacks among payloads that arrive while a command may be outstanding: they are read with
  the header format of the command (\<open>pending_format\<close>) up to and including its answer, and with
  the extended one afterwards.
\<close>

definition answers_pending :: "pending option \<Rightarrow> header_format \<Rightarrow> bytes \<Rightarrow> bool" where
  "answers_pending q fmt p \<longleftrightarrow> (case q of Some a \<Rightarrow> is_answer a fmt p | None \<Rightarrow> False)"

primrec queued :: "header_format \<Rightarrow> pending option \<Rightarrow> protocol_version \<Rightarrow> bytes list \<Rightarrow> callback list" where
  "queued fmt q v [] = []"
| "queued fmt q v (p # ps) =
     callback_as fmt v p @ (if answers_pending q fmt p then callbacks_in v ps else queued fmt q v ps)"

lemma queued_Extended [simp]: "queued Extended q v ps = callbacks_in v ps"
  by (induction ps) simp_all

definition format_now :: "'t ncp \<Rightarrow> header_format" where
  "format_now s = (case pending_format s of Some f \<Rightarrow> f | None \<Rightarrow> Extended)"

lemma format_now_Extended: "format_now s = Extended \<longleftrightarrow> pending_format s \<noteq> Some Legacy"
  by (cases "pending_format s"; cases "the (pending_format s)") (auto simp: format_now_def)

lemma dispatch_queues:
  "callbacks (dispatch p s) = callbacks s @ callback_as (format_now s) (version s) p"
  "if answers_pending (pending (correlator s)) (format_now s) p
   then pending (correlator (dispatch p s)) = None \<and> pending_format (dispatch p s) = None
   else pending (correlator (dispatch p s)) = pending (correlator s) \<and>
     pending_format (dispatch p s) = pending_format s"
  by (auto simp: dispatch_def callback_as_def format_now_def answers_pending_def is_answer_def
      answer_frame_def classify_def count_stale_def Let_def
      split: sum.split prod.split classified.split option.split)

lemma fold_dispatch_queues:
  "callbacks (fold dispatch ps s) =
     callbacks s @ queued (format_now s) (pending (correlator s)) (version s) ps"
proof (induction ps arbitrary: s)
  case (Cons p ps)
  note d = dispatch_queues [where p = p and s = s]
  show ?case
  proof (cases "answers_pending (pending (correlator s)) (format_now s) p")
    case True
    with d(2) have "format_now (dispatch p s) = Extended" by (simp add: format_now_def)
    with True show ?thesis by (simp add: Cons.IH d(1) dispatch_same)
  next
    case False
    with d(2) have "format_now (dispatch p s) = format_now s"
      "pending (correlator (dispatch p s)) = pending (correlator s)" by (simp_all add: format_now_def)
    with False show ?thesis by (simp add: Cons.IH d(1) dispatch_same)
  qed
qed simp

lemma dispatched_queued:
  assumes "dispatched ps s s'"
  shows "heard s' = heard s @ ps \<and>
    callbacks s' = callbacks s @ queued (format_now s) (pending (correlator s)) (version s) ps"
  using assms fold_dispatch_queues [of ps s] dispatched_same(2) [OF assms] by (auto simp: dispatched_def)

lemma dispatched_queues:
  assumes "dispatched ps s s'" "pending_format s \<noteq> Some Legacy"
  shows "heard s' = heard s @ ps \<and> callbacks s' = callbacks s @ callbacks_in (version s) ps"
  using dispatched_queued [OF assms(1)] assms(2) [folded format_now_Extended] by simp

lemma report_callbacks:
  "report_no_answer c w s = (r, s') \<Longrightarrow> callbacks s' = callbacks s \<and> heard s' = heard s"
  by (auto simp: report_no_answer_def Let_def split: prod.splits sum.splits if_splits)

lemma await_queues:
  assumes "await_answer n ops c s = (r, s')"
  shows "\<exists>ps. heard s' = heard s @ ps \<and>
    callbacks s' = callbacks s @ queued (format_now s) (pending (correlator s)) (version s) ps"
proof -
  obtain w a s2 where p: "pump_until n ops answer_arrived s = (w, a, s2)" by (rule prod_cases3)
  from pump_answer [OF this] obtain ps s1 where d: "dispatched ps s s1"
    and a: "case a of Some x \<Rightarrow> w = Inr () \<and> response s1 = Some x \<and> s2 = s1\<lparr>response := None\<rparr> | None \<Rightarrow> s2 = s1"
    by blast
  then have "callbacks s2 = callbacks s1 \<and> heard s2 = heard s1" by (cases a) auto
  moreover have "callbacks s' = callbacks s2 \<and> heard s' = heard s2"
    using assms(1) p decode_answer_state [of c _ s2] report_callbacks
    by (cases a) (auto simp: await_answer_def dest: report_callbacks arg_cong [of _ _ snd])
  ultimately show ?thesis using dispatched_queued [OF d] by auto
qed

lemma command_queued:
  assumes "run_command n ops c s = (r, s')"
  shows "\<exists>ps. heard s' = heard s @ ps \<and>
    callbacks s' = callbacks s @ queued (choose_format c s) (Some (registered c s)) (version s) ps"
proof -
  obtain q s0 where s0: "send_command ops c s = (q, s0)" by (metis surj_pair)
  then have same: "heard s0 = heard s \<and> callbacks s0 = callbacks s \<and> version s0 = version s"
    by (auto simp: send_command_def Let_def begin_command_def split: sum.splits prod.splits if_splits option.splits
        dest!: write_frame_link)
  show ?thesis
  proof (cases q)
    case (Inl e)
    with assms(1) s0 same show ?thesis by (intro exI [of _ "[]"]) (simp add: run_command_not_sent)
  next
    case (Inr u)
    with s0 have "format_now s0 = choose_format c s \<and> pending (correlator s0) = Some (registered c s)"
      by (auto elim: send_command_ok simp: format_now_def)
    with assms(1) s0 Inr same show ?thesis
      using await_queues [of n ops c s0 r s'] by (simp add: run_command_sent)
  qed
qed

lemma command_queues:
  assumes "run_command n ops c s = (r, s')" "choose_format c s = Extended"
  shows "\<exists>ps. heard s' = heard s @ ps \<and> callbacks s' = callbacks s @ callbacks_in (version s) ps"
  using command_queued [OF assms(1)] assms(2) by simp

lemma poll_queued:
  assumes "poll m ops s = (r, s')"
  shows "\<exists>ps. heard s' = heard s @ ps \<and>
    (let cs = callbacks s @ queued (format_now s) (pending (correlator s)) (version s) ps
     in case r of Inr taken \<Rightarrow> taken = cs \<and> callbacks s' = [] | Inl _ \<Rightarrow> callbacks s' = cs)"
proof -
  obtain w x s2 where p: "pump_until m ops (\<lambda>s. (callbacks s \<noteq> [], (), s)) s = (w, x, s2)" by (rule prod_cases3)
  obtain ps where "dispatched ps s s2" using pump_dispatched [OF _ p] by auto
  with dispatched_queued [OF this] assms p show ?thesis
    by (auto simp: poll_def take_callbacks_def split: sum.splits)
qed

text \<open>
  C16. Callbacks are queued, not dropped. Whatever a command comes to, answered or not, the
  callbacks among the payloads received during it are appended to the queue, each once, in the
  order of their arrival and with those before them kept; and \<open>poll\<close> returns the whole queue, what
  was in it before and what arrived during the call, and leaves it empty, or, if it fails, keeps
  it. Payloads are read with the header format of the outstanding command until its answer and
  with the extended one afterwards: that of every command but the first \<open>version\<close> is the extended
  one too, so the callbacks left out are those that do not decode; while the first \<open>version\<close>
  command is outstanding, and after it has timed out, callbacks are read with the legacy header,
  and one that has the extended header is taken for another (\<open>misread_callback\<close> below).
\<close>

theorem callbacks_are_queued:
  assumes "run_command n ops c s = (r, s')" and "poll m ops' s1 = (r1, s1')"
  shows "(\<exists>ps. heard s' = heard s @ ps \<and>
      callbacks s' = callbacks s @ queued (choose_format c s) (Some (registered c s)) (version s) ps) \<and>
    (\<exists>ps. heard s1' = heard s1 @ ps \<and>
      (let cs = callbacks s1 @ queued (format_now s1) (pending (correlator s1)) (version s1) ps
       in case r1 of Inr taken \<Rightarrow> taken = cs \<and> callbacks s1' = [] | Inl _ \<Rightarrow> callbacks s1' = cs))"
  using command_queued [OF assms(1)] poll_queued [OF assms(2)] by blast

section \<open>A poll on the scripted transport\<close>

text \<open>A callback frame, with the extended header.\<close>

definition callback_payload :: "callback \<Rightarrow> bytes" where
  "callback_payload c = [0, 0x90, 1] @ le_bytes 2 (id_raw (callback_frame_id c)) @ callback_wire PREFERRED c"

lemma callback_payload_parses:
  assumes "length (callback_wire PREFERRED c) \<le> 123"
  shows "\<exists>f. parse (callback_payload c) Extended = Inr f \<and> is_callback (frame_control f) \<and>
    frame_id f = callback_frame_id c \<and> parameters f = callback_wire PREFERRED c"
proof -
  obtain a b where ab: "le_bytes 2 (id_raw (callback_frame_id c)) = [a, b]" by (simp add: numeral_2_eq_2)
  have "le_word [a, b] = id_raw (callback_frame_id c)"
    unfolding ab [symmetric] by (rule le_word_le_bytes) simp
  then show ?thesis using assms ab
    by (simp add: callback_payload_def parse_eq header_id_def from_low_byte_def const_defs del: le_word.simps)
qed

lemma poll_sample:
  assumes "length (callback_wire PREFERRED c) \<le> 123" "valid_callback PREFERRED c"
  shows "\<exists>s'. poll (Suc 0) fake_ops (sample_ncp [wire_of (Data 0 0 False (callback_payload c))]) = (Inr [c], s')"
proof -
  have "wf_frame (Data 0 0 False (callback_payload c))"
    using assms(1) by (simp add: callback_payload_def const_defs)
  moreover obtain f where f: "parse (callback_payload c) Extended = Inr f" "is_callback (frame_control f)"
    "frame_id f = callback_frame_id c" "parameters f = callback_wire PREFERRED c"
    using callback_payload_parses [OF assms(1)] by blast
  moreover have "callback_decode (callback_frame_id c) (callback_wire PREFERRED c) PREFERRED = Inr c"
    using callback_decode_wire [OF assms(2), of "[]"] assms(1) by simp
  ultimately show ?thesis
    by (simp add: poll_def take_callbacks_def sample_defs fake_read_chunk consume_wire andthen_def on_decoded_def
        on_frame_def write_outbound_def fake_write_frame retire_acknowledged_def dispatch_def classify_def
        next_sequence_def Let_def)
qed

text \<open>
  A stack status callback with an extended header, read with the legacy one: the high byte of the
  frame control is taken for the frame id, and the id for parameters.
\<close>

lemma misread_callback:
  "callback_as Extended PREFERRED (callback_payload (StackStatus (SlStatus 0x90))) = [StackStatus (SlStatus 0x90)]"
  "callback_as Legacy PREFERRED (callback_payload (StackStatus (SlStatus 0x90))) =
     [UnknownCallback (FrameId 1) [0x19, 0, 0x90, 0, 0, 0]]"
proof -
  let ?c = "StackStatus (SlStatus 0x90)"
  have b: "le_bytes 2 (0x19 :: u16) = [0x19, 0]" "le_bytes 4 (0x90 :: u32) = [0x90, 0, 0, 0]"
    by code_simp+
  have p: "callback_payload ?c = [0, 0x90, 1, 0x19, 0, 0x90, 0, 0, 0]"
    by (simp add: callback_payload_def has_wide_status_def const_defs b)
  have d: "callback_decode ID_STACK_STATUS_HANDLER [0x90, 0, 0, 0] PREFERRED = Inr ?c"
    using callback_decode_wire [of PREFERRED ?c "[]"] by (simp add: has_wide_status_def const_defs b)
  show "callback_as Extended PREFERRED (callback_payload ?c) = [?c]"
    using d by (simp add: p callback_as_def parse_eq header_id_def from_low_byte_def const_defs)
  show "callback_as Legacy PREFERRED (callback_payload ?c) = [UnknownCallback (FrameId 1) [0x19, 0, 0x90, 0, 0, 0]]"
    by (simp add: p callback_as_def parse_eq header_id_def from_low_byte_def callback_decode_def const_defs)
qed

lemma callbacks_are_queued_witness:
  "\<exists>r s' s1'. run_command (Suc 0) fake_ops (get_eui64_command GetEui64)
      (sample_ncp [wire_of (Data 0 0 False (callback_payload (UnknownCallback (FrameId 0x99) [1])))]) = (r, s') \<and>
    (\<exists>ps. heard s' = ps \<and> callbacks s' = callbacks_in PREFERRED ps) \<and>
    poll (Suc 0) fake_ops (sample_ncp [wire_of (Data 0 0 False (callback_payload (UnknownCallback (FrameId 0x99) [1])))]) =
      (Inr [UnknownCallback (FrameId 0x99) [1]], s1') \<and> callbacks s1' = []"
proof -
  let ?c = "UnknownCallback (FrameId 0x99) [1]"
  let ?s = "sample_ncp [wire_of (Data 0 0 False (callback_payload ?c))]"
  have "length (callback_wire PREFERRED ?c) \<le> 123" "valid_callback PREFERRED ?c" by (simp_all add: const_defs)
  then obtain s1' where p: "poll (Suc 0) fake_ops ?s = (Inr [?c], s1')" using poll_sample by blast
  obtain r s' where r: "run_command (Suc 0) fake_ops (get_eui64_command GetEui64) ?s = (r, s')" by (metis surj_pair)
  have f: "choose_format (get_eui64_command GetEui64) ?s = Extended"
    by (simp add: choose_format_def get_eui64_command_def const_defs)
  have s: "heard ?s = []" "callbacks ?s = []" "version ?s = PREFERRED"
    by (simp_all add: sample_defs)
  from callbacks_are_queued [OF r p] r p s f show ?thesis by (auto simp: Let_def)
qed

end
