(* ===== verification/NcpTimeout.thy ===== *)
theory NcpTimeout
  imports NcpConnect NcpCallbacks
begin

text \<open>
  Sequences of commands (\<open>ncp.rs\<close>) on a connection that \<open>connect\<close> has brought up, over the scripted
  transport: commands that are answered and commands that are not leave the connection settled, so
  that the next one finds what it needs.
\<close>

section \<open>A command that is answered\<close>

lemma parses_whole:
  assumes "parses m v bs x" "length bs < 2 ^ 63"
  shows "\<exists>r. m (reader_new bs v) = (Inr x, r) \<and> reader_is_empty r"
proof -
  have "m (reader_new bs v) = (Inr x, advance (length bs) (reader_new bs v))"
    using assms wf_reader_new [of bs v] unfolding parses_def by (simp add: reader_new_def peek_rest_def)
  then show ?thesis using reader_used_up by blast
qed

lemma command_sent:
  assumes "settled k m s later" "k < 7" "available c (version s)" "choose_format c s = fmt"
    and "request_bytes c (next_seq (correlator s)) fmt (writer_new (version s)) = (Inr (), w)"
    and "length (writer_bytes w) \<le> 128"
  shows "\<exists>s0. send_command fake_ops c s = (Inr (), s0)"
  using assms
  by (auto simp: settled_def ahead_def send_command_def begin_command_def Let_def send_data_def fake_write_frame const_defs)

lemma command_settled:
  assumes "send_command fake_ops c s = (Inr (), s0)" "settled k m s (chunks @ later)"
    and "relays chunks (next_rx_frame (ash s)) (registered c s) (choose_format c s) fs p"
    and "answer_frame (registered c s) (choose_format c s) p f"
    and "answer c (reader_new (parameters f) (version s)) = (Inr x, r)" "reader_is_empty r" "m + length chunks \<le> n"
  shows "\<exists>s'. run_command n fake_ops c s = (Inr x, s') \<and> heard s' = heard s @ all_carried fs \<and>
    version s' = version s \<and> next_seq (correlator s') = next_seq (correlator s) + 1 \<and>
    next_rx_frame (ash s') = next_expected (next_rx_frame (ash s)) fs \<and> settled (Suc k) (m + length chunks) s' later"
proof -
  obtain cs gs where c: "ahead k s cs gs decoder_new later" "all_carried gs = butlast (all_carried fs) @ [p]"
    "\<forall>u\<in>set (butlast (all_carried fs)). \<not> is_answer (registered c s) (choose_format c s) u" "length cs \<le> m + length chunks"
    "next_expected (next_rx_frame (ash s)) gs = next_expected (next_rx_frame (ash s)) fs"
    by (rule settled_relays [OF assms(2,3)])
  have i: "response s = None" using assms(2) by (simp add: settled_def)
  have n: "length cs \<le> n" using c(4) assms(7) by simp
  from command_answered_ahead [OF assms(1) i c(1,2,3) assms(4-6) n] obtain s' cs' gs' where
    "run_command n fake_ops c s = (Inr x, s')" "heard s' = heard s @ butlast (all_carried fs) @ [p]" "version s' = version s"
    "response s' = None" "pending (correlator s') = None" "next_seq (correlator s') = next_seq (correlator s) + 1"
    "ahead (Suc k) s' cs' gs' decoder_new later" "length cs' \<le> length cs" "all_carried gs' = []"
    "next_rx_frame (ash s') = next_expected (next_rx_frame (ash s)) gs"
    by blast
  moreover from this have "settled (Suc k) (m + length chunks) s' later"
    using c(4) unfolding settled_def by (metis order_trans)
  ultimately show ?thesis using relays_split(1) [OF assms(3)] c(5) by metis
qed

section \<open>A command that is not answered\<close>

lemma pump_unanswered:
  assumes "awaiting q fmt s" "ahead k s chunks fs d []" "\<forall>u\<in>set (all_carried fs). \<not> is_answer q fmt u"
  shows "\<exists>s1 ps gs. pump_until n fake_ops answer_arrived s = (Inr (), None, s1) \<and> dispatched ps s s1 \<and>
    awaiting q fmt s1 \<and> ahead k s1 (drop n chunks) gs d [] \<and> all_carried fs = ps @ all_carried gs \<and>
    next_expected (next_rx_frame (ash s1)) gs = next_expected (next_rx_frame (ash s)) fs"
  using assms
proof (induction n arbitrary: s chunks fs)
  case 0
  have "take_response s = (None, s)" using 0(1) by (simp add: take_response_def awaiting_def)
  then have "pump_until 0 fake_ops answer_arrived s = (Inr (), None, s)" by (simp add: answer_arrived_def)
  moreover have "all_carried fs = [] @ all_carried fs" "drop 0 chunks = chunks" by simp_all
  ultimately show ?case using 0 dispatched_refl [of s] by metis
next
  case (Suc n)
  have st: "answer_arrived s = (False, None, s)"
    using Suc.prems(1,2) by (simp add: answer_not_yet awaiting_def ahead_def)
  show ?case
  proof (cases chunks)
    case Nil
    have "t_read fake_ops (transport s) = (ReadPending, transport s)"
      using Suc.prems(2) Nil by (simp add: ahead_def healthy_def fake_ops_def fake_read_def)
    moreover have "s\<lparr>transport := transport s\<rparr> = s" by simp
    ultimately have "pump_until (Suc n) fake_ops answer_arrived s = (Inr (), None, s)" using st by simp
    moreover have "all_carried fs = [] @ all_carried fs" "drop (Suc n) chunks = chunks" using Nil by simp_all
    ultimately show ?thesis using Suc.prems dispatched_refl [of s] by metis
  next
    case (Cons c cs)
    with Suc.prems(2) have "ahead k s (c # cs) fs d []" by simp
    then obtain gs hs t s2 where g: "fs = gs @ hs" "t_read fake_ops (transport s) = (ReadOk c, t)"
      "consume fake_ops c (s\<lparr>transport := t\<rparr>) = (Inr (), s2)" "dispatched (all_carried gs) s s2"
      "ahead k s2 cs hs d []" "next_rx_frame (ash s2) = next_expected (next_rx_frame (ash s)) gs"
      by (rule ahead_read)
    have "awaiting q fmt (fold dispatch (all_carried gs) s)"
      by (rule fold_dispatch_unanswered [OF Suc.prems(1)]) (use Suc.prems(3) g(1) in auto)
    then have aw: "awaiting q fmt s2" using g(4) by (auto simp: dispatched_def awaiting_def)
    have "\<forall>u\<in>set (all_carried hs). \<not> is_answer q fmt u" using Suc.prems(3) g(1) by simp
    from Suc.IH [OF aw g(5) this] obtain s1 ps es where r:
      "pump_until n fake_ops answer_arrived s2 = (Inr (), None, s1)" "dispatched ps s2 s1" "awaiting q fmt s1"
      "ahead k s1 (drop n cs) es d []" "all_carried hs = ps @ all_carried es"
      "next_expected (next_rx_frame (ash s1)) es = next_expected (next_rx_frame (ash s2)) hs" by blast
    have "pump_until (Suc n) fake_ops answer_arrived s = (Inr (), None, s1)" using st g(2,3) r(1) by simp
    moreover have "dispatched (all_carried gs @ ps) s s1" by (rule dispatched_trans [OF g(4) r(2)])
    moreover have "all_carried fs = (all_carried gs @ ps) @ all_carried es" using g(1) r(5) by simp
    moreover have "next_expected (next_rx_frame (ash s1)) es = next_expected (next_rx_frame (ash s)) fs"
      using r(6) g(1,6) by (simp add: next_expected_def)
    ultimately show ?thesis using r(3,4) Cons by (intro exI [of _ s1]) (auto intro!: exI [of _ "all_carried gs @ ps"] exI [of _ es])
  qed
qed

lemma report_timeout:
  assumes "awaiting q fmt s" "is_connected (ash s)"
  shows "report_no_answer c (Inr ()) s = (Inl (Timeout (pending_frame_id q)), s\<lparr>correlator := (correlator s)\<lparr>pending := None\<rparr>\<rparr>)"
  using assms by (simp add: report_no_answer_def awaiting_def time_out_def)

text \<open>
  \<open>passes_over chunks rx q fmt fs\<close>: the reads bring the encoded frames \<open>fs\<close>, in step from \<open>rx\<close>, and none
  carries an answer to \<open>q\<close>.
\<close>

definition passes_over :: "bytes list \<Rightarrow> u8 \<Rightarrow> pending \<Rightarrow> header_format \<Rightarrow> ash_frame list \<Rightarrow> bool" where
  "passes_over chunks rx q fmt fs \<longleftrightarrow>
     strip_flow (concat chunks) = concat (map wire_of fs) \<and> (\<forall>f \<in> set fs. wf_frame f) \<and> in_step rx fs \<and>
     (\<forall>u \<in> set (all_carried fs). \<not> is_answer q fmt u)"

lemma passes_over_feed: "passes_over chunks rx q fmt fs \<Longrightarrow> feed (concat chunks) decoder_new = (map Frame fs, decoder_new)"
  using feed_wires [of fs] feed_strip_flow [of "concat chunks" decoder_new] by (simp add: passes_over_def)

lemma passes_over_nothing [simp]: "passes_over [] rx q fmt []"
  using wires_no_flow [of "[]"] by (simp add: passes_over_def)

lemma unanswered_settled:
  assumes "send_command fake_ops c s = (Inr (), s0)" "settled k m s chunks"
    and "passes_over chunks (next_rx_frame (ash s)) (registered c s) (choose_format c s) fs"
  shows "\<exists>s' ps. run_command n fake_ops c s = (Inl (Timeout (command_id c)), s') \<and> heard s' = heard s @ ps \<and>
    prefix ps (all_carried fs) \<and> version s' = version s \<and> response s' = None \<and> pending (correlator s') = None \<and>
    next_seq (correlator s') = next_seq (correlator s) + 1 \<and> is_connected (ash s') \<and>
    (m + length chunks \<le> n \<longrightarrow> ps = all_carried fs \<and> settled (Suc k) 0 s' [])"
proof -
  obtain cs hs where a: "ahead k s cs hs decoder_new chunks" "all_carried hs = []" "length cs \<le> m" and i: "response s = None"
    using assms(2) by (auto simp: settled_def)
  have "ahead k s (cs @ chunks) (hs @ fs) decoder_new []"
    using a(1,2) assms(3) passes_over_feed [OF assms(3)] next_expected_none [OF a(2)]
    by (simp add: ahead_def in_step_append feed_append passes_over_def del: concat_eq_Nil_conv)
  from send_command_ahead [OF assms(1) this]
  have a0: "ahead (Suc k) s0 (cs @ chunks) (hs @ fs) decoder_new []" by simp
  have aw: "awaiting (registered c s) (choose_format c s) s0" by (rule send_command_awaiting [OF assms(1) i])
  have "\<forall>u\<in>set (all_carried (hs @ fs)). \<not> is_answer (registered c s) (choose_format c s) u"
    using a(2) assms(3) by (simp add: passes_over_def del: concat_eq_Nil_conv)
  from pump_unanswered [OF aw a0 this, of n] obtain s1 ps gs where p:
    "pump_until n fake_ops answer_arrived s0 = (Inr (), None, s1)" "dispatched ps s0 s1"
    "awaiting (registered c s) (choose_format c s) s1" "ahead (Suc k) s1 (drop n (cs @ chunks)) gs decoder_new []"
    "all_carried (hs @ fs) = ps @ all_carried gs" by blast
  let ?s = "s1\<lparr>correlator := (correlator s1)\<lparr>pending := None\<rparr>\<rparr>"
  have con: "is_connected (ash s1)" using p(4) by (simp add: ahead_def)
  have "await_answer n fake_ops c s0 = (Inl (Timeout (command_id c)), ?s)"
    using report_timeout [OF p(3) con] p(1) by (simp add: await_answer_def registered_def)
  then have run: "run_command n fake_ops c s = (Inl (Timeout (command_id c)), ?s)"
    by (simp add: run_command_sent [OF assms(1)])
  have si: "same_inbox s s0" and ns: "next_seq (correlator s0) = next_seq (correlator s) + 1"
    using assms(1) send_command_registers [OF _ _ assms(1)] by (auto elim: send_command_ok)
  have all: "all_carried fs = ps @ all_carried gs" using p(5) a(2) by (simp del: concat_eq_Nil_conv)
  have "ps = all_carried fs \<and> settled (Suc k) 0 ?s []" if "m + length chunks \<le> n"
  proof -
    have d: "drop n (cs @ chunks) = []" using that a(3) by simp
    with p(4) have "gs = []" by (simp add: ahead_def)
    moreover have "ahead (Suc k) ?s [] [] decoder_new []" using p(4) d \<open>gs = []\<close> by (simp add: ahead_def)
    ultimately show ?thesis using all p(3) by (fastforce simp: settled_def awaiting_def)
  qed
  with run all si ns con p(3) dispatched_same [OF p(2)] show ?thesis
    by (intro exI [of _ ?s] exI [of _ ps]) (simp add: same_inbox_def awaiting_def)
qed

text \<open>
  C17. A command that is not answered ends in time. If what the NCP sends carries no answer to it,
  then a command that has been sent returns \<open>Timeout\<close> with its own frame id, however long the deadline
  is; nothing is outstanding, the connection is still up, what was read has been dispatched in order,
  and when the time was enough to read everything, all of it has been.
\<close>

theorem unanswered_command_times_out:
  assumes "send_command fake_ops c s = (Inr (), s0)" "response s = None" "decoder s = decoder_new"
    and "healthy (transport s)" "to_read (transport s) = chunks"
    and "passes_over chunks (next_rx_frame (ash s)) (registered c s) (choose_format c s) fs"
  shows "\<exists>s' ps. run_command n fake_ops c s = (Inl (Timeout (command_id c)), s') \<and> heard s' = heard s @ ps \<and>
    prefix ps (all_carried fs) \<and> (length chunks \<le> n \<longrightarrow> ps = all_carried fs) \<and>
    pending (correlator s') = None \<and> is_connected (ash s')"
proof -
  have i: "is_connected (ash s)" "pending (correlator s) = None"
    using assms(1) by (auto simp: send_command_def begin_command_def Let_def send_data_def split: sum.splits prod.splits if_splits option.splits)
  have "ahead (length (in_flight (ash s))) s [] [] decoder_new chunks" using assms(3-5) i by (simp add: ahead_def)
  moreover have "all_carried [] = []" by simp
  ultimately have "settled (length (in_flight (ash s))) 0 s chunks" using assms(2) i unfolding settled_def by blast
  from unanswered_settled [OF assms(1) this assms(6), of n] show ?thesis by auto
qed

lemma unanswered_command_times_out_witness:
  "\<exists>s'. run_command 5 fake_ops (version_command (Version PREFERRED)) (sample_ncp [wire_of (Data 0 1 False [9, 0x80, 0, 1])]) =
      (Inl (Timeout ID_VERSION), s') \<and> heard s' = [[9, 0x80, 0, 1]] \<and> pending (correlator s') = None"
proof -
  let ?c = "version_command (Version PREFERRED)" and ?f = "Data 0 1 False [9, 0x80, 0, 1]"
  let ?s = "sample_ncp [wire_of ?f]"
  obtain s0 where s0: "send_command fake_ops ?c ?s = (Inr (), s0)" using sample_send by blast
  have q: "registered ?c ?s = version_pending 0" "choose_format ?c ?s = Legacy"
    by (simp_all add: registered_def version_pending_def choose_format_def sample_defs)
  have wf: "\<forall>f\<in>set [?f]. wf_frame f" by (simp add: const_defs)
  have p: "passes_over [wire_of ?f] (next_rx_frame (ash ?s)) (registered ?c ?s) (choose_format ?c ?s) [?f]"
    unfolding passes_over_def q using wires_no_flow [OF wf] wf
    by (simp add: sample_defs is_answer_def answer_frame_def version_pending_def parse_eq const_defs)
  have st: "response ?s = None" "decoder ?s = decoder_new" "healthy (transport ?s)" "heard ?s = []" "to_read (transport ?s) = [wire_of ?f]"
    by (simp_all add: sample_defs healthy_def)
  from unanswered_command_times_out [OF s0 st(1,2,3,5) p, of 5] st(4) show ?thesis
    by (auto simp: version_command_def)
qed

section \<open>A negotiation that is not finished\<close>

lemma version_params: "\<exists>w. request_bytes (version_command q) sq fmt (writer_new v) = (Inr (), w) \<and> length (writer_bytes w) \<le> 128"
  by (cases fmt) (simp_all add: request_bytes_def write_header_def version_command_def version_encode_def andthen_def writer_u8_def
      writer_u16_def writer_put_def writer_new_def fits_legacy_def const_defs)

lemma version_unanswered:
  assumes "settled k m s chunks" "k < 7" "fmt = (if initial_version_sent s then Extended else Legacy)"
    and "passes_over chunks (next_rx_frame (ash s)) (version_pending (next_seq (correlator s))) fmt fs"
  shows "\<exists>s'. run_command n fake_ops (version_command (Version w)) s = (Inl (Timeout ID_VERSION), s')"
proof -
  let ?c = "version_command (Version w)"
  have q: "registered ?c s = version_pending (next_seq (correlator s))" "choose_format ?c s = fmt"
    using assms(3) by (auto simp: registered_def version_pending_def choose_format_def version_command_def)
  obtain u where u: "request_bytes ?c (next_seq (correlator s)) fmt (writer_new (version s)) = (Inr (), u)" "length (writer_bytes u) \<le> 128"
    using version_params by blast
  have "available ?c (version s)" by (simp add: version_command_def)
  from command_sent [OF assms(1,2) this q(2) u] obtain s0 where s0: "send_command fake_ops ?c s = (Inr (), s0)" by blast
  from unanswered_settled [OF s0 assms(1), of fs n] assms(4) q show ?thesis by (auto simp: version_command_def)
qed

text \<open>
  A negotiation whose second exchange is not answered is a timeout; one whose first is not, too.
\<close>

lemma connect_unconfirmed:
  assumes "healthy t" "to_read t = concat qs @ rs @ chunks1 @ chunks2"
    and "quiet clock 5 qs" "length qs \<le> 4" "feed (concat rs) decoder_new = ([Frame (RstAck a b)], decoder_new)"
    and "length rs \<le> clock (4 - length qs)" "length rs + length chunks1 \<le> n1"
    and "is_supported (protocol_version v)" "stack_type v = STACK_TYPE_MESH" "protocol_version v \<noteq> PREFERRED"
    and "relays chunks1 0 (version_pending 0) Legacy fs (version_payload Legacy 0 v)"
    and "passes_over chunks2 (next_expected 0 fs) (version_pending 1) Extended gs"
  shows "connect clock n1 n2 fake_ops t = Inl (Timeout ID_VERSION)"
proof -
  obtain s0 where r: "reset clock fake_ops (ncp_start t) = (Inr (), s0)" "settled 0 (length rs) s0 (chunks1 @ chunks2)"
    "next_rx_frame (ash s0) = 0" "correlator s0 = correlator_new" "\<not> initial_version_sent s0"
    using reset_settled [OF assms(1-6)] by blast
  have c: "Legacy = (if initial_version_sent s0 then Extended else Legacy)" "0 = next_seq (correlator s0)" "(0::nat) < 7" "Suc 0 < 7"
    using r(4,5) by (simp_all add: correlator_new_def)
  have r1: "relays chunks1 (next_rx_frame (ash s0)) (version_pending 0) Legacy fs (version_payload Legacy 0 v)"
    using assms(11) r(3) by (simp del: version_payload.simps)
  from version_exchange_settled [OF r(2) c(3,1,2) r1 assms(7), of PREFERRED] r(3)
  obtain s1 where e: "run_command n1 fake_ops (version_command (Version PREFERRED)) s0 = (Inr v, s1)"
    "initial_version_sent s1" "next_seq (correlator s1) = 1" "next_rx_frame (ash s1) = next_expected 0 fs"
    "settled (Suc 0) (length rs + length chunks1) s1 chunks2" by auto
  have "Extended = (if initial_version_sent s1 then Extended else Legacy)" using e(2) by simp
  from version_unanswered [OF e(5) c(4) this, of gs n2 "protocol_version v"] e(3,4) assms(12)
  obtain s2 where "run_command n2 fake_ops (version_command (Version (protocol_version v))) s1 = (Inl (Timeout ID_VERSION), s2)" by auto
  with r(1) e(1) assms(8-10) show ?thesis by (simp add: connect_def negotiate_def andthen_def Let_def)
qed

section \<open>What connecting leaves\<close>

lemma idle_format: "pending (correlator s) = None \<Longrightarrow> pending_format (fold dispatch ps s) = pending_format s"
  by (induction ps arbitrary: s) (simp_all add: dispatch_idle)

text \<open>After an answered command the format of the next answer is open.\<close>

lemma answered_format:
  assumes "run_command n ops c s = (Inr x, s')" "response s = None"
  shows "pending_format s' = None"
proof -
  obtain s1 us p vs f s2 where c: "answer_frame (registered c s) (choose_format c s) p f"
    "dispatched (us @ p # vs) s1 s2" "awaiting (registered c s) (choose_format c s) (fold dispatch us s1)" "s' = s2\<lparr>response := None\<rparr>"
    using assms by (rule command_answered)
  let ?s = "fold dispatch us s1"
  have f: "parse p (choose_format c s) = Inr f" "answers f (correlator ?s)"
    using c(1,3) answers_iff [of "correlator ?s" "registered c s" p "choose_format c s" f] by (auto simp: answer_frame_def awaiting_def)
  then have "classify f (correlator ?s) = (Answer (parameters f), (correlator ?s)\<lparr>pending := None\<rparr>)"
    using classify_cases [of f "correlator ?s"] by blast
  then have d: "pending_format (dispatch p ?s) = None" "pending (correlator (dispatch p ?s)) = None"
    using f(1) c(3) by (simp_all add: dispatch_def awaiting_def)
  show ?thesis using c(2,4) idle_format [OF d(2), of vs] d(1) by (auto simp: dispatched_def)
qed

lemma negotiate_lifetime:
  assumes "negotiate n1 n2 ops s = (Inr v, s')" "response s = None" "version s = PREFERRED"
  shows "lifetime ops s s' \<and> pending_format s' = None"
proof -
  obtain v1 s1 where 1: "run_command n1 ops (version_command (Version PREFERRED)) s = (Inr v1, s1)"
    and rest: "s' = s1 \<or> (\<exists>w. run_command n2 ops (version_command (Version w)) s1 = (Inr v, s'))"
    using assms(1) by (auto simp: negotiate_def andthen_eq_Inr Let_def split: if_splits)
  have l1: "lifetime ops s s1" by (rule session_lifetime [OF session_command [OF 1]])
  from rest show ?thesis
  proof
    assume "s' = s1"
    with l1 answered_format [OF 1 assms(2)] show ?thesis by simp
  next
    assume "\<exists>w. run_command n2 ops (version_command (Version w)) s1 = (Inr v, s')"
    then obtain w where 2: "run_command n2 ops (version_command (Version w)) s1 = (Inr v, s')" by blast
    have "response s1 = None" using version_command_reply [OF 1 assms(2,3)] by simp
    with answered_format [OF 2] session_lifetime [OF session_command [OF 2]] l1 show ?thesis
      unfolding lifetime_def by (auto intro: rtranclp_trans)
  qed
qed

lemma connect_lifetime:
  assumes "connect clock n1 n2 ops t = Inr s"
  shows "\<exists>s0 (v :: version_response). lifetime ops (ncp_start t) s0 \<and> pending_format s0 = None \<and>
    s = s0\<lparr>version := protocol_version v, ncp_stack_version := stack_version v\<rparr>"
proof -
  obtain u s1 v s2 where r: "reset clock ops (ncp_start t) = (Inr u, s1)" and n: "negotiate n1 n2 ops s1 = (Inr v, s2)"
    and s: "s = s2\<lparr>version := protocol_version v, ncp_stack_version := stack_version v\<rparr>"
    using assms by (auto simp: connect_def andthen_def split: prod.splits sum.splits)
  have "lifetime ops (ncp_start t) s1"
    unfolding lifetime_def by (rule r_into_rtranclp) (use method_call.reset [OF r] in blast)
  moreover have "lifetime ops s1 s2 \<and> pending_format s2 = None"
    using negotiate_lifetime [OF n] reset_start [OF r] by simp
  ultimately have "lifetime ops (ncp_start t) s2" "pending_format s2 = None"
    unfolding lifetime_def by auto
  with s show ?thesis by blast
qed

text \<open>Without a callback frame among the payloads heard the queue is empty.\<close>

definition queue_heard :: "'t ncp \<Rightarrow> bool" where
  "queue_heard s \<longleftrightarrow> callbacks s = [] \<or> (\<exists>p\<in>set (heard s). \<exists>fmt f. parse p fmt = Inr f \<and> is_callback (frame_control f))"

lemma queue_heard_dispatch: "queue_heard s \<Longrightarrow> queue_heard (dispatch p s)"
  by (auto simp: queue_heard_def dispatch_same)
    (auto simp: dispatch_def Let_def classify_def count_stale_def split: sum.splits prod.splits classified.splits option.splits if_splits)

interpretation queue_heard: lifetime_invariant queue_heard ops for ops :: "'t transport_ops"
proof
  fix c :: "unit command" and s s' :: "'t ncp" and r
  assume "send_command ops c s = (r, s')" "queue_heard s"
  then show "queue_heard s'"
    by (auto simp: queue_heard_def send_command_def Let_def begin_command_def split: sum.splits prod.splits if_splits option.splits
        dest!: write_frame_link)
qed (simp_all add: queue_heard_def queue_heard_dispatch [unfolded queue_heard_def])

lemma connect_queue:
  assumes "connect clock n1 n2 ops t = Inr s" "\<forall>p\<in>set (heard s). \<forall>fmt f. parse p fmt = Inr f \<longrightarrow> \<not> is_callback (frame_control f)"
  shows "callbacks s = [] \<and> pending_format s = None"
proof -
  obtain s0 and v :: version_response where s0: "lifetime ops (ncp_start t) s0" "pending_format s0 = None"
    "s = s0\<lparr>version := protocol_version v, ncp_stack_version := stack_version v\<rparr>"
    using connect_lifetime [OF assms(1)] by blast
  have "queue_heard (ncp_start t)" by (simp add: queue_heard_def ncp_start_def)
  then have "queue_heard s0" by (rule queue_heard.lifetime_keeps [OF s0(1)])
  with s0 assms(2) show ?thesis by (auto simp: queue_heard_def)
qed

section \<open>A poll\<close>

text \<open>
  \<open>poll\<close> stops at the first read that brings a callback; it returns nothing only if the reads in its
  time bring none.
\<close>

lemma pump_poll:
  assumes "ahead k s cs hs d []"
  shows "\<exists>s1 ps gs. pump_until n fake_ops (\<lambda>s. (callbacks s \<noteq> [], (), s)) s = (Inr (), (), s1) \<and> dispatched ps s s1 \<and>
    all_carried hs = ps @ all_carried gs \<and> (callbacks s1 \<noteq> [] \<or> n < length cs \<or> ps = all_carried hs)"
  using assms
proof (induction n arbitrary: s cs hs)
  case 0
  have p: "pump_until 0 fake_ops (\<lambda>s. (callbacks s \<noteq> [], (), s)) s = (Inr (), (), s)" by simp
  show ?case
  proof (cases cs)
    case Nil
    with 0 have "hs = []" by (simp add: ahead_def)
    then have "all_carried hs = [] @ all_carried hs" "[] = all_carried hs" by simp_all
    with p dispatched_refl [of s] show ?thesis by metis
  next
    case (Cons c cs')
    then have "0 < length cs" "all_carried hs = [] @ all_carried hs" by simp_all
    with p dispatched_refl [of s] show ?thesis by metis
  qed
next
  case (Suc n)
  show ?case
  proof (cases "callbacks s \<noteq> []")
    case True
    then have "pump_until (Suc n) fake_ops (\<lambda>s. (callbacks s \<noteq> [], (), s)) s = (Inr (), (), s)"
      "all_carried hs = [] @ all_carried hs" by simp_all
    with True dispatched_refl [of s] show ?thesis by metis
  next
    case False
    show ?thesis
    proof (cases cs)
      case Nil
      have "t_read fake_ops (transport s) = (ReadPending, transport s)"
        using Suc.prems Nil by (simp add: ahead_def healthy_def fake_ops_def fake_read_def)
      moreover have "s\<lparr>transport := transport s\<rparr> = s" by simp
      ultimately have "pump_until (Suc n) fake_ops (\<lambda>s. (callbacks s \<noteq> [], (), s)) s = (Inr (), (), s)" using False by simp
      moreover have "all_carried hs = [] @ all_carried hs" "[] = all_carried hs" using Nil Suc.prems by (simp_all add: ahead_def)
      ultimately show ?thesis using dispatched_refl [of s] by metis
    next
      case (Cons c cs')
      with Suc.prems have "ahead k s (c # cs') hs d []" by simp
      then obtain gs es t s2 where g: "hs = gs @ es" "t_read fake_ops (transport s) = (ReadOk c, t)"
        "consume fake_ops c (s\<lparr>transport := t\<rparr>) = (Inr (), s2)" "dispatched (all_carried gs) s s2" "ahead k s2 cs' es d []"
        by (rule ahead_read)
      from Suc.IH [OF g(5)] obtain s1 ps fs where r:
        "pump_until n fake_ops (\<lambda>s. (callbacks s \<noteq> [], (), s)) s2 = (Inr (), (), s1)" "dispatched ps s2 s1"
        "all_carried es = ps @ all_carried fs" "callbacks s1 \<noteq> [] \<or> n < length cs' \<or> ps = all_carried es" by blast
      have "pump_until (Suc n) fake_ops (\<lambda>s. (callbacks s \<noteq> [], (), s)) s = (Inr (), (), s1)" using False g(2,3) r(1) by simp
      moreover have "dispatched (all_carried gs @ ps) s s1" by (rule dispatched_trans [OF g(4) r(2)])
      moreover have "all_carried hs = (all_carried gs @ ps) @ all_carried fs" using g(1) r(3) by simp
      moreover have "callbacks s1 \<noteq> [] \<or> Suc n < length cs \<or> all_carried gs @ ps = all_carried hs"
        using r(4) Cons g(1) by auto
      ultimately show ?thesis by blast
    qed
  qed
qed

lemma poll_settled:
  assumes "settled k m s chunks" "passes_over chunks (next_rx_frame (ash s)) q fmt fs" "pending_format s \<noteq> Some Legacy"
    and "m + length chunks \<le> n"
  shows "\<exists>s' ps. poll n fake_ops s = (Inr (callbacks s @ callbacks_in (version s) ps), s') \<and> prefix ps (all_carried fs) \<and>
    (callbacks s @ callbacks_in (version s) ps \<noteq> [] \<or> ps = all_carried fs)"
proof -
  obtain cs hs where a: "ahead k s cs hs decoder_new chunks" "all_carried hs = []" "length cs \<le> m"
    using assms(1) by (auto simp: settled_def)
  have "ahead k s (cs @ chunks) (hs @ fs) decoder_new []"
    using a(1,2) assms(2) passes_over_feed [OF assms(2)] next_expected_none [OF a(2)]
    by (simp add: ahead_def in_step_append feed_append passes_over_def del: concat_eq_Nil_conv)
  from pump_poll [OF this, of n] obtain s1 ps gs where p:
    "pump_until n fake_ops (\<lambda>s. (callbacks s \<noteq> [], (), s)) s = (Inr (), (), s1)" "dispatched ps s s1"
    "all_carried (hs @ fs) = ps @ all_carried gs" "callbacks s1 \<noteq> [] \<or> n < length (cs @ chunks) \<or> ps = all_carried (hs @ fs)" by blast
  have "callbacks s1 = callbacks s @ callbacks_in (version s) ps" using dispatched_queues [OF p(2) assms(3)] by simp
  moreover have "prefix ps (all_carried fs)" using p(3) a(2) by (auto simp: prefix_def simp del: concat_eq_Nil_conv)
  moreover have "poll n fake_ops s = (Inr (callbacks s1), s1\<lparr>callbacks := []\<rparr>)"
    using p(1) by (simp add: poll_def take_callbacks_def)
  ultimately show ?thesis using p(4) a(2,3) assms(4) by (intro exI [of _ "s1\<lparr>callbacks := []\<rparr>"] exI [of _ ps]) auto
qed

end
