(* ===== verification/NcpConversation.thy ===== *)
theory NcpConversation
  imports NcpTimeout
begin

text \<open>
  Many commands in turn (\<open>ncp.rs\<close>): what a client that awaits one command after the other gets from
  an NCP that answers each of them and acknowledges it with the answer. The number of commands is
  not bounded: the send window never fills, and the sequence numbers and the frame numbers wrap
  around as often as they have to.
\<close>

section \<open>Acknowledged with the answer\<close>

text \<open>The acknowledgement number of the last data frame.\<close>

fun last_ack :: "ash_frame list \<Rightarrow> u8 option" where
  "last_ack [] = None"
| "last_ack (Data _ a _ _ # fs) = (if last_ack fs = None then Some a else last_ack fs)"
| "last_ack (_ # fs) = last_ack fs"

lemma last_ack_None: "last_ack fs = None \<longleftrightarrow> all_carried fs = []"
proof (induction fs)
  case (Cons f fs)
  then show ?case by (cases f) auto
qed simp

lemma acked_Nil: "fold retired_by fs [] = []"
  using length_acked [of fs "[]"] by simp

lemma acked_subset: "set (retired_by f fl) \<subseteq> set fl"
  by (cases f) (auto simp: drop_acked_def dest: in_set_dropD)

lemma last_ack_clears:
  assumes "last_ack (es @ gs) = Some a" "all_carried gs = []" "a \<notin> flight_num ` set fl"
  shows "fold retired_by es fl = []"
  using assms
proof (induction es arbitrary: fl)
  case Nil
  then show ?case using last_ack_None [of gs] by simp
next
  case (Cons f es)
  show ?case
  proof (cases "last_ack (es @ gs) = None")
    case True
    with Cons.prems(1) obtain n r p where "f = Data n a r p" by (cases f) auto
    with Cons.prems(3) show ?thesis by (simp add: drop_acked_all acked_Nil)
  next
    case False
    with Cons.prems(1) have "last_ack (es @ gs) = Some a" by (cases f) (auto split: if_splits)
    with Cons.IH [OF _ Cons.prems(2)] Cons.prems(3) acked_subset [of f fl] show ?thesis by fastforce
  qed
qed

text \<open>The number after the one sent last is not in flight.\<close>

lemma fresh_number: "wf_connection c \<Longrightarrow> next_tx_frame c \<notin> flight_num ` set (in_flight c)"
proof
  assume w: "wf_connection c" and "next_tx_frame c \<in> flight_num ` set (in_flight c)"
  then obtain i where i: "i < length (in_flight c)" "flight_num (in_flight c ! i) = next_tx_frame c"
    by (auto simp: in_set_conv_nth)
  obtain b where b: "flight_from b (in_flight c)" "next_tx_frame c = seq_num (b + length (in_flight c))"
    "length (in_flight c) < 8"
    using w by (auto simp: wf_connection_def const_defs)
  have "seq_num (b + i) = seq_num (b + length (in_flight c))" using i b flight_from_nth [OF b(1) i(1)] by simp
  with seq_num_window [of "b + i" "b + length (in_flight c)"] i(1) b(3) show False by auto
qed

text \<open>
  A command that is answered and acknowledged leaves nothing in flight.
\<close>

lemma command_settled_acked:
  assumes "send_command fake_ops c s = (Inr (), s0)" "settled k m s (chunks @ later)" "wf_ncp s"
    and "relays chunks (next_rx_frame (ash s)) (registered c s) (choose_format c s) fs p"
    and "last_ack fs = Some (next_sequence (next_tx_frame (ash s)))"
    and "answer_frame (registered c s) (choose_format c s) p f"
    and "answer c (reader_new (parameters f) (version s)) = (Inr x, r)" "reader_is_empty r" "m + length chunks \<le> n"
  shows "\<exists>s'. run_command n fake_ops c s = (Inr x, s') \<and> heard s' = heard s @ all_carried fs \<and>
    version s' = version s \<and> next_seq (correlator s') = next_seq (correlator s) + 1 \<and>
    next_tx_frame (ash s') = next_sequence (next_tx_frame (ash s)) \<and>
    next_rx_frame (ash s') = next_expected (next_rx_frame (ash s)) fs \<and> settled 0 (m + length chunks) s' later"
proof -
  obtain cs hs where a: "ahead k s cs hs decoder_new (chunks @ later)" "all_carried hs = []" "length cs \<le> m" and i: "response s = None"
    using assms(2) by (auto simp: settled_def)
  note sp = relays_split [OF assms(4)]
  have al: "ahead k s (cs @ chunks) (hs @ fs) decoder_new later" by (rule ahead_relays [OF a(1,2) assms(4)])
  have cr: "all_carried (hs @ fs) = butlast (all_carried fs) @ [p]" using a(2) sp(1) by (simp del: concat_eq_Nil_conv)
  have n: "length (cs @ chunks) \<le> n" using a(3) assms(9) by simp
  from command_answered_acked [OF assms(1) i al cr sp(2) assms(6-8) n] obtain s' cs' es gs where c:
    "run_command n fake_ops c s = (Inr x, s')" "heard s' = heard s @ butlast (all_carried fs) @ [p]" "version s' = version s"
    "response s' = None" "pending (correlator s') = None" "next_seq (correlator s') = next_seq (correlator s) + 1"
    "ahead (Suc k) s' cs' gs decoder_new later" "length cs' \<le> length (cs @ chunks)" "all_carried gs = []"
    "next_rx_frame (ash s') = next_expected (next_rx_frame (ash s)) (hs @ fs)"
    "hs @ fs = es @ gs" "acked_by es s0 s'"
    by (elim exE conjE)
  have "wf_connection (ash s0)" using wf_send_command [OF assms(1,3)] by (simp add: wf_ncp_def)
  from fresh_number [OF this] send_command_number [OF assms(1)]
  have "next_sequence (next_tx_frame (ash s)) \<notin> flight_num ` set (in_flight (ash s0))" by simp
  moreover have "last_ack (hs @ fs) = Some (next_sequence (next_tx_frame (ash s)))"
    using a(2) assms(5)
  proof (induction hs)
    case (Cons h hs)
    then show ?case by (cases h) auto
  qed simp
  ultimately have "fold retired_by es (in_flight (ash s0)) = []"
    using last_ack_clears [of es gs] c(9,11) by metis
  with c(12) have "in_flight (ash s') = []" by (simp add: acked_by_def)
  with c(7) have "ahead 0 s' cs' gs decoder_new later" by (simp add: ahead_def)
  moreover have "length cs' \<le> m + length chunks" using c(8) a(3) by simp
  ultimately have "settled 0 (m + length chunks) s' later" using c(4,5,9) unfolding settled_def by blast
  moreover have "next_expected (next_rx_frame (ash s)) (hs @ fs) = next_expected (next_rx_frame (ash s)) fs"
    using next_expected_none [OF a(2)] by (simp add: next_expected_def)
  moreover have "next_tx_frame (ash s') = next_sequence (next_tx_frame (ash s))"
    using c(12) send_command_number [OF assms(1)] by (simp add: acked_by_def)
  ultimately show ?thesis using c(1,2,3,6,10) sp(1) by metis
qed

section \<open>Conversations\<close>

text \<open>
  One exchange: the command, the value its answer has, the parameters of the response, the frames that
  the NCP sends up to the response, and the reads that bring them.
\<close>

record 'r exchange =
  asked :: "'r command"
  told :: 'r
  wire_params :: bytes
  brought_by :: "ash_frame list"
  reads_of :: "bytes list"

text \<open>The response frame with the extended header.\<close>

definition response_payload :: "u8 \<Rightarrow> frame_id \<Rightarrow> bytes \<Rightarrow> bytes" where
  "response_payload sq i ps = [sq, 0x80, 1] @ le_bytes 2 (id_raw i) @ ps"

text \<open>What it takes to send \<open>c\<close> at the version \<open>v\<close> with the extended header.\<close>

definition sendable :: "protocol_version \<Rightarrow> 'r command \<Rightarrow> bool" where
  "sendable v c \<longleftrightarrow> command_id c \<noteq> ID_VERSION \<and> available c v \<and> (\<exists>bs. writes (params c) v bs \<and> length bs \<le> 123)"

text \<open>
  \<open>answers_turn\<close>: an exchange in which the NCP, next expected to send the frame \<open>rx\<close> and to
  acknowledge all frames before \<open>tx\<close>, answers the command with the sequence number \<open>sq\<close>.
\<close>

definition answers_turn :: "protocol_version \<Rightarrow> u8 \<Rightarrow> u8 \<Rightarrow> u8 \<Rightarrow> 'r exchange \<Rightarrow> bool" where
  "answers_turn v rx tx sq e \<longleftrightarrow> sendable v (asked e) \<and> length (wire_params e) \<le> 213 \<and>
     parses (answer (asked e)) v (wire_params e) (told e) \<and>
     relays (reads_of e) rx \<lparr>pending_sequence = sq, pending_frame_id = command_id (asked e)\<rparr> Extended (brought_by e)
       (response_payload sq (command_id (asked e)) (wire_params e)) \<and>
     last_ack (brought_by e) = Some tx"

fun conversation :: "protocol_version \<Rightarrow> u8 \<Rightarrow> u8 \<Rightarrow> u8 \<Rightarrow> 'r exchange list \<Rightarrow> bool" where
  "conversation v rx tx sq [] \<longleftrightarrow> True"
| "conversation v rx tx sq (e # es) \<longleftrightarrow> answers_turn v rx (next_sequence tx) sq e \<and>
     conversation v (next_expected rx (brought_by e)) (next_sequence tx) (sq + 1) es"

text \<open>The client: one command after the other, the first failure ends it.\<close>

fun run_commands :: "nat \<Rightarrow> 't transport_ops \<Rightarrow> 'r command list \<Rightarrow> ('t, 'r list) ncp_action" where
  "run_commands n ops [] = ret []"
| "run_commands n ops (c # cs) = andthen (run_command n ops c) (\<lambda>x. andthen (run_commands n ops cs) (\<lambda>xs. ret (x # xs)))"

section \<open>They run to their end\<close>

lemma sendable_sends:
  assumes "settled k m s later" "k < 7" "sendable (version s) c"
  shows "registered c s = \<lparr>pending_sequence = next_seq (correlator s), pending_frame_id = command_id c\<rparr>"
    "choose_format c s = Extended" "\<exists>s0. send_command fake_ops c s = (Inr (), s0)"
proof -
  show "registered c s = \<lparr>pending_sequence = next_seq (correlator s), pending_frame_id = command_id c\<rparr>"
    by (simp add: registered_def)
  show f: "choose_format c s = Extended" using assms(3) by (simp add: sendable_def choose_format_def)
  obtain bs where bs: "available c (version s)" "writes (params c) (version s) bs" "length bs \<le> 123"
    using assms(3) by (auto simp: sendable_def)
  have w: "writes (request_bytes c (next_seq (correlator s)) Extended) (version s)
      (header_wire (next_seq (correlator s)) (command_id c) Extended @ bs)"
    unfolding request_bytes_def by (rule appends_andthen [OF writes_header bs(2)]) simp
  show "\<exists>s0. send_command fake_ops c s = (Inr (), s0)"
    using command_sent [OF assms(1,2) bs(1) f] writes_new [OF w] bs(3) by simp
qed

lemma response_answers:
  assumes "length ps \<le> 213"
  shows "\<exists>f. answer_frame \<lparr>pending_sequence = sq, pending_frame_id = i\<rparr> Extended (response_payload sq i ps) f \<and> parameters f = ps"
proof -
  obtain a b where ab: "le_bytes 2 (id_raw i) = [a, b]" by (simp add: numeral_2_eq_2)
  have "le_word [a, b] = id_raw i"
    unfolding ab [symmetric] by (rule le_word_le_bytes) simp
  with assms ab show ?thesis
    by (simp add: response_payload_def answer_frame_def parse_eq header_id_def from_low_byte_def const_defs del: le_word.simps)
qed

lemma turn_runs:
  assumes "answers_turn (version s) (next_rx_frame (ash s)) (next_sequence (next_tx_frame (ash s))) (next_seq (correlator s)) e"
    and "settled k m s (reads_of e @ later)" "k < 7" "wf_ncp s" "pending_format s \<noteq> Some Legacy"
    and "m + length (reads_of e) \<le> n"
  shows "\<exists>s'. run_command n fake_ops (asked e) s = (Inr (told e), s') \<and> heard s' = heard s @ all_carried (brought_by e) \<and>
    callbacks s' = callbacks s @ callbacks_in (version s) (all_carried (brought_by e)) \<and> version s' = version s \<and>
    next_seq (correlator s') = next_seq (correlator s) + 1 \<and> next_tx_frame (ash s') = next_sequence (next_tx_frame (ash s)) \<and>
    next_rx_frame (ash s') = next_expected (next_rx_frame (ash s)) (brought_by e) \<and>
    settled 0 (m + length (reads_of e)) s' later \<and> wf_ncp s' \<and> pending_format s' \<noteq> Some Legacy"
proof -
  note t = assms(1) [unfolded answers_turn_def]
  have sb: "sendable (version s) (asked e)" using t by blast
  note k = sendable_sends [OF assms(2,3) sb]
  obtain s0 where s0: "send_command fake_ops (asked e) s = (Inr (), s0)" using k(3) by blast
  obtain f where f: "answer_frame (registered (asked e) s) (choose_format (asked e) s)
      (response_payload (next_seq (correlator s)) (command_id (asked e)) (wire_params e)) f" "parameters f = wire_params e"
    using response_answers [of "wire_params e"] t k(1,2) by metis
  obtain r where r: "answer (asked e) (reader_new (parameters f) (version s)) = (Inr (told e), r)" "reader_is_empty r"
    using parses_whole [of "answer (asked e)" "version s" "wire_params e" "told e"] t f(2) by auto
  have rl: "relays (reads_of e) (next_rx_frame (ash s)) (registered (asked e) s) (choose_format (asked e) s) (brought_by e)
      (response_payload (next_seq (correlator s)) (command_id (asked e)) (wire_params e))"
    unfolding k(1,2) using t by blast
  have la: "last_ack (brought_by e) = Some (next_sequence (next_tx_frame (ash s)))" using t by blast
  from command_settled_acked [OF s0 assms(2,4) rl la f(1) r assms(6)] obtain s' where s':
    "run_command n fake_ops (asked e) s = (Inr (told e), s')" "heard s' = heard s @ all_carried (brought_by e)"
    "version s' = version s" "next_seq (correlator s') = next_seq (correlator s) + 1"
    "next_tx_frame (ash s') = next_sequence (next_tx_frame (ash s))"
    "next_rx_frame (ash s') = next_expected (next_rx_frame (ash s)) (brought_by e)"
    "settled 0 (m + length (reads_of e)) s' later"
    by blast
  have "wf_ncp s'" by (rule wf.lifetime_keeps [OF session_lifetime [OF session_command [OF s'(1)]] assms(4)])
  moreover have "callbacks s' = callbacks s @ callbacks_in (version s) (all_carried (brought_by e))"
    using command_queues [OF s'(1) k(2)] s'(2) by auto
  moreover have "pending_format s' = None" using answered_format [OF s'(1)] assms(2) by (simp add: settled_def)
  ultimately show ?thesis using s' by auto
qed

text \<open>All payloads of a conversation, in order.\<close>

abbreviation payloads_of :: "'r exchange list \<Rightarrow> bytes list" where
  "payloads_of es \<equiv> concat (map (\<lambda>e. all_carried (brought_by e)) es)"

lemma conversation_runs:
  assumes "conversation (version s) (next_rx_frame (ash s)) (next_tx_frame (ash s)) (next_seq (correlator s)) es"
    and "settled k m s (concat (map reads_of es) @ later)" "k < 7" "wf_ncp s" "pending_format s \<noteq> Some Legacy"
    and "m + length (concat (map reads_of es)) \<le> n"
  shows "\<exists>s'. run_commands n fake_ops (map asked es) s = (Inr (map told es), s') \<and> heard s' = heard s @ payloads_of es \<and>
    callbacks s' = callbacks s @ callbacks_in (version s) (payloads_of es) \<and>
    settled k (m + length (concat (map reads_of es))) s' later \<and> wf_ncp s'"
  using assms
proof (induction es arbitrary: s k m)
  case Nil
  then show ?case by (simp add: ret_def)
next
  case (Cons e es)
  have t: "answers_turn (version s) (next_rx_frame (ash s)) (next_sequence (next_tx_frame (ash s))) (next_seq (correlator s)) e"
    using Cons.prems(1) by simp
  have st: "settled k m s (reads_of e @ concat (map reads_of es) @ later)" and n: "m + length (reads_of e) \<le> n"
    using Cons.prems(2,6) by simp_all
  from turn_runs [OF t st Cons.prems(3-5) n] obtain s1 where s1:
    "run_command n fake_ops (asked e) s = (Inr (told e), s1)" "heard s1 = heard s @ all_carried (brought_by e)"
    "callbacks s1 = callbacks s @ callbacks_in (version s) (all_carried (brought_by e))" "version s1 = version s"
    "next_seq (correlator s1) = next_seq (correlator s) + 1" "next_tx_frame (ash s1) = next_sequence (next_tx_frame (ash s))"
    "next_rx_frame (ash s1) = next_expected (next_rx_frame (ash s)) (brought_by e)"
    "settled 0 (m + length (reads_of e)) s1 (concat (map reads_of es) @ later)" "wf_ncp s1" "pending_format s1 \<noteq> Some Legacy"
    by blast
  have c: "conversation (version s1) (next_rx_frame (ash s1)) (next_tx_frame (ash s1)) (next_seq (correlator s1)) es"
    using Cons.prems(1) s1(4-7) by simp
  have m: "m + length (reads_of e) + length (concat (map reads_of es)) \<le> n" using Cons.prems(6) by simp
  from Cons.IH [OF c s1(8) _ s1(9,10) m] obtain s2 where s2:
    "run_commands n fake_ops (map asked es) s1 = (Inr (map told es), s2)" "heard s2 = heard s1 @ payloads_of es"
    "callbacks s2 = callbacks s1 @ callbacks_in (version s1) (payloads_of es)"
    "settled 0 (m + length (reads_of e) + length (concat (map reads_of es))) s2 later" "wf_ncp s2"
    by auto
  have "settled k (m + length (concat (map reads_of (e # es)))) s2 later"
    using settled_less [OF s2(4)] by simp
  with s1 s2 show ?case by (auto simp: andthen_def ret_def)
qed

text \<open>
  C3. Commands in turn, as many as there are. If a connection comes up and the NCP goes on to answer
  each of a list of commands, with its sequence number and acknowledging the request in the frame
  of the answer, after any callbacks and stale frames and divided into reads in any way, then a
  caller that awaits one command after the other gets the values of all the answers, in order, and
  every callback among the payloads is queued. The list may be longer than the window and than the
  numbers of frames and of sequences reach.
\<close>

theorem conversation_succeeds:
  assumes "healthy t" "to_read t = concat qs @ rs @ chunks1 @ chunks2 @ concat (map reads_of es) @ later"
    and "quiet clock 5 qs" "length qs \<le> 4" "feed (concat rs) decoder_new = ([Frame (RstAck a b)], decoder_new)"
    and "length rs \<le> clock (4 - length qs)" "negotiation chunks1 chunks2 v1 v2 fs gs"
    and "length rs + length chunks1 \<le> n1" "length rs + length chunks1 + length chunks2 \<le> n2"
    and "tx = (if protocol_version v1 = PREFERRED then 1 else 2)"
    and "conversation (protocol_version v1) (next_expected 0 (fs @ gs)) tx tx es"
    and "length rs + length chunks1 + length chunks2 + length (concat (map reads_of es)) \<le> n"
  shows "\<exists>s s'. connect clock n1 n2 fake_ops t = Inr s \<and> version s = protocol_version v1 \<and>
    run_commands n fake_ops (map asked es) s = (Inr (map told es), s') \<and>
    callbacks s' = callbacks s @ callbacks_in (protocol_version v1) (payloads_of es) \<and>
    pending (correlator s') = None \<and> is_connected (ash s')"
proof -
  obtain s where s: "connect clock n1 n2 fake_ops t = Inr s" "version s = protocol_version v1"
    "next_seq (correlator s) = tx" "next_tx_frame (ash s) = tx" "next_rx_frame (ash s) = next_expected 0 (fs @ gs)"
    "settled 2 (length rs + length chunks1 + length chunks2) s (concat (map reads_of es) @ later)"
    using connect_answered [OF assms(1-9)] assms(10) by (elim exE conjE) (simp split: if_splits)
  obtain s0 and v :: version_response where s0: "lifetime fake_ops (ncp_start t) s0" "pending_format s0 = None"
    "s = s0\<lparr>version := protocol_version v, ncp_stack_version := stack_version v\<rparr>"
    using connect_lifetime [OF s(1)] by blast
  have "wf_ncp s0" by (rule wf.lifetime_keeps [OF s0(1) wf_ncp_start])
  then have wf: "wf_ncp s" "pending_format s \<noteq> Some Legacy" using s0(2,3) by (simp_all add: wf_ncp_def)
  have c: "conversation (version s) (next_rx_frame (ash s)) (next_tx_frame (ash s)) (next_seq (correlator s)) es"
    using assms(11) s(2-5) by simp
  from conversation_runs [OF c s(6) _ wf assms(12)] obtain s' where
    "run_commands n fake_ops (map asked es) s = (Inr (map told es), s')"
    "callbacks s' = callbacks s @ callbacks_in (version s) (payloads_of es)"
    "settled 2 (length rs + length chunks1 + length chunks2 + length (concat (map reads_of es))) s' later" by auto
  with s(1,2) show ?thesis by (auto simp: settled_def ahead_def)
qed

section \<open>An NCP that answers at once\<close>

text \<open>The conversation with an NCP that answers every request with one frame, in one read.\<close>

fun serve :: "u8 \<Rightarrow> u8 \<Rightarrow> u8 \<Rightarrow> ('r command \<times> bytes \<times> 'r) list \<Rightarrow> 'r exchange list" where
  "serve rx tx sq [] = []"
| "serve rx tx sq ((c, ps, x) # qs) =
     (let f = Data rx (next_sequence tx) False (response_payload sq (command_id c) ps)
      in \<lparr>asked = c, told = x, wire_params = ps, brought_by = [f], reads_of = [wire_of f]\<rparr> #
         serve (next_sequence rx) (next_sequence tx) (sq + 1) qs)"

lemma serve_asks: "map asked (serve rx tx sq qs) = map fst qs" "map told (serve rx tx sq qs) = map (\<lambda>(_, _, x). x) qs"
  "length (concat (map reads_of (serve rx tx sq qs))) = length qs"
  by (induction rx tx sq qs rule: serve.induct) (simp_all add: Let_def)

lemma next_sequence_small [simp]: "next_sequence n < 8"
  by (simp add: next_sequence_def SEQUENCE_MODULUS_def word_less_nat_alt unat_mod)

lemma serve_conversation:
  assumes "rx < 8" "\<forall>(c, ps, x) \<in> set qs. sendable v c \<and> parses (answer c) v ps x \<and> length ps \<le> 123"
  shows "conversation v rx tx sq (serve rx tx sq qs)"
  using assms
proof (induction rx tx sq qs rule: serve.induct)
  case (2 rx tx sq c ps x qs)
  let ?f = "Data rx (next_sequence tx) False (response_payload sq (command_id c) ps)"
  have wf: "\<forall>f\<in>set [?f]. wf_frame f" using 2(2,3) by (simp add: response_payload_def const_defs)
  have "answers_turn v rx (next_sequence tx) sq
      \<lparr>asked = c, told = x, wire_params = ps, brought_by = [?f], reads_of = [wire_of ?f]\<rparr>"
    using 2(3) wires_no_flow [OF wf] wf by (simp add: answers_turn_def relays_def)
  moreover have "next_expected rx [?f] = next_sequence rx" by (simp add: next_expected_def)
  moreover have "conversation v (next_sequence rx) (next_sequence tx) (sq + 1) (serve (next_sequence rx) (next_sequence tx) (sq + 1) qs)"
    by (rule 2(1)) (use 2(3) in \<open>simp_all\<close>)
  ultimately show ?case by (simp add: Let_def)
qed simp

text \<open>Three hundred commands, more than there are sequence numbers, to an NCP that runs the version offered.\<close>

lemma conversation_succeeds_witness:
  "\<exists>t s s'. connect (\<lambda>_. 1) 2 2 fake_ops t = Inr s \<and> version s = PREFERRED \<and>
    run_commands 302 fake_ops (replicate 300 (get_eui64_command GetEui64)) s = (Inr (replicate 300 (GetEui64Response (Eui64 7))), s') \<and>
    pending (correlator s') = None"
proof -
  let ?v = "\<lparr>protocol_version = PREFERRED, stack_type = 2, stack_version = 0x7440\<rparr>"
  let ?f = "Data 0 1 False (version_payload Legacy 0 ?v)" and ?r = "RstAck 2 1"
  let ?c = "get_eui64_command GetEui64" and ?ps = "to_wire (Eui64 7)"
  let ?es = "serve 1 1 1 (replicate 300 (?c, ?ps, GetEui64Response (Eui64 7)))"
  let ?t = "fake_with_chunks (concat [] @ [wire_of ?r] @ [wire_of ?f] @ [] @ concat (map reads_of ?es) @ [])"
  have wf: "wf_frame ?f" by (simp add: const_defs le_bytes_2)
  have neg: "negotiation [wire_of ?f] [] ?v ?v [?f] []"
    unfolding negotiation_def relays_def using wire_no_flow [OF wf] wf
    by (simp add: const_defs is_supported_def)
  have rst: "feed (concat [wire_of ?r]) decoder_new = ([Frame (RstAck 2 1)], decoder_new)"
    using feed_wire [of ?r] by simp
  have "parses get_eui64_response_decode PREFERRED ?ps (GetEui64Response (Eui64 7))"
    unfolding get_eui64_response_decode_def by (rule parses_end [OF parses_eui64])
  then have "conversation PREFERRED 1 1 1 ?es"
    by (intro serve_conversation)
      (auto simp: sendable_def get_eui64_command_def get_eui64_encode_def default_available_def is_supported_def const_defs
        intro!: exI [of _ "[]"])
  then have con: "conversation (protocol_version ?v) (next_expected 0 ([?f] @ [])) 1 1 ?es"
    by (simp add: next_expected_def next_sequence_def SEQUENCE_MODULUS_def)
  have t: "healthy ?t" "to_read ?t = concat [] @ [wire_of ?r] @ [wire_of ?f] @ [] @ concat (map reads_of ?es) @ []"
    by (simp_all add: fake_with_chunks_def healthy_def)
  have q: "quiet (\<lambda>_. 1) 5 []" by simp
  have len: "length [wire_of ?r] + length [wire_of ?f] + length [] + length (concat (map reads_of ?es)) \<le> 302"
    unfolding serve_asks(3) by simp
  obtain s s' where "connect (\<lambda>_. 1) 2 2 fake_ops ?t = Inr s" "version s = PREFERRED"
    "run_commands 302 fake_ops (map asked ?es) s = (Inr (map told ?es), s')" "pending (correlator s') = None"
    using conversation_succeeds [OF t q _ rst _ neg _ _ _ con len, of 2 2] by auto
  then show ?thesis unfolding serve_asks map_replicate by auto
qed

end
