(* ===== verification/Scenarios.thy ===== *)
theory Scenarios
  imports NcpConversation
begin

text \<open>
  The integration tests over the scripted transport (\<open>tests/correlation_over_transport.rs\<close>): what
  their helpers build, and what each test asserts, as theorems about the model. Where a test
  fixes an address or a division into reads that does not matter, the theorem is for all of them.
  The deadlines of the tests are any numbers of turns that are enough for the scripted reads.
\<close>

section \<open>What the helpers build\<close>

text \<open>\<open>encode(..).expect(..)\<close>: the encoder does not fail on these frames.\<close>

definition ash_data :: "u8 \<Rightarrow> u8 \<Rightarrow> bytes \<Rightarrow> bytes" where
  "ash_data fn an ezsp = wire_of (Data fn an False ezsp)"

definition rstack :: bytes where
  "rstack = wire_of (RstAck 2 0x0b)"

definition version_legacy :: "u8 \<Rightarrow> bytes" where
  "version_legacy sq = [sq, 0x80, 0x00, 0x0d, 0x02, 0x40, 0x74]"

definition version_extended :: "u8 \<Rightarrow> bytes" where
  "version_extended sq = [sq, 0x80, 0x01, 0x00, 0x00, 0x0d, 0x02, 0x40, 0x74]"

definition eui64_response :: "u8 \<Rightarrow> eui64 \<Rightarrow> bytes" where
  "eui64_response sq address = [sq, 0x80, 0x01, 0x26, 0x00] @ to_wire address"

definition stack_status_frame :: "u8 \<Rightarrow> u8 \<Rightarrow> bytes" where
  "stack_status_frame sq st = [sq, 0x90, 0x01, 0x19, 0x00, st]"

definition connected_prelude :: "bytes list" where
  "connected_prelude = [rstack, ash_data 0 1 (version_legacy 0), ash_data 1 2 (version_extended 1)]"

definition DEVICE :: eui64 where
  "DEVICE = Eui64 0xa4c138142d62ffff"

section \<open>The connection\<close>

abbreviation V13 :: version_response where
  "V13 \<equiv> \<lparr>protocol_version = ProtocolVersion 0x0d, stack_type = 2, stack_version = 0x7440\<rparr>"

lemma version_payloads: "version_legacy 0 = version_payload Legacy 0 V13" "version_extended 1 = version_payload Extended 1 V13"
  by (simp_all add: version_legacy_def version_extended_def le_bytes_2)

text \<open>
  The state after the prelude, for any division of each of its three parts into reads: EZSP 13 is
  agreed on, the next command has sequence number two, the next data frame the number two, and
  nothing is queued.
\<close>

definition after_prelude :: "nat \<Rightarrow> fake_transport ncp \<Rightarrow> bytes list \<Rightarrow> bool" where
  "after_prelude m s later \<longleftrightarrow> version s = ProtocolVersion 0x0d \<and> ncp_stack_version s = 0x7440 \<and>
     next_seq (correlator s) = 2 \<and> next_rx_frame (ash s) = 2 \<and> settled 2 m s later \<and>
     callbacks s = [] \<and> pending_format s = None"

lemma prelude_connects:
  assumes "concat rs = rstack" "concat c1 = ash_data 0 1 (version_legacy 0)" "concat c2 = ash_data 1 2 (version_extended 1)"
    and "length rs \<le> clock 4" "length rs + length c1 \<le> n1" "length rs + length c1 + length c2 \<le> n2"
  shows "\<exists>s. connect clock n1 n2 fake_ops (fake_with_chunks (rs @ c1 @ c2 @ later)) = Inr s \<and>
    after_prelude (length rs + length c1 + length c2) s later"
proof -
  let ?t = "fake_with_chunks (rs @ c1 @ c2 @ later)"
  let ?f = "Data 0 1 False (version_legacy 0)" and ?g = "Data 1 2 False (version_extended 1)"
  have wf: "wf_frame ?f" "wf_frame ?g" by (simp_all add: version_legacy_def version_extended_def const_defs)
  have n: "negotiation c1 c2 V13 V13 [?f] [?g]"
    unfolding negotiation_def relays_def version_payloads [symmetric] using assms(2,3) wf wire_no_flow [OF wf(1)] wire_no_flow [OF wf(2)]
    by (simp add: ash_data_def const_defs is_supported_def next_expected_def next_sequence_def)
  have r: "feed (concat rs) decoder_new = ([Frame (RstAck 2 0x0b)], decoder_new)"
    using feed_wire [of "RstAck 2 0x0b"] assms(1) by (simp add: rstack_def)
  have t: "healthy ?t" "to_read ?t = concat [] @ rs @ c1 @ c2 @ later" by (simp_all add: fake_with_chunks_def healthy_def)
  obtain s where s: "connect clock n1 n2 fake_ops ?t = Inr s" "version s = ProtocolVersion 0x0d" "ncp_stack_version s = 0x7440"
    "heard s = [version_legacy 0, version_extended 1]" "next_seq (correlator s) = 2" "next_rx_frame (ash s) = 2"
    "settled 2 (length rs + length c1 + length c2) s later"
    using connect_answered [OF t _ _ r _ n assms(5,6), of clock] assms(4)
    by (auto simp: const_defs next_expected_def next_sequence_def)
  have "callbacks s = [] \<and> pending_format s = None"
    by (rule connect_queue [OF s(1)])
      (auto simp: s(4) version_legacy_def version_extended_def parse_eq from_low_byte_def const_defs)
  with s show ?thesis by (auto simp: after_prelude_def)
qed

text \<open>As the tests script it: one read for each part.\<close>

lemma prelude_as_scripted:
  assumes "0 < clock 4" "2 \<le> n1" "3 \<le> n2"
  shows "\<exists>s. connect clock n1 n2 fake_ops (fake_with_chunks (connected_prelude @ later)) = Inr s \<and> after_prelude 3 s later"
  using prelude_connects [of "[rstack]" "[ash_data 0 1 (version_legacy 0)]" "[ash_data 1 2 (version_extended 1)]" clock n1 n2 later]
    assms by (simp add: connected_prelude_def eval_nat_numeral)

section \<open>Any command on this connection\<close>

text \<open>Which commands can be sent is open: a crate outside can implement the trait too.\<close>

abbreviation usable :: "'r command \<Rightarrow> bool" where
  "usable \<equiv> sendable (ProtocolVersion 0x0d)"

abbreviation awaited :: "'r command \<Rightarrow> pending" where
  "awaited c \<equiv> \<lparr>pending_sequence = 2, pending_frame_id = command_id c\<rparr>"

lemma command_ready:
  assumes "after_prelude m s later" "usable c"
  shows "registered c s = awaited c" "choose_format c s = Extended" "\<exists>s0. send_command fake_ops c s = (Inr (), s0)"
proof -
  have "settled 2 m s later" "sendable (version s) c" "next_seq (correlator s) = 2"
    using assms by (simp_all add: after_prelude_def)
  with sendable_sends [of 2 m s later c]
  show "registered c s = awaited c" "choose_format c s = Extended" "\<exists>s0. send_command fake_ops c s = (Inr (), s0)"
    by simp_all
qed

text \<open>The value of the response is returned, and the callbacks before it, decoded for EZSP 13, are queued.\<close>

lemma command_after_prelude:
  assumes "after_prelude m s (chunks @ later)" "usable c" "parses (answer c) (ProtocolVersion 0x0d) ps x" "length ps \<le> 213"
    and "relays chunks 2 (awaited c) Extended fs (response_payload 2 (command_id c) ps)" "m + length chunks \<le> n"
  shows "\<exists>s'. run_command n fake_ops c s = (Inr x, s') \<and>
    callbacks s' = callbacks_in (ProtocolVersion 0x0d) (all_carried fs) \<and> version s' = ProtocolVersion 0x0d \<and>
    pending_format s' \<noteq> Some Legacy \<and> next_rx_frame (ash s') = next_expected 2 fs \<and> settled 3 (m + length chunks) s' later"
proof -
  note a = assms(1) [unfolded after_prelude_def] and k = command_ready [OF assms(1,2)]
  obtain s0 where s0: "send_command fake_ops c s = (Inr (), s0)" using k(3) by blast
  obtain f where f: "answer_frame (registered c s) (choose_format c s) (response_payload 2 (command_id c) ps) f" "parameters f = ps"
    using response_answers [OF assms(4), of 2 "command_id c"] k(1,2) by auto
  obtain r where r: "answer c (reader_new (parameters f) (version s)) = (Inr x, r)" "reader_is_empty r"
    using parses_whole [OF assms(3)] assms(4) f(2) a by auto
  have st: "settled 2 m s (chunks @ later)" using a by simp
  have rl: "relays chunks (next_rx_frame (ash s)) (registered c s) (choose_format c s) fs (response_payload 2 (command_id c) ps)"
    using assms(5) a k(1,2) by simp
  from command_settled [OF s0 st rl f(1) r assms(6)] a obtain s' where
    s': "run_command n fake_ops c s = (Inr x, s')" "heard s' = heard s @ all_carried fs"
      "version s' = version s" "next_rx_frame (ash s') = next_expected 2 fs" "settled (Suc 2) (m + length chunks) s' later"
    by auto
  from command_queues [OF s'(1) k(2)] s'(2) a
  have "callbacks s' = callbacks_in (ProtocolVersion 0x0d) (all_carried fs)" by auto
  moreover have "pending_format s' = None" using answered_format [OF s'(1)] a by (simp add: settled_def)
  ultimately show ?thesis using s' a by (simp add: eval_nat_numeral)
qed

lemma full_stack:
  assumes "concat rs = rstack" "concat c1 = ash_data 0 1 (version_legacy 0)" "concat c2 = ash_data 1 2 (version_extended 1)"
    and "usable c" "parses (answer c) (ProtocolVersion 0x0d) ps x" "length ps \<le> 213"
    and "relays chunks 2 (awaited c) Extended fs (response_payload 2 (command_id c) ps)"
    and "length rs \<le> clock 4" "length rs + length c1 \<le> n1" "length rs + length c1 + length c2 \<le> n2"
    and "length rs + length c1 + length c2 + length chunks \<le> n"
  shows "\<exists>s s'. connect clock n1 n2 fake_ops (fake_with_chunks (rs @ c1 @ c2 @ chunks)) = Inr s \<and>
    version s = ProtocolVersion 0x0d \<and> ncp_stack_version s = 0x7440 \<and> run_command n fake_ops c s = (Inr x, s') \<and>
    callbacks s' = callbacks_in (ProtocolVersion 0x0d) (all_carried fs)"
proof -
  obtain s where s: "connect clock n1 n2 fake_ops (fake_with_chunks (rs @ c1 @ c2 @ chunks)) = Inr s"
    "after_prelude (length rs + length c1 + length c2) s (chunks @ [])"
    using prelude_connects [OF assms(1-3), of clock n1 n2 chunks] assms(8-10) by auto
  from command_after_prelude [OF s(2) assms(4-7,11)] obtain s' where
    "run_command n fake_ops c s = (Inr x, s')" "callbacks s' = callbacks_in (ProtocolVersion 0x0d) (all_carried fs)" by blast
  with s show ?thesis by (auto simp: after_prelude_def)
qed

text \<open>
  A command over the full stack, whoever implements it: when the reads bring the RSTACK, the two
  exchanges of versions and then, after any frames that do not answer it, the response to the
  command, all divided into reads in any way, then connecting succeeds with EZSP 13 and firmware
  \<open>0x7440\<close>, the command returns what its decoder reads from the parameters of the response, and the
  callbacks that came before it are queued.
\<close>

theorem command_over_the_full_stack:
  assumes "concat rs = rstack" "concat c1 = ash_data 0 1 (version_legacy 0)" "concat c2 = ash_data 1 2 (version_extended 1)"
    and "usable c" "parses (answer c) (ProtocolVersion 0x0d) ps x" "length ps \<le> 213"
    and "relays chunks 2 (awaited c) Extended fs (response_payload 2 (command_id c) ps)"
    and "length rs \<le> clock 4" "length rs + length c1 \<le> n1" "length rs + length c1 + length c2 \<le> n2"
    and "length rs + length c1 + length c2 + length chunks \<le> n"
  shows "\<exists>s s'. connect clock n1 n2 fake_ops (fake_with_chunks (rs @ c1 @ c2 @ chunks)) = Inr s \<and>
    version s = ProtocolVersion 0x0d \<and> ncp_stack_version s = 0x7440 \<and> run_command n fake_ops c s = (Inr x, s') \<and>
    callbacks s' = callbacks_in (ProtocolVersion 0x0d) (all_carried fs)"
  using full_stack [OF assms(1-7), of clock n1 n2 n] assms(8-11) by blast

section \<open>getEui64\<close>

abbreviation eui64_command :: "get_eui64_response command" where
  "eui64_command \<equiv> get_eui64_command GetEui64"

lemma eui64_usable [simp]: "usable eui64_command"
  by (auto simp: sendable_def get_eui64_command_def get_eui64_encode_def default_available_def is_supported_def const_defs
      intro!: exI [of _ "[]"])

lemma eui64_answer:
  "parses (answer eui64_command) v (to_wire a) (GetEui64Response a)"
  "response_payload 2 (command_id eui64_command) (to_wire a) = eui64_response 2 a" "length (to_wire a) \<le> 213"
  by (simp_all add: get_eui64_command_def get_eui64_response_decode_def parses_end [OF parses_eui64] response_payload_def
      eui64_response_def le_bytes_2 const_defs)

lemma relays_wires:
  assumes "concat chunks = concat (map wire_of fs)" "\<forall>f\<in>set fs. wf_frame f" "in_step rx fs"
    and "all_carried fs = us @ [p]" "\<forall>u\<in>set us. \<not> is_answer q fmt u"
  shows "relays chunks rx q fmt fs p"
  using assms wires_no_flow [OF assms(2)] by (simp add: relays_def del: concat_eq_Nil_conv)

lemma passes_over_wires:
  assumes "concat chunks = concat (map wire_of fs)" "\<forall>f\<in>set fs. wf_frame f" "in_step rx fs"
    and "\<forall>u\<in>set (all_carried fs). \<not> is_answer q fmt u"
  shows "passes_over chunks rx q fmt fs"
  using assms wires_no_flow [OF assms(2)] by (simp add: passes_over_def del: concat_eq_Nil_conv)

section \<open>The tests\<close>

text \<open>What the frames of the tests are to the pending \<open>getEui64\<close>, and what the callbacks decode to.\<close>

lemma not_the_answer:
  "\<not> is_answer (awaited eui64_command) Extended (stack_status_frame sq st)"
  "\<not> is_answer (awaited eui64_command) Extended (version_extended sq)"
  "sq \<noteq> 2 \<Longrightarrow> \<not> is_answer (awaited eui64_command) Extended (eui64_response sq a)"
  by (auto simp: is_answer_def answer_frame_def stack_status_frame_def version_extended_def eui64_response_def parse_eq
      header_id_def from_low_byte_def get_eui64_command_def const_defs)

lemma callbacks_carried:
  "callback_in (ProtocolVersion 0x0d) (stack_status_frame sq st) = [StackStatus (SlStatus (ucast st))]"
  "callback_in (ProtocolVersion 0x0d) (eui64_response sq a) = []"
  "callback_in (ProtocolVersion 0x0d) (version_extended sq) = []"
proof -
  have "parses stack_status_decode (ProtocolVersion 0x0d) [st] (StackStatus (SlStatus (ucast st)))"
    unfolding stack_status_decode_def by (rule parses_end [OF parses_sl_status_narrow]) (simp add: has_wide_status_def const_defs)
  then have "fst (stack_status_decode (reader_new [st] (ProtocolVersion 0x0d))) = Inr (StackStatus (SlStatus (ucast st)))"
    using parses_fst [of stack_status_decode _ "[st]" _ "[]"] by simp
  then show "callback_in (ProtocolVersion 0x0d) (stack_status_frame sq st) = [StackStatus (SlStatus (ucast st))]"
    by (simp add: callback_as_def stack_status_frame_def parse_eq header_id_def from_low_byte_def callback_decode_def const_defs)
qed (simp_all add: callback_as_def eui64_response_def version_extended_def parse_eq header_id_def from_low_byte_def const_defs)

lemma payloads_fit:
  "length (stack_status_frame sq st) \<le> MAX_DATA_FIELD_LEN" "length (eui64_response sq a) \<le> MAX_DATA_FIELD_LEN"
  "length (version_extended sq) \<le> MAX_DATA_FIELD_LEN"
  by (simp_all add: stack_status_frame_def eui64_response_def version_extended_def const_defs)

lemmas test_frames = payloads_fit ash_data_def not_the_answer callbacks_carried next_sequence_def SEQUENCE_MODULUS_def

lemma command_over_the_full_stack_witness:
  "\<exists>s s'. connect (\<lambda>_. 1) 3 3 fake_ops (fake_with_chunks ([rstack] @ [ash_data 0 1 (version_legacy 0)] @ [ash_data 1 2 (version_extended 1)] @
      [ash_data 2 3 (stack_status_frame 0x40 0x90) @ ash_data 3 3 (eui64_response 2 DEVICE)])) = Inr s \<and>
    run_command 4 fake_ops eui64_command s = (Inr (GetEui64Response DEVICE), s') \<and>
    callbacks s' = [StackStatus (SlStatus 0x90)]"
proof -
  let ?fs = "[Data 2 3 False (stack_status_frame 0x40 0x90), Data 3 3 False (eui64_response 2 DEVICE)]"
  have "relays [ash_data 2 3 (stack_status_frame 0x40 0x90) @ ash_data 3 3 (eui64_response 2 DEVICE)] 2 (awaited eui64_command) Extended
      ?fs (eui64_response 2 DEVICE)"
    by (rule relays_wires [where us = "[stack_status_frame 0x40 0x90]"]) (simp_all add: test_frames)
  then have "relays [ash_data 2 3 (stack_status_frame 0x40 0x90) @ ash_data 3 3 (eui64_response 2 DEVICE)] 2 (awaited eui64_command) Extended
      ?fs (response_payload 2 (command_id eui64_command) (to_wire DEVICE))"
    by (simp only: eui64_answer(2))
  from command_over_the_full_stack [OF _ _ _ eui64_usable eui64_answer(1,3) this, of "[rstack]" "[ash_data 0 1 (version_legacy 0)]"
      "[ash_data 1 2 (version_extended 1)]" "\<lambda>_. 1" 3 3 4]
  show ?thesis by (simp add: test_frames) blast
qed

text \<open>A test that runs \<open>getEui64\<close> after the prelude and gets the address, for frames read one by one.\<close>

lemma eui64_answered:
  assumes "after_prelude m s (chunks @ later)" "relays chunks 2 (awaited eui64_command) Extended fs (eui64_response 2 a)"
    and "m + length chunks \<le> n"
  shows "\<exists>s'. run_command n fake_ops eui64_command s = (Inr (GetEui64Response a), s') \<and>
    callbacks s' = callbacks_in (ProtocolVersion 0x0d) (all_carried fs) \<and> version s' = ProtocolVersion 0x0d \<and>
    pending_format s' \<noteq> Some Legacy \<and> next_rx_frame (ash s') = next_expected 2 fs \<and> settled 3 (m + length chunks) s' later"
  by (rule command_after_prelude [OF assms(1) eui64_usable eui64_answer(1,3)])
    (simp_all only: eui64_answer(2) assms(2,3))

lemma eui64_test:
  assumes "\<forall>f\<in>set fs. wf_frame f" "in_step 2 fs" "all_carried fs = us @ [eui64_response 2 a]"
    and "\<forall>u\<in>set us. \<not> is_answer (awaited eui64_command) Extended u"
    and "0 < clock 4" "2 \<le> n1" "3 \<le> n2" "3 + length fs \<le> n"
  shows "\<exists>s s'. connect clock n1 n2 fake_ops (fake_with_chunks (connected_prelude @ map wire_of fs @ later)) = Inr s \<and>
    version s = ProtocolVersion 0x0d \<and> run_command n fake_ops eui64_command s = (Inr (GetEui64Response a), s') \<and>
    callbacks s' = callbacks_in (ProtocolVersion 0x0d) us \<and> version s' = ProtocolVersion 0x0d \<and>
    pending_format s' \<noteq> Some Legacy \<and> next_rx_frame (ash s') = next_expected 2 fs \<and> settled 3 (3 + length fs) s' later"
proof -
  obtain s where s: "connect clock n1 n2 fake_ops (fake_with_chunks (connected_prelude @ map wire_of fs @ later)) = Inr s"
    "after_prelude 3 s (map wire_of fs @ later)"
    using prelude_as_scripted assms(5-7) by blast
  have "relays (map wire_of fs) 2 (awaited eui64_command) Extended fs (eui64_response 2 a)"
    by (rule relays_wires) (use assms(1-4) in auto)
  from eui64_answered [OF s(2) this, of n] assms(3,8) s show ?thesis
    by (auto simp: after_prelude_def callbacks_carried simp del: concat_eq_Nil_conv)
qed

text \<open>\<open>a_command_response_is_correlated_over_the_full_stack\<close>\<close>

lemma test_response_is_correlated:
  assumes "0 < clock 4" "2 \<le> n1" "3 \<le> n2" "4 \<le> n"
  shows "\<exists>s s'. connect clock n1 n2 fake_ops (fake_with_chunks (connected_prelude @ [ash_data 2 3 (eui64_response 2 DEVICE)])) = Inr s \<and>
    version s = ProtocolVersion 0x0d \<and> run_command n fake_ops eui64_command s = (Inr (GetEui64Response DEVICE), s')"
  using eui64_test [of "[Data 2 3 False (eui64_response 2 DEVICE)]" "[]" DEVICE clock n1 n2 n "[]"] assms
  by (simp add: test_frames) blast

text \<open>\<open>a_callback_before_the_response_does_not_answer_the_command\<close>\<close>

lemma test_callback_before_the_response:
  assumes "0 < clock 4" "2 \<le> n1" "3 \<le> n2" "5 \<le> n"
  shows "\<exists>s s'. connect clock n1 n2 fake_ops (fake_with_chunks (connected_prelude @
      [ash_data 2 3 (stack_status_frame 0x40 0x90), ash_data 3 3 (eui64_response 2 DEVICE)])) = Inr s \<and>
    run_command n fake_ops eui64_command s = (Inr (GetEui64Response DEVICE), s') \<and>
    callbacks s' = [StackStatus (SlStatus 0x90)]"
  using eui64_test [of "[Data 2 3 False (stack_status_frame 0x40 0x90), Data 3 3 False (eui64_response 2 DEVICE)]"
      "[stack_status_frame 0x40 0x90]" DEVICE clock n1 n2 n "[]"] assms
  by (simp add: test_frames) blast

text \<open>\<open>a_wrong_sequence_then_the_right_one_resolves_correctly\<close>\<close>

lemma test_wrong_sequence_then_right:
  assumes "0 < clock 4" "2 \<le> n1" "3 \<le> n2" "6 \<le> n"
  shows "\<exists>s s'. connect clock n1 n2 fake_ops (fake_with_chunks (connected_prelude @
      [ash_data 2 3 (eui64_response 0xfe (Eui64 0xdead)), ash_data 3 3 (stack_status_frame 0x42 0x90),
       ash_data 4 3 (eui64_response 2 DEVICE)])) = Inr s \<and>
    run_command n fake_ops eui64_command s = (Inr (GetEui64Response DEVICE), s')"
  using eui64_test [of "[Data 2 3 False (eui64_response 0xfe (Eui64 0xdead)), Data 3 3 False (stack_status_frame 0x42 0x90),
        Data 4 3 False (eui64_response 2 DEVICE)]"
      "[eui64_response 0xfe (Eui64 0xdead), stack_status_frame 0x42 0x90]" DEVICE clock n1 n2 n "[]"] assms
  by (simp add: test_frames) blast

text \<open>\<open>a_callback_after_the_response_is_still_delivered\<close> and \<open>poll_returns_empty_at_the_deadline_rather_than_failing\<close>\<close>

lemma poll_after_eui64:
  assumes "\<forall>g\<in>set gs. wf_frame g" "in_step 3 gs" "\<forall>u\<in>set (all_carried gs). \<not> is_answer (awaited eui64_command) Extended u"
    and "0 < clock 4" "2 \<le> n1" "3 \<le> n2" "4 \<le> n" "4 + length gs \<le> m"
  shows "\<exists>s s' s'' ps. connect clock n1 n2 fake_ops (fake_with_chunks (connected_prelude @ ash_data 2 3 (eui64_response 2 DEVICE) # map wire_of gs)) = Inr s \<and>
    run_command n fake_ops eui64_command s = (Inr (GetEui64Response DEVICE), s') \<and>
    poll m fake_ops s' = (Inr (callbacks_in (ProtocolVersion 0x0d) ps), s'') \<and> prefix ps (all_carried gs) \<and>
    (callbacks_in (ProtocolVersion 0x0d) ps \<noteq> [] \<or> ps = all_carried gs)"
proof -
  let ?f = "Data 2 3 False (eui64_response 2 DEVICE)"
  obtain s s' where s: "connect clock n1 n2 fake_ops (fake_with_chunks (connected_prelude @ map wire_of [?f] @ map wire_of gs)) = Inr s"
    "run_command n fake_ops eui64_command s = (Inr (GetEui64Response DEVICE), s')" "callbacks s' = []"
    "version s' = ProtocolVersion 0x0d" "pending_format s' \<noteq> Some Legacy" "next_rx_frame (ash s') = 3" "settled 3 4 s' (map wire_of gs)"
    using eui64_test [of "[?f]" "[]" DEVICE clock n1 n2 n "map wire_of gs"] assms(4-7)
    by (auto simp: test_frames next_expected_def)
  have "passes_over (map wire_of gs) (next_rx_frame (ash s')) (awaited eui64_command) Extended gs"
    by (rule passes_over_wires) (use assms(1-3) s(6) in auto)
  from poll_settled [OF s(7) this s(5), of m] s assms(8) show ?thesis
    by (auto simp: ash_data_def simp del: concat_eq_Nil_conv)
qed

lemma test_callback_after_the_response:
  assumes "0 < clock 4" "2 \<le> n1" "3 \<le> n2" "4 \<le> n" "5 \<le> m"
  shows "\<exists>s s' s''. connect clock n1 n2 fake_ops (fake_with_chunks (connected_prelude @
      [ash_data 2 3 (eui64_response 2 DEVICE), ash_data 3 3 (stack_status_frame 0x41 0x9c)])) = Inr s \<and>
    run_command n fake_ops eui64_command s = (Inr (GetEui64Response DEVICE), s') \<and>
    poll m fake_ops s' = (Inr [StackStatus (SlStatus 0x9c)], s'')"
  using poll_after_eui64 [of "[Data 3 3 False (stack_status_frame 0x41 0x9c)]" clock n1 n2 n m] assms
  by (auto simp: test_frames prefix_Cons)

lemma test_poll_returns_empty:
  assumes "0 < clock 4" "2 \<le> n1" "3 \<le> n2" "4 \<le> n" "4 \<le> m"
  shows "\<exists>s s' s''. connect clock n1 n2 fake_ops (fake_with_chunks (connected_prelude @ [ash_data 2 3 (eui64_response 2 DEVICE)])) = Inr s \<and>
    run_command n fake_ops eui64_command s = (Inr (GetEui64Response DEVICE), s') \<and> poll m fake_ops s' = (Inr [], s'')"
  using poll_after_eui64 [of "[]" clock n1 n2 n m] assms by auto

text \<open>\<open>a_response_for_the_wrong_command_does_not_resolve_this_one\<close> and \<open>an_unanswered_command_times_out_naming_itself\<close>\<close>

lemma eui64_unanswered:
  assumes "\<forall>f\<in>set fs. wf_frame f" "in_step 2 fs" "\<forall>u\<in>set (all_carried fs). \<not> is_answer (awaited eui64_command) Extended u"
    and "0 < clock 4" "2 \<le> n1" "3 \<le> n2"
  shows "\<exists>s s'. connect clock n1 n2 fake_ops (fake_with_chunks (connected_prelude @ map wire_of fs)) = Inr s \<and>
    run_command n fake_ops eui64_command s = (Inl (Timeout ID_GET_EUI64), s')"
proof -
  obtain s where s: "connect clock n1 n2 fake_ops (fake_with_chunks (connected_prelude @ map wire_of fs)) = Inr s"
    "after_prelude 3 s (map wire_of fs)"
    using prelude_as_scripted assms(4-6) by blast
  note a = s(2) [unfolded after_prelude_def]
  obtain s0 where s0: "send_command fake_ops eui64_command s = (Inr (), s0)" using command_ready(3) [OF s(2) eui64_usable] by blast
  have p: "passes_over (map wire_of fs) (next_rx_frame (ash s)) (registered eui64_command s) (choose_format eui64_command s) fs"
    by (rule passes_over_wires) (use assms(1-3) a command_ready(1,2) [OF s(2) eui64_usable] in auto)
  have "settled 2 3 s (map wire_of fs)" using a by simp
  from unanswered_settled [OF s0 this p, of n] s(1) show ?thesis by (auto simp: get_eui64_command_def)
qed

lemma test_wrong_command:
  assumes "0 < clock 4" "2 \<le> n1" "3 \<le> n2"
  shows "\<exists>s s'. connect clock n1 n2 fake_ops (fake_with_chunks (connected_prelude @ [ash_data 2 3 (version_extended 2)])) = Inr s \<and>
    run_command n fake_ops eui64_command s = (Inl (Timeout ID_GET_EUI64), s')"
  using eui64_unanswered [of "[Data 2 3 False (version_extended 2)]" clock n1 n2 n] assms by (simp add: test_frames)

lemma test_unanswered_names_itself:
  assumes "0 < clock 4" "2 \<le> n1" "3 \<le> n2"
  shows "\<exists>s s'. connect clock n1 n2 fake_ops (fake_with_chunks connected_prelude) = Inr s \<and>
    run_command n fake_ops eui64_command s = (Inl (Timeout ID_GET_EUI64), s')"
  using eui64_unanswered [of "[]" clock n1 n2 n] assms by simp

text \<open>\<open>negotiation_requires_the_second_exchange\<close>\<close>

lemma test_second_exchange_required:
  assumes "0 < clock 4" "2 \<le> n1"
  shows "connect clock n1 n2 fake_ops (fake_with_chunks [rstack, ash_data 0 1 (version_legacy 0)]) = Inl (Timeout ID_VERSION)"
proof -
  let ?f = "Data 0 1 False (version_legacy 0)"
  have "wf_frame ?f" by (simp add: version_legacy_def const_defs)
  then have r: "relays [ash_data 0 1 (version_legacy 0)] 0 (version_pending 0) Legacy [?f] (version_payload Legacy 0 V13)"
    unfolding version_payloads [symmetric] by (intro relays_wires [where us = "[]"]) (simp_all add: ash_data_def)
  have p: "passes_over [] (next_expected 0 [?f]) (version_pending 1) Extended []" by simp
  have f: "feed (concat [rstack]) decoder_new = ([Frame (RstAck 2 0x0b)], decoder_new)"
    using feed_wire [of "RstAck 2 0x0b"] by (simp add: rstack_def)
  show ?thesis
    by (rule connect_unconfirmed [OF _ _ _ _ f _ _ _ _ _ r p, where qs = "[]"])
      (use assms in \<open>simp_all add: fake_with_chunks_def healthy_def is_supported_def const_defs\<close>)
qed

text \<open>\<open>a_frame_split_across_reads_is_still_correlated\<close>: every byte in its own chunk.\<close>

lemma concat_bytes: "concat (map (\<lambda>b. [b]) bs) = bs"
  by (induction bs) simp_all

lemma test_split_across_reads:
  fixes bs :: bytes
  defines "bs \<equiv> concat connected_prelude @ ash_data 2 3 (eui64_response 2 DEVICE)"
  assumes "length bs \<le> clock 4" "length bs \<le> n1" "length bs \<le> n2" "length bs \<le> n"
  shows "\<exists>s s'. connect clock n1 n2 fake_ops (fake_with_chunks (map (\<lambda>b. [b]) bs)) = Inr s \<and>
    run_command n fake_ops eui64_command s = (Inr (GetEui64Response DEVICE), s')"
proof -
  let ?one = "map (\<lambda>b. [b])"
  let ?f = "Data 2 3 False (eui64_response 2 DEVICE)"
  have "relays (?one (wire_of ?f)) 2 (awaited eui64_command) Extended [?f] (eui64_response 2 DEVICE)"
    by (rule relays_wires [where us = "[]"]) (simp_all add: concat_bytes payloads_fit)
  then have "relays (?one (wire_of ?f)) 2 (awaited eui64_command) Extended [?f] (response_payload 2 (command_id eui64_command) (to_wire DEVICE))"
    by (simp only: eui64_answer(2))
  from full_stack [OF concat_bytes concat_bytes concat_bytes eui64_usable eui64_answer(1,3) this, of clock n1 n2 n] assms
  show ?thesis by (auto simp: connected_prelude_def ash_data_def)
qed

text \<open>
  \<open>a_command_is_refused_when_the_negotiated_version_lacks_it\<close>: its control, \<open>version\<close>, is available at
  every version, so what it comes to is the timeout.
\<close>

lemma test_version_is_not_refused:
  assumes "0 < clock 4" "2 \<le> n1" "3 \<le> n2"
  shows "\<exists>s s'. connect clock n1 n2 fake_ops (fake_with_chunks connected_prelude) = Inr s \<and>
    run_command n fake_ops (version_command (Version PREFERRED)) s = (Inl (Timeout ID_VERSION), s')"
proof -
  obtain s where s: "connect clock n1 n2 fake_ops (fake_with_chunks (connected_prelude @ [])) = Inr s" "after_prelude 3 s []"
    using prelude_as_scripted assms by blast
  note a = s(2) [unfolded after_prelude_def]
  have "passes_over [] (next_rx_frame (ash s)) (version_pending (next_seq (correlator s))) fmt []" for fmt by simp
  from version_unanswered [OF _ _ refl this] a s(1) show ?thesis by auto
qed

end
