(* ===== verification/Serial.thy ===== *)
theory Serial
  imports Transport
begin

text \<open>
  The serial port (\<open>transport/serial.rs\<close>). The stream of \<open>tokio-serial\<close> is a parameter: a record of
  the four calls that the transport makes. What the transport relies on of them is the predicate
  \<open>faithful\<close>, from their documentation; under it the transport is a \<open>byte_pipe\<close>, so that what is
  proved of the runtime over any byte pipe holds over a serial port.
\<close>

section \<open>The stream\<close>

datatype flow_control = Hardware | NoFlowControl

text \<open>
  \<open>d_open\<close> is the builder with its settings, \<open>d_read\<close> fills a buffer from the front and returns how
  many bytes it put there; a read may be pending when the caller stops waiting. Errors are their
  texts.
\<close>

record 'd driver =
  d_open :: "string \<Rightarrow> u32 \<Rightarrow> flow_control \<Rightarrow> string + 'd"
  d_write_all :: "bytes \<Rightarrow> 'd \<Rightarrow> (string + unit) \<times> 'd"
  d_flush :: "'d \<Rightarrow> (string + unit) \<times> 'd"
  d_read :: "bytes \<Rightarrow> 'd \<Rightarrow> (string + nat) option \<times> bytes \<times> 'd"

text \<open>
  \<open>faithful d out\<close>: \<open>out\<close> is what has gone out to the port. A complete write appends the bytes, a
  failed one a part of them; flushing and reading write nothing; a read fills at most the buffer
  and keeps its length.
\<close>

definition faithful :: "'d driver \<Rightarrow> ('d \<Rightarrow> bytes) \<Rightarrow> bool" where
  "faithful d out \<longleftrightarrow>
     (\<forall>bs s u s'. d_write_all d bs s = (Inr u, s') \<longrightarrow> out s' = out s @ bs) \<and>
     (\<forall>bs s e s'. d_write_all d bs s = (Inl e, s') \<longrightarrow> prefix (out s) (out s') \<and> prefix (out s') (out s @ bs)) \<and>
     (\<forall>s r s'. d_flush d s = (r, s') \<longrightarrow> out s' = out s) \<and>
     (\<forall>buf s r buf' s'. d_read d buf s = (r, buf', s') \<longrightarrow> out s' = out s \<and> length buf' = length buf \<and>
        (\<forall>n. r = Some (Inr n) \<longrightarrow> n \<le> length buf))"

section \<open>The transport\<close>

record serial_settings =
  baud :: u32
  rtscts :: bool

definition default_settings :: serial_settings where
  "default_settings = \<lparr>baud = 115200, rtscts = False\<rparr>"

record 'd serial_transport =
  stream :: 'd
  buffer :: bytes

definition serial_open :: "'d driver \<Rightarrow> string \<Rightarrow> serial_settings \<Rightarrow> transport_error + 'd serial_transport" where
  "serial_open d path settings =
     (case d_open d path (baud settings) (if rtscts settings then Hardware else NoFlowControl) of
        Inl e \<Rightarrow> Inl (Open path e)
      | Inr s \<Rightarrow> Inr \<lparr>stream = s, buffer = replicate 1024 0\<rparr>)"

definition serial_write :: "'d driver \<Rightarrow> bytes \<Rightarrow> 'd serial_transport \<Rightarrow> (transport_error + unit) \<times> 'd serial_transport" where
  "serial_write d bs t =
     (case d_write_all d bs (stream t) of
        (Inl e, s) \<Rightarrow> (Inl (Io ''write'' e), t\<lparr>stream := s\<rparr>)
      | (Inr _, s) \<Rightarrow>
          (case d_flush d s of
             (Inl e, s') \<Rightarrow> (Inl (Io ''flush'' e), t\<lparr>stream := s'\<rparr>)
           | (Inr _, s') \<Rightarrow> (Inr (), t\<lparr>stream := s'\<rparr>)))"

definition serial_read :: "'d driver \<Rightarrow> 'd serial_transport \<Rightarrow> read_result \<times> 'd serial_transport" where
  "serial_read d t =
     (let (r, buf, s) = d_read d (buffer t) (stream t);
          t' = t\<lparr>stream := s, buffer := buf\<rparr>
      in case r of
           None \<Rightarrow> (ReadPending, t')
         | Some (Inl e) \<Rightarrow> (ReadFailed (Io ''read'' e), t')
         | Some (Inr n) \<Rightarrow>
             if n = 0 then (ReadFailed TransportClosed, t')
             else (ReadOk (if n \<le> length buf then take n buf else []), t'))"

definition serial_ops :: "'d driver \<Rightarrow> 'd serial_transport transport_ops" where
  "serial_ops d = \<lparr>t_write = serial_write d, t_read = serial_read d\<rparr>"

section \<open>The contract\<close>

lemma serial_write_ok:
  assumes "faithful d out" "serial_write d bs t = (Inr u, t')"
  shows "out (stream t') = out (stream t) @ bs"
  using assms by (fastforce simp: serial_write_def faithful_def split: prod.splits sum.splits)

lemma serial_write_failed:
  assumes "faithful d out" "serial_write d bs t = (Inl e, t')"
  shows "prefix (out (stream t')) (out (stream t) @ bs) \<and> prefix (out (stream t)) (out (stream t'))"
proof -
  obtain r s where w: "d_write_all d bs (stream t) = (r, s)" by (metis surj_pair)
  show ?thesis
  proof (cases r)
    case (Inl x)
    with assms w show ?thesis by (fastforce simp: serial_write_def faithful_def)
  next
    case (Inr x)
    with assms(1) w have "out s = out (stream t) @ bs" by (simp add: faithful_def)
    moreover obtain q s' where f: "d_flush d s = (q, s')" by (metis surj_pair)
    then have "out s' = out s" using assms(1) unfolding faithful_def by blast
    ultimately show ?thesis using assms(2) w Inr f by (auto simp: serial_write_def split: sum.splits)
  qed
qed

lemma serial_read_result:
  assumes "faithful d out" "serial_read d t = (r, t')"
  shows "out (stream t') = out (stream t) \<and> length (buffer t') = length (buffer t) \<and>
    (\<forall>bs. r = ReadOk bs \<longrightarrow> bs \<noteq> [] \<and> length bs \<le> length (buffer t))"
proof -
  obtain q buf s where rd: "d_read d (buffer t) (stream t) = (q, buf, s)" by (rule prod_cases3)
  with assms(1) have l: "out s = out (stream t)" "length buf = length (buffer t)"
    "\<And>n. q = Some (Inr n) \<Longrightarrow> n \<le> length (buffer t)"
    unfolding faithful_def by blast+
  show ?thesis
    using assms(2) rd l by (cases q; cases "the q") (auto simp: serial_read_def Let_def split: if_splits)
qed

text \<open>
  C30. A serial port is a byte pipe: over any stream that does what its documentation says, a write
  that succeeds has put out exactly its bytes, a failed one a part of them, and reading puts
  nothing out. A read that succeeds has brought at least one byte and at most what the buffer
  holds, and the buffer keeps its size: a closed port is an error and not an empty read that the
  read loop would repeat.
\<close>

theorem serial_port_is_a_byte_pipe:
  assumes "faithful d out"
  shows "byte_pipe (serial_ops d) (\<lambda>t. out (stream t)) \<and>
    (\<forall>t r t'. t_read (serial_ops d) t = (r, t') \<longrightarrow> length (buffer t') = length (buffer t) \<and>
      (\<forall>bs. r = ReadOk bs \<longrightarrow> bs \<noteq> [] \<and> length bs \<le> length (buffer t)))"
proof (rule conjI)
  show "byte_pipe (serial_ops d) (\<lambda>t. out (stream t))"
    by unfold_locales
      (use assms serial_write_ok serial_write_failed serial_read_result in \<open>fastforce simp: serial_ops_def\<close>)+
  show "\<forall>t r t'. t_read (serial_ops d) t = (r, t') \<longrightarrow> length (buffer t') = length (buffer t) \<and>
      (\<forall>bs. r = ReadOk bs \<longrightarrow> bs \<noteq> [] \<and> length bs \<le> length (buffer t))"
    using serial_read_result [OF assms] by (simp add: serial_ops_def)
qed

text \<open>A stream that records what is written and reads back a script.\<close>

definition tape :: "(bytes list \<times> bytes) driver" where
  "tape = \<lparr>d_open = (\<lambda>_ _ _. Inr ([], [])),
     d_write_all = (\<lambda>bs (ins, sent). (Inr (), ins, sent @ bs)), d_flush = (\<lambda>s. (Inr (), s)),
     d_read = (\<lambda>buf (ins, sent). case ins of
        [] \<Rightarrow> (None, buf, ins, sent)
      | c # cs \<Rightarrow> (let got = take (length buf) c
                  in (Some (Inr (length got)), got @ drop (length got) buf, cs, sent)))\<rparr>"

lemma tape_faithful: "faithful tape snd"
  by (auto simp: faithful_def tape_def Let_def split: list.splits)

lemma serial_port_is_a_byte_pipe_witness:
  "byte_pipe (serial_ops tape) (\<lambda>t. snd (stream t)) \<and>
   (case t_read (serial_ops tape) \<lparr>stream = ([[1, 2]], []), buffer = replicate 1024 0\<rparr> of
      (ReadOk bs, _) \<Rightarrow> bs \<noteq> [] \<and> length bs \<le> 1024 | _ \<Rightarrow> False)"
proof -
  let ?t = "\<lparr>stream = ([[1, 2]], []), buffer = replicate 1024 0\<rparr>"
  obtain bs t' where "t_read (serial_ops tape) ?t = (ReadOk bs, t')"
    by (simp add: serial_ops_def serial_read_def tape_def)
  with serial_port_is_a_byte_pipe [OF tape_faithful] show ?thesis by fastforce
qed

end
