(* ===== verification/Texts.thy ===== *)
theory Texts
  imports TypesSecurity EzspFrame EzspCallback
begin

text \<open>
  What the program prints: the implementations of \<open>Display\<close> and \<open>Debug\<close> of the protocol's types and
  the messages of the errors. The formats of Rust that they use are written out: \<open>{}\<close> of a number
  and \<open>{:#0wx}\<close>, hexadecimal with the prefix \<open>0x\<close> and zeros up to \<open>w\<close> characters. Addresses, frame
  ids and statuses can be read back from what is printed; for a key the text is
  the same whatever the key.
\<close>

section \<open>Numbers\<close>

fun decimal :: "nat \<Rightarrow> string" where
  "decimal n = (if n < 10 then [char_of (48 + n)] else decimal (n div 10) @ [char_of (48 + n mod 10)])"

declare decimal.simps [simp del]

definition hex_digit :: "nat \<Rightarrow> char" where
  "hex_digit d = char_of (if d < 10 then 48 + d else 87 + d)"

fun hex_digits :: "nat \<Rightarrow> string" where
  "hex_digits n = (if n < 16 then [hex_digit n] else hex_digits (n div 16) @ [hex_digit (n mod 16)])"

declare hex_digits.simps [simp del]

definition hex_text :: "nat \<Rightarrow> nat \<Rightarrow> string" where
  "hex_text w n = ''0x'' @ replicate (w - 2 - length (hex_digits n)) (CHR ''0'') @ hex_digits n"

text \<open>Reading such a number back.\<close>

definition digit_value :: "char \<Rightarrow> nat" where
  "digit_value c = (if of_char c < (58 :: nat) then of_char c - 48 else of_char c - 87)"

definition hex_value :: "string \<Rightarrow> nat" where
  "hex_value = foldl (\<lambda>n c. 16 * n + digit_value c) 0"

lemma digit_value_hex_digit [simp]: "d < 16 \<Longrightarrow> digit_value (hex_digit d) = d"
  by (simp add: digit_value_def hex_digit_def)

lemma hex_value_snoc: "hex_value (s @ [c]) = 16 * hex_value s + digit_value c"
  by (simp add: hex_value_def)

lemma hex_value_zeros [simp]: "hex_value (replicate k (CHR ''0'') @ s) = hex_value s"
proof -
  have "foldl (\<lambda>n c. 16 * n + digit_value c) 0 (replicate k (CHR ''0'')) = 0"
    by (induction k) (simp_all add: digit_value_def)
  then show ?thesis by (simp add: hex_value_def)
qed

lemma hex_value_digits [simp]: "hex_value (hex_digits n) = n"
proof (induction n rule: hex_digits.induct)
  case (1 n)
  then show ?case
    by (subst hex_digits.simps) (auto simp: hex_value_snoc, simp add: hex_value_def)
qed

lemma hex_value_text: "hex_value (drop 2 (hex_text w n)) = n"
  by (simp add: hex_text_def)

lemma hex_text_inj: "hex_text w n = hex_text w m \<longleftrightarrow> n = m"
  by (metis hex_value_text)

lemma length_hex_digits: "n < 16 ^ k \<Longrightarrow> 0 < k \<Longrightarrow> length (hex_digits n) \<le> k"
proof (induction n arbitrary: k rule: hex_digits.induct)
  case (1 n)
  show ?case
  proof (cases "n < 16")
    case True
    with 1(3) show ?thesis by (subst hex_digits.simps) simp
  next
    case False
    then obtain j where j: "k = Suc j" "0 < j" using 1(2,3) by (cases k; cases "k - 1") auto
    with 1(2) have "n div 16 < 16 ^ j" by (simp add: less_mult_imp_div_less mult.commute)
    with 1(1) [OF False _ j(2)] j False show ?thesis by (subst hex_digits.simps) simp
  qed
qed

text \<open>A number that fits is printed with exactly the width asked for.\<close>

lemma length_hex_text: "n < 16 ^ k \<Longrightarrow> 0 < k \<Longrightarrow> length (hex_text (k + 2) n) = k + 2"
  using length_hex_digits [of n k] by (simp add: hex_text_def)

section \<open>Types\<close>

definition version_text :: "protocol_version \<Rightarrow> string" where
  "version_text v = ''v'' @ decimal (unat (raw v))"

definition frame_id_text :: "frame_id \<Rightarrow> string" where
  "frame_id_text i =
     (case frame_id_name i of
        Some name \<Rightarrow> name @ '' ('' @ hex_text 6 (unat (id_raw i)) @ '')''
      | None \<Rightarrow> ''frame '' @ hex_text 6 (unat (id_raw i)))"

definition status_name :: "sl_status \<Rightarrow> string option" where
  "status_name s =
     (if s = STATUS_OK then Some ''OK''
      else if s = STATUS_FAIL then Some ''FAIL''
      else if s = STATUS_INVALID_PARAMETER then Some ''INVALID_PARAMETER''
      else if s = STATUS_INVALID_STATE then Some ''INVALID_STATE''
      else if s = STATUS_NOT_SUPPORTED then Some ''NOT_SUPPORTED''
      else if s = STATUS_NOT_JOINED then Some ''NOT_JOINED''
      else if s = STATUS_NETWORK_UP then Some ''NETWORK_UP''
      else if s = STATUS_NETWORK_DOWN then Some ''NETWORK_DOWN''
      else None)"

definition status_text :: "sl_status \<Rightarrow> string" where
  "status_text s =
     (case status_name s of
        Some name \<Rightarrow> name @ '' ('' @ hex_text 6 (unat (status_raw s)) @ '')''
      | None \<Rightarrow> ''status '' @ hex_text 6 (unat (status_raw s)))"

definition eui64_text :: "eui64 \<Rightarrow> string" where
  "eui64_text e = hex_text 18 (unat (eui64_raw e))"

text \<open>\<open>Debug\<close> of the two addresses is their \<open>Display\<close>.\<close>

definition eui64_debug :: "eui64 \<Rightarrow> string" where
  "eui64_debug e = eui64_text e"

definition node_id_text :: "node_id \<Rightarrow> string" where
  "node_id_text n = hex_text 6 (unat (node_raw n))"

definition node_id_debug :: "node_id \<Rightarrow> string" where
  "node_id_debug n = hex_text 6 (unat (node_raw n))"

definition network_status_text :: "network_status \<Rightarrow> string" where
  "network_status_text s =
     (if s = NO_NETWORK then ''no network''
      else if s = JOINING then ''joining''
      else if s = JOINED_NETWORK then ''joined''
      else if s = JOINED_NETWORK_NO_PARENT then ''joined, no parent''
      else if s = LEAVING_NETWORK then ''leaving''
      else ''network status '' @ hex_text 4 (unat (network_status_raw s)))"

definition security_key_debug :: "security_key \<Rightarrow> string" where
  "security_key_debug k = ''SecurityKey(redacted)''"

definition security_key_text :: "security_key \<Rightarrow> string" where
  "security_key_text k = ''<redacted>''"

section \<open>Errors\<close>

fun ash_error_text :: "ash_error \<Rightarrow> string" where
  "ash_error_text (BadCrc a b) =
     ''ASH CRC mismatch: computed '' @ hex_text 6 (unat a) @ '', frame carried '' @ hex_text 6 (unat b)"
| "ash_error_text (TooShort n m) = ''ASH frame is '' @ decimal n @ '' bytes, shorter than the minimum '' @ decimal m"
| "ash_error_text (TooLong n m) = ''ASH frame is '' @ decimal n @ '' bytes, longer than the maximum '' @ decimal m"
| "ash_error_text (InvalidControl c n) =
     ''ASH control byte '' @ hex_text 4 (unat c) @ '' is not a valid frame of '' @ decimal n @ '' bytes''"
| "ash_error_text Cancelled = ''the NCP cancelled the frame in progress''"
| "ash_error_text Substituted = ''the NCP reported a corrupted frame''"
| "ash_error_text (AshNcpError v c) =
     ''the NCP reported error code '' @ hex_text 4 (unat c) @ '' (ASH version '' @ decimal (unat v) @ '')''"
| "ash_error_text (AshNcpReset v c) =
     ''the NCP reset with code '' @ hex_text 4 (unat c) @ '' (ASH version '' @ decimal (unat v) @ '')''"
| "ash_error_text ResetFailed = ''the NCP did not answer a reset within the allowed attempts''"
| "ash_error_text (OutOfSequence a b) =
     ''ASH frame number '' @ decimal (unat a) @ '' arrived while expecting '' @ decimal (unat b)"
| "ash_error_text AshNotConnected = ''ASH is not connected''"
| "ash_error_text AshTimeout = ''ASH timed out waiting for the NCP''"
| "ash_error_text (WindowFull n m) =
     ''the ASH send window is full ('' @ decimal n @ '' of '' @ decimal m @ '' frames unacknowledged)''"

fun ezsp_error_text :: "ezsp_error \<Rightarrow> string" where
  "ezsp_error_text (TruncatedFrame n m) =
     ''frame ended early: needed '' @ decimal n @ '' more bytes, '' @ decimal m @ '' available''"
| "ezsp_error_text (FrameTooLong n m) = ''frame is '' @ decimal n @ '' bytes; EZSP permits at most '' @ decimal m"
| "ezsp_error_text (PayloadTooLong n m) =
     ''payload is '' @ decimal n @ '' bytes; a length prefix holds at most '' @ decimal m"
| "ezsp_error_text (MalformedHeader why) = ''malformed frame header: '' @ why"
| "ezsp_error_text (TrailingBytes i n) =
     decimal n @ '' bytes left after decoding the response to '' @ frame_id_text i"
| "ezsp_error_text (UnsupportedVersion v) =
     ''the NCP speaks EZSP '' @ version_text v @ '', which this build does not support''"
| "ezsp_error_text (UnsupportedCommand i v) = frame_id_text i @ '' is not available in EZSP '' @ version_text v"
| "ezsp_error_text (UnexpectedResponse i j) =
     ''expected a response to '' @ frame_id_text i @ '', got '' @ frame_id_text j"
| "ezsp_error_text (SequenceMismatch n) = ''no command is waiting on sequence '' @ decimal (unat n)"
| "ezsp_error_text (UnknownEnum name n) = name @ '' has no variant for '' @ hex_text 4 (unat n)"
| "ezsp_error_text (Status s) = ''the NCP returned '' @ status_text s"
| "ezsp_error_text (Timeout i) = frame_id_text i @ '' timed out''"
| "ezsp_error_text (NcpReset i) = ''the NCP reset while '' @ frame_id_text i @ '' was pending''"
| "ezsp_error_text NotConnected = ''not connected to an NCP''"
| "ezsp_error_text (Transport why) = ''transport failure: '' @ why"
| "ezsp_error_text (Ash e) = ''ASH: '' @ ash_error_text e"

section \<open>Derived \<open>Debug\<close>\<close>

text \<open>The form that \<open>derive(Debug)\<close> gives structs, tuple structs and vectors of bytes.\<close>

fun separated :: "string \<Rightarrow> string list \<Rightarrow> string" where
  "separated sep [] = []"
| "separated sep [x] = x"
| "separated sep (x # y # ys) = x @ sep @ separated sep (y # ys)"

definition struct_debug :: "string \<Rightarrow> (string \<times> string) list \<Rightarrow> string" where
  "struct_debug name fs = name @ '' { '' @ separated '', '' (map (\<lambda>(f, v). f @ '': '' @ v) fs) @ '' }''"

definition number_debug :: "'a::len word \<Rightarrow> string" where
  "number_debug n = decimal (unat n)"

definition signed_debug :: "'a::len word \<Rightarrow> string" where
  "signed_debug n = (if sint n < 0 then ''-'' @ decimal (nat (- sint n)) else decimal (nat (sint n)))"

definition bytes_debug :: "bytes \<Rightarrow> string" where
  "bytes_debug bs = ''['' @ separated '', '' (map number_debug bs) @ '']''"

definition tuple_debug :: "string \<Rightarrow> 'a::len word \<Rightarrow> string" where
  "tuple_debug name n = name @ ''('' @ number_debug n @ '')''"

definition config_id_debug :: "config_id \<Rightarrow> string" where
  "config_id_debug i = tuple_debug ''ConfigId'' (config_raw i)"

definition policy_id_debug :: "policy_id \<Rightarrow> string" where
  "policy_id_debug i = tuple_debug ''PolicyId'' (policy_raw i)"

definition status_debug :: "sl_status \<Rightarrow> string" where
  "status_debug s = tuple_debug ''SlStatus'' (status_raw s)"

definition frame_id_debug :: "frame_id \<Rightarrow> string" where
  "frame_id_debug i = tuple_debug ''FrameId'' (id_raw i)"

definition aps_frame_debug :: "aps_frame \<Rightarrow> string" where
  "aps_frame_debug f = struct_debug ''ApsFrame''
     [(''profile_id'', number_debug (profile_id f)), (''cluster_id'', number_debug (cluster_id f)),
      (''source_endpoint'', number_debug (source_endpoint f)), (''destination_endpoint'', number_debug (destination_endpoint f)),
      (''options'', tuple_debug ''ApsOptions'' (options_raw (options f))), (''group_id'', number_debug (group_id f)),
      (''sequence'', number_debug (aps_sequence f))]"

fun callback_debug :: "callback \<Rightarrow> string" where
  "callback_debug (StackStatus s) = struct_debug ''StackStatus'' [(''status'', status_debug s)]"
| "callback_debug (TrustCenterJoin n e u d p) = struct_debug ''TrustCenterJoin''
     [(''node_id'', node_id_debug n), (''eui64'', eui64_debug e), (''device_update'', number_debug u),
      (''decision'', number_debug d), (''parent_node_id'', node_id_debug p)]"
| "callback_debug (IncomingMessage t f l r s b a ps) = struct_debug ''IncomingMessage''
     [(''message_type'', number_debug t), (''aps_frame'', aps_frame_debug f), (''last_hop_lqi'', number_debug l),
      (''last_hop_rssi'', signed_debug r), (''sender'', node_id_debug s), (''binding_index'', number_debug b),
      (''address_index'', number_debug a), (''payload'', bytes_debug ps)]"
| "callback_debug (MessageSent t i f tag s ps) = struct_debug ''MessageSent''
     [(''message_type'', number_debug t), (''index_or_destination'', number_debug i), (''aps_frame'', aps_frame_debug f),
      (''message_tag'', number_debug tag), (''status'', status_debug s), (''payload'', bytes_debug ps)]"
| "callback_debug (UnknownCallback i ps) = struct_debug ''Unknown''
     [(''frame_id'', frame_id_debug i), (''parameters'', bytes_debug ps)]"

section \<open>Reading back\<close>

text \<open>The hexadecimal number at the end of a text, before a closing parenthesis if there is one.\<close>

definition is_hex :: "char \<Rightarrow> bool" where
  "is_hex c \<longleftrightarrow> (let n = of_char c :: nat in (48 \<le> n \<and> n \<le> 57) \<or> (97 \<le> n \<and> n \<le> 102))"

definition last_number :: "string \<Rightarrow> nat" where
  "last_number s = hex_value (rev (takeWhile is_hex (rev (if last s = CHR '')'' then butlast s else s))))"

lemma is_hex_digit: "d < 16 \<Longrightarrow> is_hex (hex_digit d)"
  by (simp add: is_hex_def hex_digit_def)

lemma hex_digits_hex: "\<forall>c\<in>set (hex_digits n). is_hex c"
proof (induction n rule: hex_digits.induct)
  case (1 n)
  then show ?case by (subst hex_digits.simps) (auto simp: is_hex_digit)
qed

lemma hex_digits_not_empty [simp]: "hex_digits n \<noteq> []"
  by (subst hex_digits.simps) simp

lemma takeWhile_hex: "takeWhile is_hex (rev (pre @ hex_text w n)) = rev (replicate (w - 2 - length (hex_digits n)) (CHR ''0'') @ hex_digits n)"
proof -
  let ?ds = "replicate (w - 2 - length (hex_digits n)) (CHR ''0'') @ hex_digits n"
  have "\<forall>c\<in>set (rev ?ds). is_hex c" using hex_digits_hex [of n] by (auto simp: is_hex_def)
  then have "takeWhile is_hex (rev ?ds @ (CHR ''x'') # CHR ''0'' # rev pre) = rev ?ds"
    by (subst takeWhile_append2) (auto simp: is_hex_def)
  then show ?thesis by (simp add: hex_text_def)
qed

lemma last_hex_text: "last (pre @ hex_text w n) \<noteq> CHR '')''"
proof -
  have "is_hex (last (hex_digits n))" using hex_digits_hex [of n] by simp
  then show ?thesis by (auto simp: hex_text_def is_hex_def)
qed

lemma last_number_text: "last_number (pre @ hex_text w n) = n" "last_number (pre @ hex_text w n @ '')'') = n"
proof -
  show "last_number (pre @ hex_text w n) = n"
    using last_hex_text [of pre w n] by (simp add: last_number_def takeWhile_hex del: rev_append)
  have "butlast (pre @ hex_text w n @ '')'') = pre @ hex_text w n" "last (pre @ hex_text w n @ '')'') = CHR '')''"
    by (simp_all add: butlast_append)
  then show "last_number (pre @ hex_text w n @ '')'') = n"
    by (simp only: last_number_def if_True refl takeWhile_hex) simp
qed

lemma last_number_types:
  "last_number (eui64_text e) = unat (eui64_raw e)" "last_number (node_id_text n) = unat (node_raw n)"
  "last_number (frame_id_text i) = unat (id_raw i)" "last_number (status_text s) = unat (status_raw s)"
  using last_number_text(1) [of "[]"] last_number_text(1) [of "''frame ''"] last_number_text(1) [of "''status ''"]
    last_number_text(2) [of "x @ '' (''" for x]
  by (simp_all add: eui64_text_def node_id_text_def frame_id_text_def status_text_def split: option.split)

lemma text_width: "length (eui64_text e) = 18" "length (node_id_text n) = 6"
  using length_hex_text [of "unat (eui64_raw e)" 16] unsigned_less [of "eui64_raw e", where 'a = nat]
    length_hex_text [of "unat (node_raw n)" 4] unsigned_less [of "node_raw n", where 'a = nat]
  by (simp_all add: eui64_text_def node_id_text_def)

text \<open>
  What is printed identifies what it was printed from: two addresses, short addresses, frame ids or
  statuses with the same text are the same, and the texts of addresses have a fixed width.
\<close>

theorem texts_identify:
  "(eui64_text a = eui64_text b \<longleftrightarrow> a = b) \<and> (node_id_text m = node_id_text n \<longleftrightarrow> m = n) \<and>
   (frame_id_text i = frame_id_text j \<longleftrightarrow> i = j) \<and> (status_text s = status_text t \<longleftrightarrow> s = t) \<and>
   length (eui64_text a) = 18 \<and> length (node_id_text n) = 6"
proof -
  have "eui64_text a = eui64_text b \<Longrightarrow> a = b" by (metis last_number_types(1) eui64.expand word_unat_eq_iff)
  moreover have "node_id_text m = node_id_text n \<Longrightarrow> m = n" by (metis last_number_types(2) node_id.expand word_unat_eq_iff)
  moreover have "frame_id_text i = frame_id_text j \<Longrightarrow> i = j" by (metis last_number_types(3) frame_id.expand word_unat_eq_iff)
  moreover have "status_text s = status_text t \<Longrightarrow> s = t" by (metis last_number_types(4) sl_status.expand word_unat_eq_iff)
  ultimately show ?thesis using text_width by blast
qed

section \<open>Statuses of the narrow form\<close>

text \<open>
  C34. Below EZSP 14 a status is one byte of another enumeration, which is carried through as a number.
  Zero is \<open>OK\<close> in both. Four other values are those of constants of the wide form and get their names,
  although they mean something else; the constants for not being joined and for the network going
  up and down never occur.
\<close>

theorem narrow_status_names:
  assumes "\<not> has_wide_status v" "length rest < 2 ^ 62" "sl_status_decode (reader_new (b # rest) v) = (res, r)"
  shows "res = Inr (SlStatus (ucast b)) \<and>
    (status_name (SlStatus (ucast b)) \<noteq> None \<longleftrightarrow> b = 0 \<or> b = 1 \<or> b = 2 \<or> b = 0x0f \<or> b = 0x21) \<and>
    SlStatus (ucast b) \<notin> {STATUS_NOT_JOINED, STATUS_NETWORK_UP, STATUS_NETWORK_DOWN}"
proof -
  have "wf_reader (reader_new ([b] @ rest) v)" using assms(2) by (intro wf_reader_new) simp
  then have "res = Inr (SlStatus (ucast b))"
    using parses_sl_status_narrow [OF assms(1), of b] assms(3) by (auto simp: parses_def)
  moreover have e: "unat (ucast b :: u32) = unat b"
    using unsigned_less [of b, where 'a = nat] by (simp add: unsigned_ucast_eq take_bit_nat_eq_self)
  have "SlStatus (ucast b) = SlStatus n \<longleftrightarrow> unat b = unat n" for n by (simp add: word_unat_eq_iff e)
  ultimately show ?thesis
    using unsigned_less [of b, where 'a = nat]
    by (simp add: status_name_def const_defs word_unat_eq_iff [of b])
qed

lemma narrow_status_names_witness:
  "(\<exists>r. sl_status_decode (reader_new [2] (ProtocolVersion 13)) = (Inr (SlStatus 2), r)) \<and>
   status_text (SlStatus 2) = ''INVALID_STATE (0x0002)'' \<and>
   (\<exists>r. sl_status_decode (reader_new [0x93] (ProtocolVersion 13)) = (Inr (SlStatus 0x93), r)) \<and>
   status_text (SlStatus 0x93) = ''status 0x0093''"
proof -
  have v: "\<not> has_wide_status (ProtocolVersion 13)" by (simp add: has_wide_status_def const_defs)
  obtain a r b r' where ar: "sl_status_decode (reader_new [2] (ProtocolVersion 13)) = (a, r)"
    "sl_status_decode (reader_new [0x93] (ProtocolVersion 13)) = (b, r')" by (metis surj_pair)
  have "hex_text 6 2 = ''0x0002''" "hex_text 6 0x93 = ''0x0093''" by code_simp+
  with narrow_status_names [OF v _ ar(1)] narrow_status_names [OF v _ ar(2)] ar show ?thesis
    by (simp add: status_text_def status_name_def const_defs)
qed

text \<open>The error of a command that was not answered names it (\<open>getEui64\<close> for one).\<close>

lemma timeout_text:
  "ezsp_error_text (Timeout i) = ezsp_error_text (Timeout j) \<longleftrightarrow> i = j"
  "ezsp_error_text (Timeout ID_GET_EUI64) = ''getEui64 (0x0026) timed out''"
proof -
  show "ezsp_error_text (Timeout i) = ezsp_error_text (Timeout j) \<longleftrightarrow> i = j"
    by simp (metis last_number_types(3) frame_id.expand word_unat_eq_iff)
  have "hex_text 6 0x26 = ''0x0026''" by code_simp
  then show "ezsp_error_text (Timeout ID_GET_EUI64) = ''getEui64 (0x0026) timed out''"
    by (simp add: frame_id_text_def frame_id_name_def const_defs)
qed

end
