(* ===== verification/Outside.thy ===== *)
theory Outside
  imports Scenarios Serial Texts
begin

text \<open>
  The first example of the crate's documentation (\<open>lib.rs\<close>), and
  commands implemented outside the crate, through the public trait: the second example there
  (\<open>SetRadioPower\<close>) and the two of \<open>tests/extending_from_outside.rs\<close>. They are
  further instances of the contract \<open>ezsp_command\<close>, and the theorem on commands over the full stack
  applies to them as it does to the crate's own.
\<close>

section \<open>The first example\<close>

text \<open>
  \<open>Box<dyn Error>\<close> holds either error; the lines are what \<open>println!\<close> has printed when the function
  returns. \<open>clock\<close>, \<open>n1\<close>, \<open>n2\<close> and \<open>n\<close> are the deadlines.
\<close>

datatype boxed_error = FromTransport transport_error | FromEzsp ezsp_error

definition usage_example ::
  "'d driver \<Rightarrow> (nat \<Rightarrow> nat) \<Rightarrow> nat \<Rightarrow> nat \<Rightarrow> nat \<Rightarrow> (boxed_error + unit) \<times> string list" where
  "usage_example d clock n1 n2 n =
     (case serial_open d ''/dev/ttyUSB0'' default_settings of
        Inl e \<Rightarrow> (Inl (FromTransport e), [])
      | Inr t \<Rightarrow>
          (case connect clock n1 n2 (serial_ops d) t of
             Inl e \<Rightarrow> (Inl (FromEzsp e), [])
           | Inr s \<Rightarrow>
               (let line = ''EZSP '' @ version_text (version s) @ '', firmware '' @ hex_text 6 (unat (ncp_stack_version s)) in
                case run_command n (serial_ops d) (get_eui64_command GetEui64) s of
                  (Inl e, _) \<Rightarrow> (Inl (FromEzsp e), [line])
                | (Inr r, _) \<Rightarrow> (Inr (), [line, ''coordinator '' @ eui64_text (answer_eui64 r)]))))"

text \<open>It prints an address exactly when it succeeds, and nothing when the port or the connection fails.\<close>

lemma usage_example_lines:
  assumes "usage_example d clock n1 n2 n = (r, lines)"
  shows "length lines = 2 \<longleftrightarrow> r = Inr ()"
    and "serial_open d ''/dev/ttyUSB0'' default_settings = Inl e \<Longrightarrow> r = Inl (FromTransport e) \<and> lines = []"
  using assms by (auto simp: usage_example_def Let_def split: sum.splits prod.splits)

section \<open>setRadioPower\<close>

datatype set_radio_power = SetRadioPower (dbm: i8)
datatype set_radio_power_response = SetRadioPowerResponse (radio_power_status: sl_status)

text \<open>\<open>dbm\<close> is an \<open>i8\<close>, kept as its bits: \<open>as u8\<close> does not change them.\<close>

definition set_radio_power_encode :: "set_radio_power \<Rightarrow> encode" where
  "set_radio_power_encode c = writer_u8 (dbm c)"

definition set_radio_power_response_decode :: "set_radio_power_response decode" where
  "set_radio_power_response_decode = andthen sl_status_decode (\<lambda>s. ret (SetRadioPowerResponse s))"

definition set_radio_power_command :: "set_radio_power \<Rightarrow> set_radio_power_response command" where
  "set_radio_power_command c = \<lparr>command_id = FrameId 0x0099, available = default_available,
     params = set_radio_power_encode c, answer = set_radio_power_response_decode\<rparr>"

interpretation set_radio_power_cmd: ezsp_command set_radio_power_command
  by (rule ezsp_commandI)
    (auto simp: set_radio_power_command_def set_radio_power_encode_def set_radio_power_response_decode_def)

interpretation set_radio_power_answer: ezsp_fixed_decode set_radio_power_response_decode status_width
  unfolding set_radio_power_response_decode_def by (rule ezsp_fixed_decodeI) (auto intro: reads_exactly_end)

section \<open>getChildData\<close>

datatype get_child_data = GetChildData (child_index: u8)

record get_child_data_response =
  child_status :: sl_status
  child_eui64 :: eui64
  child_node_id :: node_id
  child_device_type :: u8

definition get_child_data_encode :: "get_child_data \<Rightarrow> encode" where
  "get_child_data_encode c = writer_u8 (child_index c)"

definition get_child_data_response_decode :: "get_child_data_response decode" where
  "get_child_data_response_decode =
     andthen sl_status_decode (\<lambda>s. andthen eui64_decode (\<lambda>e. andthen node_id_decode (\<lambda>n. andthen reader_u8 (\<lambda>d.
     ret \<lparr>child_status = s, child_eui64 = e, child_node_id = n, child_device_type = d\<rparr>))))"

definition get_child_data_command :: "get_child_data \<Rightarrow> get_child_data_response command" where
  "get_child_data_command c = \<lparr>command_id = FrameId 0x004a, available = default_available,
     params = get_child_data_encode c, answer = get_child_data_response_decode\<rparr>"

lemma ezsp_decode_get_child_data [intro, simp]: "ezsp_decode get_child_data_response_decode"
  unfolding get_child_data_response_decode_def by (intro ezsp_decode_andthen) auto

interpretation get_child_data_cmd: ezsp_command get_child_data_command
  by (rule ezsp_commandI) (auto simp: get_child_data_command_def get_child_data_encode_def)

interpretation get_child_data_answer: ezsp_fixed_decode get_child_data_response_decode "\<lambda>v. status_width v + 11"
proof (rule ezsp_fixed_decodeI)
  have "reads_exactly get_child_data_response_decode v (status_width v + (8 + (2 + (1 + 0))))" for v
    unfolding get_child_data_response_decode_def by (intro reads_exactly_andthen) auto
  then show "reads_exactly get_child_data_response_decode v (status_width v + 11)" for v by (simp add: eval_nat_numeral)
qed auto

lemma parses_get_child_data:
  assumes "\<not> has_wide_status v"
  shows "parses get_child_data_response_decode v ([st] @ to_wire e @ le_bytes 2 (node_raw n) @ [d] @ [])
    \<lparr>child_status = SlStatus (ucast st), child_eui64 = e, child_node_id = n, child_device_type = d\<rparr>"
  unfolding get_child_data_response_decode_def
  by (intro parses_andthen) (rule parses_sl_status_narrow assms parses_u8 parses_eui64 parses_node_id parses_ret)+

section \<open>A command that restricts itself\<close>

datatype only_on_new_firmware = OnlyOnNewFirmware

definition only_on_new_firmware_encode :: "only_on_new_firmware \<Rightarrow> encode" where
  "only_on_new_firmware_encode _ = ret ()"

definition only_on_new_firmware_command :: "only_on_new_firmware \<Rightarrow> unit command" where
  "only_on_new_firmware_command c = \<lparr>command_id = FrameId 0x0123, available = has_wide_status,
     params = only_on_new_firmware_encode c, answer = ret ()\<rparr>"

interpretation only_on_new_firmware_cmd: ezsp_command only_on_new_firmware_command
  by (rule ezsp_commandI) (auto simp: only_on_new_firmware_command_def only_on_new_firmware_encode_def)

section \<open>The tests\<close>

lemma outside_usable:
  "usable (get_child_data_command q)" "usable (set_radio_power_command p)"
  by (auto simp: sendable_def get_child_data_command_def get_child_data_encode_def set_radio_power_command_def
      set_radio_power_encode_def default_available_def is_supported_def const_defs intro: writes_u8)

text \<open>\<open>a_command_defined_outside_this_crate_round_trips_through_the_runtime\<close>\<close>

lemma test_outside_round_trip:
  assumes "0 < clock 4" "2 \<le> n1" "3 \<le> n2" "4 \<le> n"
  shows "\<exists>s s'. connect clock n1 n2 fake_ops (fake_with_chunks (connected_prelude @
      [ash_data 2 3 (response_payload 2 (FrameId 0x004a)
        [0x00, 0xff, 0xff, 0x62, 0x2d, 0x14, 0x38, 0xc1, 0xa4, 0x41, 0x3a, 0x02])])) = Inr s \<and>
    version s = ProtocolVersion 0x0d \<and> ncp_stack_version s = 0x7440 \<and>
    run_command n fake_ops (get_child_data_command (GetChildData 0)) s =
      (Inr \<lparr>child_status = SlStatus 0, child_eui64 = Eui64 0xa4c138142d62ffff, child_node_id = NodeId 0x3a41,
        child_device_type = 2\<rparr>, s')"
proof -
  let ?c = "get_child_data_command (GetChildData 0)"
  let ?ps = "[0x00, 0xff, 0xff, 0x62, 0x2d, 0x14, 0x38, 0xc1, 0xa4, 0x41, 0x3a, 0x02] :: bytes"
  let ?f = "Data 2 3 False (response_payload 2 (command_id ?c) ?ps)"
  have "\<not> has_wide_status (ProtocolVersion 0x0d)" by (simp add: has_wide_status_def const_defs)
  moreover have "to_wire (Eui64 0xa4c138142d62ffff) = [0xff, 0xff, 0x62, 0x2d, 0x14, 0x38, 0xc1, 0xa4]"
    "le_bytes 2 (node_raw (NodeId 0x3a41)) = [0x41, 0x3a]"
    by code_simp+
  ultimately
  have p: "parses (answer ?c) (ProtocolVersion 0x0d) ?ps \<lparr>child_status = SlStatus 0, child_eui64 = Eui64 0xa4c138142d62ffff,
      child_node_id = NodeId 0x3a41, child_device_type = 2\<rparr>"
    using parses_get_child_data [of _ 0 "Eui64 0xa4c138142d62ffff" "NodeId 0x3a41" 2]
    by (simp only: get_child_data_command_def command.simps append.simps) simp
  have r: "relays [wire_of ?f] 2 (awaited ?c) Extended [?f] (response_payload 2 (command_id ?c) ?ps)"
    by (rule relays_wires [where us = "[]"]) (simp_all add: response_payload_def const_defs)
  from full_stack [OF _ _ _ outside_usable(1) p _ r, of "[rstack]" "[ash_data 0 1 (version_legacy 0)]"
      "[ash_data 1 2 (version_extended 1)]" clock n1 n2 n] assms
  show ?thesis by (simp add: connected_prelude_def ash_data_def get_child_data_command_def) blast
qed

text \<open>\<open>an_externally_defined_command_can_restrict_itself_to_a_version_range\<close>: nothing is sent, nothing changes.\<close>

lemma test_outside_restricted:
  assumes "0 < clock 4" "2 \<le> n1" "3 \<le> n2"
  shows "\<exists>s. connect clock n1 n2 fake_ops (fake_with_chunks connected_prelude) = Inr s \<and>
    run_command n fake_ops (only_on_new_firmware_command OnlyOnNewFirmware) s =
      (Inl (UnsupportedCommand (FrameId 0x0123) (ProtocolVersion 0x0d)), s)"
proof -
  obtain s where s: "connect clock n1 n2 fake_ops (fake_with_chunks (connected_prelude @ [])) = Inr s" "after_prelude 3 s []"
    using prelude_as_scripted assms by blast
  then show ?thesis
    by (auto simp: after_prelude_def run_command_def send_command_def only_on_new_firmware_command_def andthen_def
        has_wide_status_def const_defs)
qed

end
