(* ===== verification/Captures.thy ===== *)
theory Captures
  imports Outside
begin

text \<open>
  The captures of real hardware (\<open>tests/hardware_regression.rs\<close>, a Sonoff dongle with EZSP 13),
  put through the model: each lemma evaluates the definitions on the captured bytes and gives the
  whole result, of which the test asserts a part.
\<close>

definition CAPTURED_COORDINATOR :: eui64 where
  "CAPTURED_COORDINATOR = Eui64 0x94a081fffed96e5c"

definition valve_message :: bytes where
  "valve_message =
     [0x00,
      0x04, 0x01, 0x11, 0xfc, 0x01, 0x01, 0x40, 0x01, 0x00, 0x00, 0x28,
      0xff, 0xe2,
      0x41, 0x3a,
      0xff, 0xff,
      0x1e,
      0x18, 0xd6, 0x0a, 0x1f, 0x50, 0x48, 0x20, 0x15, 0x00, 0x02, 0x00, 0x01, 0x00, 0x32, 0x2d,
      0xc3, 0xf1, 0x32, 0x2d, 0xc6, 0x49, 0x32, 0x2d, 0xc4, 0x0b, 0x01, 0x00, 0x00, 0x00, 0x00]"

definition valve_report :: bytes where
  "valve_report =
     [0x00,
      0x41, 0x3a,
      0x04, 0x01, 0x06, 0x00, 0x01, 0x01, 0x40, 0x01, 0x00, 0x00, 0x9b,
      0x01,
      0x00,
      0x00]"

section \<open>The exchange of versions\<close>

text \<open>What is sent: \<open>[0, 0, 0, 19]\<close> with the legacy header, then \<open>[1, 0, 1, 0, 0, 13]\<close> with the extended one.\<close>

lemma captured_version_requests:
  "request_bytes (version_command (Version PREFERRED)) 0 Legacy (writer_new PREFERRED) =
     (Inr (), \<lparr>writer_bytes = [0, 0, 0, 19], writer_version = PREFERRED\<rparr>)"
  "request_bytes (version_command (Version (ProtocolVersion 13))) 1 Extended (writer_new PREFERRED) =
     (Inr (), \<lparr>writer_bytes = [1, 0, 1, 0, 0, 13], writer_version = PREFERRED\<rparr>)"
  by (simp_all add: request_bytes_def write_header_def version_command_def version_encode_def andthen_def writer_u8_def
      writer_u16_def writer_put_def writer_new_def fits_legacy_def le_bytes_2 const_defs)

lemmas capture = parse_eq header_id_def const_defs

lemma captured_version_responses:
  "parse [0x00, 0x80, 0x00, 0x0d, 0x02, 0x40, 0x74] Legacy =
     Inr \<lparr>sequence = 0, frame_control = from_low_byte 0x80, frame_id = ID_VERSION, parameters = [0x0d, 0x02, 0x40, 0x74]\<rparr>"
  "parse [0x01, 0x80, 0x01, 0x00, 0x00, 0x0d, 0x02, 0x40, 0x74] Extended =
     Inr \<lparr>sequence = 1, frame_control = from_low_byte 0x80, frame_id = ID_VERSION, parameters = [0x0d, 0x02, 0x40, 0x74]\<rparr>"
  "direction (from_low_byte 0x80) = Response \<and> \<not> is_callback (from_low_byte 0x80)"
  by (simp_all add: capture from_low_byte_def)

text \<open>The rejection of a command after one exchange only: \<open>INVALID_COMMAND\<close>, \<open>ERROR_VERSION_NOT_SET\<close>.\<close>

lemma captured_rejection:
  "parse [0x02, 0x80, 0x01, 0x58, 0x00, 0x30] Extended =
     Inr \<lparr>sequence = 2, frame_control = from_low_byte 0x80, frame_id = FrameId 0x58, parameters = [0x30]\<rparr>"
  by (simp add: capture)

section \<open>Responses\<close>

lemma captured_eui64:
  "parse [0x02, 0x80, 0x01, 0x26, 0x00, 0x5c, 0x6e, 0xd9, 0xfe, 0xff, 0x81, 0xa0, 0x94] Extended =
     Inr \<lparr>sequence = 2, frame_control = from_low_byte 0x80, frame_id = ID_GET_EUI64,
       parameters = [0x5c, 0x6e, 0xd9, 0xfe, 0xff, 0x81, 0xa0, 0x94]\<rparr>"
  by (simp add: capture)

lemma captured_address:
  "\<exists>r. get_eui64_response_decode (reader_new [0x5c, 0x6e, 0xd9, 0xfe, 0xff, 0x81, 0xa0, 0x94] v) =
     (Inr (GetEui64Response CAPTURED_COORDINATOR), r) \<and> reader_is_empty r"
proof -
  have "to_wire CAPTURED_COORDINATOR = [0x5c, 0x6e, 0xd9, 0xfe, 0xff, 0x81, 0xa0, 0x94]" by code_simp
  with eui64_answer(1) [of v CAPTURED_COORDINATOR]
  have "parses get_eui64_response_decode v [0x5c, 0x6e, 0xd9, 0xfe, 0xff, 0x81, 0xa0, 0x94] (GetEui64Response CAPTURED_COORDINATOR)"
    by (simp add: get_eui64_command_def)
  then show ?thesis by (rule parses_whole) simp
qed

lemma captured_network_init:
  "parse [0x03, 0x80, 0x01, 0x17, 0x00, 0x93] Extended =
     Inr \<lparr>sequence = 3, frame_control = from_low_byte 0x80, frame_id = ID_NETWORK_INIT, parameters = [0x93]\<rparr>"
  "parse [0x04, 0x80, 0x01, 0x17, 0x00, 0x00] Extended =
     Inr \<lparr>sequence = 4, frame_control = from_low_byte 0x80, frame_id = ID_NETWORK_INIT, parameters = [0x00]\<rparr>"
  "\<not> is_ok (SlStatus 0x93)" "is_ok (SlStatus 0)"
  by (simp_all add: capture is_ok_def)

text \<open>One byte of status at EZSP 13, any value of it.\<close>

lemma captured_status:
  "\<exists>r. network_init_response_decode (reader_new [st] (ProtocolVersion 13)) =
     (Inr (NetworkInitResponse (SlStatus (ucast st))), r) \<and> reader_is_empty r"
proof -
  have "parses network_init_response_decode (ProtocolVersion 13) [st] (NetworkInitResponse (SlStatus (ucast st)))"
    unfolding network_init_response_decode_def
    by (rule parses_end [OF parses_sl_status_narrow]) (simp add: has_wide_status_def const_defs)
  then show ?thesis by (rule parses_whole) simp
qed

section \<open>Callbacks\<close>

lemma captured_stack_status:
  "parse [0x05, 0x90, 0x01, 0x19, 0x00, 0x90] Extended =
     Inr \<lparr>sequence = 5, frame_control = from_low_byte 0x90, frame_id = ID_STACK_STATUS_HANDLER, parameters = [0x90]\<rparr>"
  "is_callback (from_low_byte 0x90)"
  by (simp_all add: capture from_low_byte_def)

text \<open>
  The layouts are those of \<open>callback_wire\<close>, which the decoder inverts. In the valve's message the
  radio's seven bytes, the signed \<open>-30\<close> among them, are not in the payload.
\<close>

lemma captured_callback:
  assumes "callback_wire (ProtocolVersion 13) c = ps" "valid_callback (ProtocolVersion 13) c" "length ps < 2 ^ 63"
  shows "callback_decode (callback_frame_id c) ps (ProtocolVersion 13) = Inr c"
  using callback_decode_wire [of "ProtocolVersion 13" c "[]"] assms by simp

lemma captured_status_callback:
  "callback_decode ID_STACK_STATUS_HANDLER [0x90] (ProtocolVersion 13) = Inr (StackStatus (SlStatus 0x90))"
  using captured_callback [of "StackStatus (SlStatus 0x90)" "[0x90]"]
  by (simp add: has_wide_status_def const_defs)

lemma captured_message:
  "callback_decode ID_INCOMING_MESSAGE_HANDLER valve_message (ProtocolVersion 13) =
     Inr (IncomingMessage 0 \<lparr>profile_id = 0x0104, cluster_id = 0xfc11, source_endpoint = 1, destination_endpoint = 1,
       options = ApsOptions 0x0140, group_id = 0, aps_sequence = 0x28\<rparr> 0xff (- 30) (NodeId 0x3a41) 0xff 0xff
       (drop 19 valve_message))"
  using captured_callback [of "IncomingMessage 0 \<lparr>profile_id = 0x0104, cluster_id = 0xfc11, source_endpoint = 1,
      destination_endpoint = 1, options = ApsOptions 0x0140, group_id = 0, aps_sequence = 0x28\<rparr> 0xff (- 30)
      (NodeId 0x3a41) 0xff 0xff (drop 19 valve_message)" valve_message]
  by (simp add: valve_message_def le_bytes_2 aps_frame_wire_def)

lemma captured_report:
  "callback_decode ID_MESSAGE_SENT_HANDLER valve_report (ProtocolVersion 13) =
     Inr (MessageSent 0 0x3a41 \<lparr>profile_id = 0x0104, cluster_id = 6, source_endpoint = 1, destination_endpoint = 1,
       options = ApsOptions 0x0140, group_id = 0, aps_sequence = 155\<rparr> 1 (SlStatus 0) [])"
  using captured_callback [of "MessageSent 0 0x3a41 \<lparr>profile_id = 0x0104, cluster_id = 6, source_endpoint = 1,
      destination_endpoint = 1, options = ApsOptions 0x0140, group_id = 0, aps_sequence = 155\<rparr> 1 (SlStatus 0) []" valve_report]
  by (simp add: valve_report_def le_bytes_2 aps_frame_wire_def tag_wire_def has_wide_status_def
      has_wide_message_tag_def const_defs)

lemma captured_payload: "length (drop 19 valve_message) = 30" "hd (drop 19 valve_message) = 0x18"
  by (simp_all add: valve_message_def)

section \<open>The layer below\<close>

text \<open>The bootstrap \<open>version\<close> through the ASH encoder and decoder, and the RSTACK.\<close>

lemma captured_ash_round_trip:
  "feed (wire_of (Data 0 0 False [0, 0, 0, 0x13])) decoder_new = ([Frame (Data 0 0 False [0, 0, 0, 0x13])], decoder_new)"
  "feed (wire_of (RstAck 2 0x0b)) decoder_new = ([Frame (RstAck 2 0x0b)], decoder_new)"
  by (rule feed_wire; simp add: const_defs)+

end
