(* ===== verification/Fuzz.thy ===== *)
theory Fuzz
  imports AshDecoder EzspCallback EzspFrame
begin

text \<open>
  The fuzz targets (\<open>fuzz/fuzz_targets\<close>) as functions of the bytes they are given, which return what
  the target throws away, and what holds of it for every input: the decoder does not depend on the
  division into chunks and holds at most one frame, the parsers accept exactly the inputs that are
  long enough, and a callback with an unknown id is carried, not refused.
\<close>

section \<open>ASH frames\<close>

text \<open>\<open>data.chunks(7)\<close>\<close>

fun chunks7 :: "bytes \<Rightarrow> bytes list" where
  "chunks7 data = (if data = [] then [] else take 7 data # chunks7 (drop 7 data))"

declare chunks7.simps [simp del]

lemma concat_chunks7: "concat (chunks7 data) = data"
  by (induction data rule: chunks7.induct) (subst chunks7.simps, simp)

definition fuzz_ash :: "bytes \<Rightarrow> (decoded list \<times> decoder) \<times> (decoded list \<times> decoder)" where
  "fuzz_ash data = (feed_chunks (chunks7 data) decoder_new, feed data decoder_new)"

lemma fuzz_ash_chunking: "fst (fuzz_ash data) = snd (fuzz_ash data)"
  by (simp add: fuzz_ash_def feed_chunks_concat concat_chunks7)

text \<open>Between any two chunks no more than one frame is held.\<close>

lemma fuzz_ash_bounded: "length (partial (snd (feed_chunks (take k (chunks7 data)) decoder_new))) \<le> MAX_FRAME_WITH_CRC"
  unfolding feed_chunks_concat by (rule feed_bounded) (simp add: decoder_new_def)

section \<open>EZSP frames\<close>

definition fuzz_frame :: "bytes \<Rightarrow> (ezsp_error + ezsp_frame) \<times> (ezsp_error + ezsp_frame)" where
  "fuzz_frame data = (parse data Legacy, parse data Extended)"

lemma fuzz_frame_accepted:
  "(\<exists>f. fst (fuzz_frame data) = Inr f) \<longleftrightarrow> 3 \<le> length data \<and> length data \<le> 218"
  "(\<exists>f. snd (fuzz_frame data) = Inr f) \<longleftrightarrow> 5 \<le> length data \<and> length data \<le> 218"
  by (auto simp: fuzz_frame_def parse_eq const_defs)

text \<open>On the same bytes the two formats agree on the sequence number and the control byte.\<close>

lemma fuzz_frame_agree:
  assumes "fuzz_frame data = (Inr f, Inr g)"
  shows "sequence f = sequence g" "frame_control f = frame_control g" "parameters g = drop 2 (parameters f)"
  using assms by (auto simp: fuzz_frame_def parse_eq const_defs split: if_splits)

section \<open>Protocol types\<close>

definition fuzz_types :: "bytes \<Rightarrow> protocol_version \<Rightarrow>
    (ezsp_error + sl_status) \<times> (ezsp_error + aps_frame) \<times> (ezsp_error + eui64) \<times> (ezsp_error + node_id) \<times> (ezsp_error + bytes)" where
  "fuzz_types data v =
     (fst (sl_status_decode (reader_new data v)), fst (aps_frame_decode (reader_new data v)),
      fst (eui64_decode (reader_new data v)), fst (node_id_decode (reader_new data v)),
      fst (reader_length_prefixed (reader_new data v)))"

definition fuzz_types_decode :: "bytes \<Rightarrow> ((ezsp_error + sl_status) \<times> (ezsp_error + aps_frame) \<times>
    (ezsp_error + eui64) \<times> (ezsp_error + node_id) \<times> (ezsp_error + bytes)) list" where
  "fuzz_types_decode data = map (fuzz_types data) [ProtocolVersion 0x0d, ProtocolVersion 0x0e]"

context ezsp_fixed_decode begin

lemma succeeds_iff_width:
  assumes "length bs < 2 ^ 63"
  shows "(\<exists>x. fst (dec (reader_new bs v)) = Inr x) \<longleftrightarrow> width v \<le> length bs"
  using exact [of v] wf_reader_new [OF assms, of v] by (cases "width v \<le> length bs") (fastforce simp: reads_exactly_def)+

end

text \<open>
  Each type is decoded exactly when the input is as long as the type is at that version, and the
  length-prefixed bytes when they are all there.
\<close>

lemma fuzz_types_accepted:
  assumes "length data < 2 ^ 62" "fuzz_types data v = (st, aps, eui, node, bs)"
  shows "(\<exists>x. st = Inr x) \<longleftrightarrow> (if has_wide_status v then 4 else 1) \<le> length data"
    and "(\<exists>x. aps = Inr x) \<longleftrightarrow> 11 \<le> length data"
    and "(\<exists>x. eui = Inr x) \<longleftrightarrow> 8 \<le> length data"
    and "(\<exists>x. node = Inr x) \<longleftrightarrow> 2 \<le> length data"
    and "(\<exists>x. bs = Inr x) \<longleftrightarrow> (\<exists>len rest. data = len # rest \<and> unat len \<le> length rest)"
proof -
  have len: "length data < 2 ^ 63" using assms(1) by simp
  show "(\<exists>x. st = Inr x) \<longleftrightarrow> (if has_wide_status v then 4 else 1) \<le> length data"
    using status_fixed.succeeds_iff_width [OF len, of v] assms(2) by (auto simp: fuzz_types_def status_width_def)
  show "(\<exists>x. aps = Inr x) \<longleftrightarrow> 11 \<le> length data"
    using aps_frame_fixed.succeeds_iff_width [OF len, of v] assms(2) by (auto simp: fuzz_types_def)
  show "(\<exists>x. eui = Inr x) \<longleftrightarrow> 8 \<le> length data"
    using eui64_fixed.succeeds_iff_width [OF len, of v] assms(2) by (auto simp: fuzz_types_def)
  show "(\<exists>x. node = Inr x) \<longleftrightarrow> 2 \<le> length data"
    using node_id_fixed.succeeds_iff_width [OF len, of v] assms(2) by (auto simp: fuzz_types_def)
  show "(\<exists>x. bs = Inr x) \<longleftrightarrow> (\<exists>len rest. data = len # rest \<and> unat len \<le> length rest)"
  proof (cases data)
    case Nil
    have "reader_take 1 (reader_new [] v) = (Inl (TruncatedFrame 1 0), reader_new [] v)"
      using reader_take_eq [OF wf_reader_new [of "[]" v], of 1] by (simp add: peek_rest_def reader_new_def)
    with Nil show ?thesis using assms(2)
      by (auto simp: fuzz_types_def reader_length_prefixed_def reader_u8_def andthen_def)
  next
    case (Cons b rest)
    then show ?thesis using assms length_prefixed_eq [of rest b v] by (auto simp: fuzz_types_def split: if_splits)
  qed
qed

section \<open>Callbacks\<close>

definition fuzz_callback_id :: "u8 \<Rightarrow> frame_id" where
  "fuzz_callback_id sel =
     (if sel mod 5 = 0 then ID_STACK_STATUS_HANDLER
      else if sel mod 5 = 1 then ID_TRUST_CENTER_JOIN_HANDLER
      else if sel mod 5 = 2 then ID_INCOMING_MESSAGE_HANDLER
      else if sel mod 5 = 3 then ID_MESSAGE_SENT_HANDLER
      else FrameId (push_bit 8 (ucast sel)))"

definition fuzz_callback :: "bytes \<Rightarrow> (ezsp_error + callback) list" where
  "fuzz_callback data =
     (let (sel, ps) = (case data of [] \<Rightarrow> (0, []) | b # bs \<Rightarrow> (b, bs)) in
      map (callback_decode (fuzz_callback_id sel) ps) [ProtocolVersion 0x0d, ProtocolVersion 0x0e])"

lemma fuzz_callback_unknown:
  assumes "sel mod 5 = 4"
  shows "fuzz_callback (sel # ps) =
    [Inr (UnknownCallback (FrameId (push_bit 8 (ucast sel))) ps), Inr (UnknownCallback (FrameId (push_bit 8 (ucast sel))) ps)]"
proof -
  have z: "take_bit 8 (push_bit 8 (ucast sel) :: u16) = 0" by (simp add: take_bit_push_bit)
  have d: "take_bit 8 n \<noteq> 0 \<Longrightarrow> push_bit 8 (ucast sel) \<noteq> n" for n :: u16 using z by metis
  have "callback_decode (FrameId (push_bit 8 (ucast sel))) ps v = Inr (UnknownCallback (FrameId (push_bit 8 (ucast sel))) ps)" for v
    using d [of "0x19"] d [of "0x24"] d [of "0x3f"] d [of "0x45"] by (simp add: callback_decode_def const_defs)
  then show ?thesis using assms by (simp add: fuzz_callback_def fuzz_callback_id_def)
qed

text \<open>A report of the stack's status is one byte long at EZSP 13 and four at EZSP 14.\<close>

lemma fuzz_callback_status:
  assumes "sel mod 5 = 0" "length ps < 2 ^ 63"
  shows "map (\<lambda>r. case r of Inl _ \<Rightarrow> False | Inr _ \<Rightarrow> True) (fuzz_callback (sel # ps)) = [1 \<le> length ps, 4 \<le> length ps]"
proof -
  have "(case r of Inl _ \<Rightarrow> False | Inr _ \<Rightarrow> True) \<longleftrightarrow> (\<exists>x. r = Inr x)" for r :: "ezsp_error + callback" by (cases r) auto
  then show ?thesis
    using stack_status_cb.succeeds_iff_width [OF assms(2)] assms(1)
    by (simp add: fuzz_callback_def fuzz_callback_id_def callback_decode_def status_width_def has_wide_status_def const_defs)
qed

end
