(* ===== verification/Startup.thy ===== *)
theory Startup
  imports NcpCallbacks Texts
begin

text \<open>
  A bring-up of a coordinator on top of the runtime (\<open>examples/startup.rs\<close>): the commands it sends,
  in which order, what it records about each, and how it waits for callbacks. The time for each
  command and for each poll is a function of the state at the call, the length of a waiting loop
  a number of polls. What the program prints, line by line, is kept with the checklist.
\<close>

section \<open>The checklist and the console\<close>

text \<open>The checklist, and every \<open>println!\<close> so far.\<close>

record checklist =
  check_lines :: "(string \<times> bool) list"
  console :: "string list"

definition checklist_new :: checklist where
  "checklist_new = \<lparr>check_lines = [], console = []\<rparr>"

definition say :: "string \<Rightarrow> checklist \<Rightarrow> checklist" where
  "say text l = l\<lparr>console := console l @ [text]\<rparr>"

definition newline :: string where
  "newline = [CHR 0x0A]"

text \<open>\<open>{name:<34}\<close>\<close>

definition padded :: "string \<Rightarrow> string" where
  "padded name = name @ replicate (34 - length name) (CHR '' '')"

definition pass :: "string \<Rightarrow> checklist \<Rightarrow> checklist" where
  "pass name l = (say (padded name @ '' PASS'') l)\<lparr>check_lines := check_lines l @ [(name, True)]\<rparr>"

definition fail :: "string \<Rightarrow> string \<Rightarrow> checklist \<Rightarrow> checklist" where
  "fail name reason l = (say (padded name @ '' FAIL  '' @ reason) l)\<lparr>check_lines := check_lines l @ [(name, False)]\<rparr>"

definition report :: "checklist \<Rightarrow> checklist" where
  "report l = l\<lparr>console := console l @
     (newline @ ''=== '' @ decimal (length (filter snd (check_lines l))) @ ''/'' @ decimal (length (check_lines l)) @ '' passed ==='') #
     map (\<lambda>(name, ok). ''  '' @ (if ok then ''PASS'' else ''FAIL'') @ '' '' @ name) (check_lines l)\<rparr>"

text \<open>What the arms for an error record.\<close>

abbreviation fail_with :: "string \<Rightarrow> ezsp_error \<Rightarrow> checklist \<Rightarrow> checklist" where
  "fail_with name e \<equiv> fail name (ezsp_error_text e)"

section \<open>Arguments\<close>

record startup_args =
  permit_join :: bool
  close_join :: bool
  onoff :: "(node_id \<times> bool) option"

text \<open>\<open>str::parse::<u16>\<close>: an optional sign, then digits.\<close>

fun digits_value :: "string \<Rightarrow> nat \<Rightarrow> nat option" where
  "digits_value [] n = Some n"
| "digits_value (c # cs) n =
     (if 48 \<le> (of_char c :: nat) \<and> (of_char c :: nat) \<le> 57
      then digits_value cs (10 * n + (of_char c - 48)) else None)"

definition parse_u16 :: "string \<Rightarrow> u16 option" where
  "parse_u16 s =
     (let ds = (case s of c # cs \<Rightarrow> if c = CHR ''+'' then cs else s | [] \<Rightarrow> []) in
      if ds = [] then None
      else (case digits_value ds 0 of
              Some n \<Rightarrow> if n < 2 ^ 16 then Some (word_of_nat n) else None
            | None \<Rightarrow> None))"

definition nth_arg :: "string list \<Rightarrow> nat \<Rightarrow> string option" where
  "nth_arg args i = (if i < length args then Some (args ! i) else None)"

definition parse_onoff :: "string list \<Rightarrow> (node_id \<times> bool) option" where
  "parse_onoff args =
     (case position (\<lambda>a. a = ''--onoff'') args of
        None \<Rightarrow> None
      | Some i \<Rightarrow>
          (case nth_arg args (i + 1) of
             None \<Rightarrow> None
           | Some a \<Rightarrow>
               (case parse_u16 a of
                  None \<Rightarrow> None
                | Some nwk \<Rightarrow> Some (NodeId nwk, nth_arg args (i + 2) = Some ''on''))))"

definition parse_args :: "string list \<Rightarrow> string option \<times> startup_args" where
  "parse_args args =
     (find (\<lambda>a. take 2 a \<noteq> ''--'') args,
      \<lparr>permit_join = ''--permit-join'' \<in> set args, close_join = ''--close-join'' \<in> set args,
       onoff = parse_onoff args\<rparr>)"

section \<open>One command and its line\<close>

type_synonym 't app = "'t ncp \<times> checklist"

definition command_step ::
  "('t ncp \<Rightarrow> nat) \<Rightarrow> 't transport_ops \<Rightarrow> 'r command \<Rightarrow> ('r \<Rightarrow> checklist \<Rightarrow> checklist) \<Rightarrow>
   (ezsp_error \<Rightarrow> checklist \<Rightarrow> checklist) \<Rightarrow> 't app \<Rightarrow> 't app" where
  "command_step time ops c answered failed app =
     (let (r, s) = run_command (time (fst app)) ops c (fst app)
      in (s, case r of Inr x \<Rightarrow> answered x (snd app) | Inl e \<Rightarrow> failed e (snd app)))"

text \<open>The usual two arms for an answer with a status.\<close>

definition by_status :: "sl_status \<Rightarrow> string \<Rightarrow> checklist \<Rightarrow> checklist" where
  "by_status s name = (if is_ok s then pass name else fail name (status_text s))"

definition ask_eui64 :: "('t ncp \<Rightarrow> nat) \<Rightarrow> 't transport_ops \<Rightarrow> 't app \<Rightarrow> 't app" where
  "ask_eui64 time ops = command_step time ops (get_eui64_command GetEui64)
     (\<lambda>r l. pass ''getEui64 (and correlation past the bootstrap)'' (say (''   coordinator '' @ eui64_text (answer_eui64 r)) l))
     (fail_with ''getEui64 (and correlation past the bootstrap)'')"

definition coordinator_endpoint :: add_endpoint where
  "coordinator_endpoint = \<lparr>endpoint = 1, ep_profile_id = 0x0104, device_id = 0x0065, app_flags = 0,
     input_clusters = [0x0000, 0x000a, 0x0019], output_clusters = [0x0000, 0x0006, 0x0019]\<rparr>"

definition register_endpoint :: "('t ncp \<Rightarrow> nat) \<Rightarrow> 't transport_ops \<Rightarrow> 't app \<Rightarrow> 't app" where
  "register_endpoint time ops = command_step time ops (add_endpoint_command coordinator_endpoint)
     (\<lambda>r l. if is_ok (ae_status r) then pass ''addEndpoint'' l
        else pass ''addEndpoint (refused, reported cleanly)''
          (say (''   refused: '' @ status_text (ae_status r) @ '' (already registered?)'') l))
     (fail_with ''addEndpoint'')"

section \<open>Configuration and policies\<close>

definition stack_items :: "(config_id \<times> u16) list" where
  "stack_items = [(CONFIG_STACK_PROFILE, 2), (CONFIG_SECURITY_LEVEL, 5),
     (CONFIG_INDIRECT_TRANSMISSION_TIMEOUT, 30000), (CONFIG_END_DEVICE_POLL_TIMEOUT, 8)]"

text \<open>One turn of the loop over items or policies: \<open>{:?} refused\<close>, \<open>{:?} failed\<close>, or nothing.\<close>

definition write_setting ::
  "('t ncp \<Rightarrow> nat) \<Rightarrow> 't transport_ops \<Rightarrow> 'r command \<Rightarrow> ('r \<Rightarrow> sl_status) \<Rightarrow> string \<Rightarrow> bool \<times> 't app \<Rightarrow> bool \<times> 't app" where
  "write_setting time ops c status_of what acc =
     (let (ok, s, l) = acc; (r, s1) = run_command (time s) ops c s
      in case r of
           Inr x \<Rightarrow>
             if is_ok (status_of x) then (ok, s1, l)
             else (False, s1, say (''   '' @ what @ '' refused: '' @ status_text (status_of x)) l)
         | Inl e \<Rightarrow> (False, s1, say (''   '' @ what @ '' failed: '' @ ezsp_error_text e) l))"

definition configure_items ::
  "('t ncp \<Rightarrow> nat) \<Rightarrow> 't transport_ops \<Rightarrow> (config_id \<times> u16) list \<Rightarrow> bool \<times> 't app \<Rightarrow> bool \<times> 't app" where
  "configure_items time ops = fold (\<lambda>(i, n).
     write_setting time ops (set_configuration_value_command \<lparr>scv_config_id = i, scv_value = n\<rparr>) scv_status (config_id_debug i))"

definition configure_stack :: "('t ncp \<Rightarrow> nat) \<Rightarrow> 't transport_ops \<Rightarrow> 't app \<Rightarrow> 't app" where
  "configure_stack time ops app =
     (let (ok, s, l) = configure_items time ops stack_items (True, app)
      in (s, if ok then pass ''setConfigurationValue (stack profile, security level)'' l
             else fail ''setConfigurationValue'' ''the NCP refused a configuration item'' l))"

definition startup_policies :: "(policy_id \<times> decision) list" where
  "startup_policies = [(POLICY_TRUST_CENTER, decision_union ALLOW_JOINS ALLOW_UNSECURED_REJOINS),
     (POLICY_TC_KEY_REQUEST, ALLOW_TC_KEY_REQUEST_SAME_KEY), (POLICY_APP_KEY_REQUEST, DENY_APP_KEY_REQUESTS)]"

definition set_policies ::
  "('t ncp \<Rightarrow> nat) \<Rightarrow> 't transport_ops \<Rightarrow> (policy_id \<times> decision) list \<Rightarrow> bool \<times> 't app \<Rightarrow> bool \<times> 't app" where
  "set_policies time ops = fold (\<lambda>(i, d).
     write_setting time ops (set_policy_command \<lparr>sp_policy_id = i, sp_decision = d\<rparr>) sp_status (policy_id_debug i))"

definition configure_policies :: "('t ncp \<Rightarrow> nat) \<Rightarrow> 't transport_ops \<Rightarrow> 't app \<Rightarrow> 't app" where
  "configure_policies time ops app =
     (let (ok, s, l) = set_policies time ops startup_policies (True, app)
      in (s, if ok then pass ''setPolicy (trust centre, key requests)''
               (say ''   trust centre: joins and unsecured rejoins allowed, link keys answered'' l)
             else fail ''setPolicy'' ''the NCP refused a policy'' l))"

definition resume_network :: "('t ncp \<Rightarrow> nat) \<Rightarrow> 't transport_ops \<Rightarrow> 't app \<Rightarrow> 't app" where
  "resume_network time ops = command_step time ops (network_init_command (NetworkInit PARENT_INFO_IN_TOKEN))
     (\<lambda>r l. if is_ok (init_status r) then pass ''networkInit (resume)'' (say ''   resumed the stored network'' l)
        else pass ''networkInit (no network, reported cleanly)''
          (say (''   no stored network to resume: '' @ status_text (init_status r)) l))
     (fail_with ''networkInit'')"

section \<open>Joining\<close>

text \<open>The loop over one batch of callbacks: the last join in it.\<close>

fun joined_in :: "callback list \<Rightarrow> (node_id \<times> eui64) option \<Rightarrow> (node_id \<times> eui64) option" where
  "joined_in [] j = j"
| "joined_in (TrustCenterJoin n e _ _ _ # cs) j = joined_in cs (Some (n, e))"
| "joined_in (_ # cs) j = joined_in cs j"

definition say_callbacks :: "callback list \<Rightarrow> checklist \<Rightarrow> checklist" where
  "say_callbacks = fold (\<lambda>c. say (''   '' @ callback_debug c))"

text \<open>\<open>rounds\<close> is the number of polls that the join window leaves time for.\<close>

primrec watch_for_join ::
  "nat \<Rightarrow> ('t ncp \<Rightarrow> nat) \<Rightarrow> 't transport_ops \<Rightarrow> 't app \<Rightarrow> (node_id \<times> eui64) option \<times> 't app" where
  "watch_for_join 0 time ops app = (None, app)"
| "watch_for_join (Suc rounds) time ops app =
     (let (s, l) = app in
      case poll (time s) ops s of
        (Inl _, s1) \<Rightarrow> (None, s1, l)
      | (Inr cs, s1) \<Rightarrow>
          (case joined_in cs None of
             Some j \<Rightarrow> (Some j, s1, say_callbacks cs l)
           | None \<Rightarrow> watch_for_join rounds time ops (s1, say_callbacks cs l)))"

definition open_for_joining :: "nat \<Rightarrow> ('t ncp \<Rightarrow> nat) \<Rightarrow> 't transport_ops \<Rightarrow> 't app \<Rightarrow> 't app" where
  "open_for_joining rounds time ops app =
     (let app1 = command_step time ops
            (import_transient_key_command
               \<lparr>itk_eui64 = EUI64_WILDCARD, itk_key = ZIGBEE_ALLIANCE_09, itk_flags = MAN_FLAGS_NONE\<rparr>)
            (\<lambda>r. by_status (itk_status r) ''importTransientKey'') (fail_with ''importTransientKey'') app;
          app2 = command_step time ops (permit_joining_command (for_seconds 240))
            (\<lambda>r l. if is_ok (permit_status r)
               then say (newline @ ''   put the device in pairing mode now'' @ newline) (pass ''permitJoining (240s)'' l)
               else fail ''permitJoining'' (status_text (permit_status r)) l)
            (fail_with ''permitJoining'') app1;
          (joined, s, l) = watch_for_join rounds time ops app2
      in (s, case joined of
               Some (n, e) \<Rightarrow>
                 say (''   to command it:  --onoff '' @ decimal (unat (node_raw n)) @ '' on'' @ newline)
                   (say (newline @ ''   joined: '' @ eui64_text e @ '' at '' @ node_id_text n)
                     (pass ''device join (trustCenterJoin callback)'' l))
             | None \<Rightarrow> fail ''device join'' ''no trustCenterJoin callback within 240s'' l))"

definition close_joining :: "('t ncp \<Rightarrow> nat) \<Rightarrow> 't transport_ops \<Rightarrow> 't app \<Rightarrow> 't app" where
  "close_joining time ops app =
     command_step time ops (clear_transient_link_keys_command ClearTransientLinkKeys)
       (\<lambda>_. pass ''clearTransientLinkKeys'') (fail_with ''clearTransientLinkKeys'')
       (command_step time ops (permit_joining_command (PermitJoining 0))
          (\<lambda>r. if is_ok (permit_status r) then pass ''permitJoining(0) (window closed)''
               else fail ''permitJoining(0)'' (status_text (permit_status r)))
          (fail_with ''permitJoining(0)'')
          (apsnd (say (newline @ ''=== closing the join window ==='')) app))"

section \<open>Commanding a device\<close>

definition onoff_request :: "node_id \<Rightarrow> bool \<Rightarrow> send_unicast" where
  "onoff_request n on = \<lparr>su_unicast_type = Direct, index_or_destination = node_raw n,
     su_aps_frame = \<lparr>profile_id = 0x0104, cluster_id = 0x0006, source_endpoint = 1, destination_endpoint = 1,
       options = options_union APS_RETRY ENABLE_ROUTE_DISCOVERY, group_id = 0, aps_sequence = 0\<rparr>,
     su_message_tag = 0x01, su_message = [0x01, 0x42, if on then 1 else 0]\<rparr>"

text \<open>The loop over one batch of callbacks: the status of the last delivery report in it.\<close>

fun delivery_in :: "callback list \<Rightarrow> sl_status option \<Rightarrow> sl_status option" where
  "delivery_in [] d = d"
| "delivery_in (MessageSent _ _ _ _ st _ # cs) d = delivery_in cs (Some st)"
| "delivery_in (_ # cs) d = delivery_in cs d"

primrec wait_for_delivery ::
  "nat \<Rightarrow> ('t ncp \<Rightarrow> nat) \<Rightarrow> 't transport_ops \<Rightarrow> 't app \<Rightarrow> (ezsp_error + sl_status option) \<times> 't app" where
  "wait_for_delivery 0 time ops app = (Inr None, app)"
| "wait_for_delivery (Suc rounds) time ops app =
     (let (s, l) = app in
      case poll (time s) ops s of
        (Inl e, s1) \<Rightarrow> (Inl e, s1, l)
      | (Inr cs, s1) \<Rightarrow>
          (case delivery_in cs None of
             Some st \<Rightarrow> (Inr (Some st), s1, say_callbacks cs l)
           | None \<Rightarrow> wait_for_delivery rounds time ops (s1, say_callbacks cs l)))"

definition onoff_label :: "bool \<Rightarrow> string" where
  "onoff_label on = (if on then ''sendUnicast (on)'' else ''sendUnicast (off)'')"

definition send_onoff :: "nat \<Rightarrow> ('t ncp \<Rightarrow> nat) \<Rightarrow> 't transport_ops \<Rightarrow> node_id \<Rightarrow> bool \<Rightarrow> 't app \<Rightarrow> 't app" where
  "send_onoff rounds time ops n on app =
     (let app1 = command_step time ops (send_unicast_command (onoff_request n on))
            (\<lambda>r l. if is_ok (su_status r)
               then pass (onoff_label on) (say (''   accepted, APS sequence '' @ decimal (unat (su_aps_sequence r))) l)
               else fail (onoff_label on) (status_text (su_status r)) l)
            (fail_with (onoff_label on)) app;
          (outcome, s, l) = wait_for_delivery rounds time ops (apsnd (say ''   waiting for messageSent...'') app1)
      in (s, case outcome of
               Inl e \<Rightarrow> fail_with ''messageSent callback'' e l
             | Inr (Some st) \<Rightarrow>
                 if is_ok st then pass ''messageSent callback (delivered)'' l
                 else fail ''messageSent callback'' (''not delivered: '' @ status_text st) l
             | Inr None \<Rightarrow>
                 fail ''messageSent callback'' ''no messageSent within 40s (the device may never have polled)'' l))"

section \<open>The whole run\<close>

record 't deadlines =
  reset_time :: "nat \<Rightarrow> nat"
  first_version_time :: nat
  second_version_time :: nat
  call_time :: "'t ncp \<Rightarrow> nat"
  join_rounds :: nat
  delivery_rounds :: nat

text \<open>Everything between \<open>connect\<close> and the last report.\<close>

definition bring_up :: "'t deadlines \<Rightarrow> 't transport_ops \<Rightarrow> startup_args \<Rightarrow> 't app \<Rightarrow> 't app" where
  "bring_up d ops args app =
     (let time = call_time d;
          app1 = resume_network time ops (configure_policies time ops (configure_stack time ops
            (register_endpoint time ops (ask_eui64 time ops app))));
          app2 = (if permit_join args then open_for_joining (join_rounds d) time ops app1 else app1);
          app3 = (if close_join args then close_joining time ops app2 else app2)
      in case onoff args of
           Some (n, on) \<Rightarrow> send_onoff (delivery_rounds d) time ops n on
             (apsnd (say (newline @ ''=== commanding '' @ node_id_text n @ '' ==='')) app3)
         | None \<Rightarrow> app3)"

text \<open>The callbacks that are left, and the last report.\<close>

definition finish_run :: "callback list \<Rightarrow> checklist \<Rightarrow> checklist" where
  "finish_run cs l = report
     (if cs = [] then say (newline @ ''no callbacks during startup'') l
      else say_callbacks cs (say (newline @ ''callbacks during startup:'') l))"

text \<open>
  \<open>main\<close> with a path: \<open>opened\<close> is the outcome of opening the port. The result is the checklist with
  what was printed and, when the connection came up, the callbacks printed at the end and the final
  state. Without a path \<open>main\<close> returns an error with the usage.
\<close>

definition startup ::
  "'t deadlines \<Rightarrow> 't transport_ops \<Rightarrow> string \<Rightarrow> startup_args \<Rightarrow> transport_error + 't \<Rightarrow>
   checklist \<times> (callback list \<times> 't ncp) option" where
  "startup d ops path args opened =
     (let l0 = say (''=== rsezsp startup, '' @ path @ '' ==='' @ newline) checklist_new in
      case opened of
        Inl e \<Rightarrow> (report (fail ''serial open'' (transport_error_text e) l0), None)
      | Inr t \<Rightarrow>
          (let l = pass ''serial open'' l0 in
           case connect (reset_time d) (first_version_time d) (second_version_time d) ops t of
             Inl e \<Rightarrow> (report (fail_with ''ASH reset / EZSP version'' e l), None)
           | Inr s \<Rightarrow>
               (let l1 = pass (''EZSP version ('' @ version_text (version s) @ '')'') (pass ''ASH reset'' l);
                    (s1, l2) = bring_up d ops args (s, l1);
                    (cs, s2) = take_callbacks s1
                in (finish_run cs l2, Some (cs, s2)))))"

definition startup_main ::
  "'t deadlines \<Rightarrow> 't transport_ops \<Rightarrow> (string \<Rightarrow> transport_error + 't) \<Rightarrow> string list \<Rightarrow>
   string + (checklist \<times> (callback list \<times> 't ncp) option)" where
  "startup_main d ops open_port argv =
     (case parse_args argv of
        (None, _) \<Rightarrow> Inl ''usage: startup <serial-path> [--permit-join] [--close-join] [--onoff <nwk> on|off]''
      | (Some path, args) \<Rightarrow> Inr (startup d ops path args (open_port path)))"

section \<open>The order of the requests\<close>

fun sent_id :: "log_line \<Rightarrow> frame_id list" where
  "sent_id (SentFrame i _ _) = [i]"
| "sent_id (SentRedacted i _ _) = [i]"
| "sent_id _ = []"

definition requests :: "'t ncp \<Rightarrow> frame_id list" where
  "requests s = concat (map sent_id (log_lines s))"

text \<open>From \<open>s\<close> to \<open>s'\<close> the requests sent are some of \<open>ids\<close>, in this order.\<close>

definition sends_in_order :: "frame_id list \<Rightarrow> 't ncp \<Rightarrow> 't ncp \<Rightarrow> bool" where
  "sends_in_order ids s s' \<longleftrightarrow> (\<exists>xs. requests s' = requests s @ xs \<and> subseq xs ids)"

lemma sends_same: "log_lines s' = log_lines s \<Longrightarrow> sends_in_order ids s s'"
  by (simp add: sends_in_order_def requests_def)

lemma sends_trans: "sends_in_order is s s1 \<Longrightarrow> sends_in_order js s1 s2 \<Longrightarrow> sends_in_order (is @ js) s s2"
  unfolding sends_in_order_def by (auto intro!: list_emb_append_mono)

lemma requests_simps [simp]:
  "requests (s\<lparr>transport := t\<rparr>) = requests s" "requests (s\<lparr>ash := a\<rparr>) = requests s"
  "requests (s\<lparr>decoder := d\<rparr>) = requests s" "requests (s\<lparr>correlator := k\<rparr>) = requests s"
  "requests (s\<lparr>response := r\<rparr>) = requests s" "requests (s\<lparr>callbacks := cs\<rparr>) = requests s"
  "requests (s\<lparr>initial_version_sent := b\<rparr>) = requests s"
  by (simp_all add: requests_def)

text \<open>Neither the read loop nor a reset sends a request.\<close>

interpretation unsent: reset_invariant "\<lambda>s. requests s = q" ops
  for q :: "frame_id list" and ops :: "'t transport_ops"
proof
  fix s :: "'t ncp" and p
  assume "requests s = q"
  then show "requests (dispatch p s) = q"
    by (simp add: requests_def dispatch_same received_line_def split: option.split)
qed simp_all

lemma report_requests: "report_no_answer c w s = (r, s') \<Longrightarrow> requests s' = requests s"
  by (auto simp: report_no_answer_def Let_def split: prod.splits sum.splits if_splits)

lemma send_command_sends:
  assumes "send_command ops c s = (r, s')"
  shows "sends_in_order [command_id c] s s'"
proof -
  have "sent_id (sent_line i fmt bs) = [i]" for i fmt bs by (simp add: sent_line_def)
  with send_command_log [OF assms] show ?thesis by (auto simp: sends_in_order_def requests_def)
qed

lemma run_command_sends:
  assumes "run_command n ops c s = (r, s')"
  shows "sends_in_order [command_id c] s s'"
proof -
  obtain q s1 where s1: "send_command ops c s = (q, s1)" by (metis surj_pair)
  note sc = send_command_sends [OF this]
  show ?thesis
  proof (cases q)
    case (Inl e)
    with assms s1 sc show ?thesis by (simp add: run_command_not_sent)
  next
    case (Inr u)
    obtain w a s2 where p: "pump_until n ops answer_arrived s1 = (w, a, s2)" by (rule prod_cases3)
    then have "requests s2 = requests s1" using unsent.pump_answer_keeps by blast
    moreover from assms s1 Inr p have "requests s' = requests s2"
      by (cases a) (auto simp: run_command_sent await_answer_def report_requests dest: arg_cong [of _ _ snd])
    ultimately show ?thesis using sc by (simp add: sends_in_order_def)
  qed
qed

lemma poll_sends: "poll n ops s = (r, s') \<Longrightarrow> sends_in_order [] s s'"
  by (auto simp: poll_def take_callbacks_def sends_in_order_def split: prod.splits sum.splits
      dest!: unsent.pump_looking_keeps [OF _ refl])

lemma connect_sends:
  assumes "connect clock n1 n2 ops t = Inr s"
  shows "subseq (requests s) [ID_VERSION, ID_VERSION]"
proof -
  obtain u s1 v s2 where r: "reset clock ops (ncp_start t) = (u, s1)" and n: "negotiate n1 n2 ops s1 = (Inr v, s2)"
    and s: "requests s = requests s2"
    using assms by (auto simp: connect_def andthen_def requests_def split: prod.splits sum.splits)
  have 0: "requests s1 = []"
    using r unsent.reset_attempts_keeps [of _ clock ops "ncp_start t" u s1 "[]"]
    by (simp add: reset_def requests_def ncp_start_def)
  obtain q s3 where c1: "run_command n1 ops (version_command (Version PREFERRED)) s1 = (q, s3)" by (metis surj_pair)
  have v: "command_id (version_command w) = ID_VERSION" for w by (simp add: version_command_def)
  from run_command_sends [OF c1] have 1: "sends_in_order [ID_VERSION] s1 s3" by (simp add: v)
  have "s2 = s3 \<or> (\<exists>w r. run_command n2 ops (version_command (Version w)) s3 = (r, s2))"
    using n c1 by (auto simp: negotiate_def andthen_def Let_def split: sum.splits if_splits prod.splits)
  then have "sends_in_order [ID_VERSION] s3 s2"
    using run_command_sends v sends_same by (metis)
  from sends_trans [OF 1 this] show ?thesis using 0 s by (simp add: sends_in_order_def)
qed

section \<open>The order of the bring-up\<close>

abbreviation steps_in_order :: "frame_id list \<Rightarrow> 't app \<Rightarrow> 't app \<Rightarrow> bool" where
  "steps_in_order ids app app' \<equiv> sends_in_order ids (fst app) (fst app')"

lemma command_step_sends: "steps_in_order [command_id c] app (command_step time ops c f g app)"
  by (auto simp: command_step_def dest: run_command_sends split: prod.splits)

lemma write_setting_sends:
  assumes "command_id c = i"
  shows "sends_in_order [i] (fst (snd acc)) (fst (snd (write_setting time ops c status_of what acc)))"
  using assms by (auto simp: write_setting_def split: prod.splits sum.splits dest: run_command_sends)

lemma fold_sends:
  assumes "\<And>x acc. x \<in> set xs \<Longrightarrow> sends_in_order [i] (fst (snd acc)) (fst (snd (f x acc)))"
  shows "sends_in_order (replicate (length xs) i) (fst (snd acc)) (fst (snd (fold f xs acc)))"
  using assms
proof (induction xs arbitrary: acc)
  case (Cons x xs)
  have "sends_in_order [i] (fst (snd acc)) (fst (snd (f x acc)))" using Cons.prems by simp
  from sends_trans [OF this Cons.IH [of "f x acc"]] Cons.prems show ?case by simp
qed (simp add: sends_same)

lemma configure_items_sends:
  "sends_in_order (replicate (length is) ID_SET_CONFIGURATION_VALUE) (fst (snd acc)) (fst (snd (configure_items time ops is acc)))"
  unfolding configure_items_def
  by (rule fold_sends) (auto simp: set_configuration_value_command_def intro: write_setting_sends)

lemma set_policies_sends:
  "sends_in_order (replicate (length ps) ID_SET_POLICY) (fst (snd acc)) (fst (snd (set_policies time ops ps acc)))"
  unfolding set_policies_def
  by (rule fold_sends) (auto simp: set_policy_command_def intro: write_setting_sends)

lemma watch_sends: "sends_in_order [] (fst app) (fst (snd (watch_for_join k time ops app)))"
proof (induction k arbitrary: app)
  case (Suc k)
  obtain s l where app: "app = (s, l)" by (metis surj_pair)
  obtain r s1 where p: "poll (time s) ops s = (r, s1)" by (metis surj_pair)
  note 1 = poll_sends [OF p]
  have "sends_in_order [] s (fst (snd (watch_for_join k time ops (s1, l'))))" for l'
    using sends_trans [OF 1 Suc.IH [of "(s1, l')", simplified]] by simp
  with 1 app p show ?case by (simp split: sum.split option.split)
qed (simp add: sends_same)

lemma delivery_sends: "sends_in_order [] (fst app) (fst (snd (wait_for_delivery k time ops app)))"
proof (induction k arbitrary: app)
  case (Suc k)
  obtain s l where app: "app = (s, l)" by (metis surj_pair)
  obtain r s1 where p: "poll (time s) ops s = (r, s1)" by (metis surj_pair)
  note 1 = poll_sends [OF p]
  have "sends_in_order [] s (fst (snd (wait_for_delivery k time ops (s1, l'))))" for l'
    using sends_trans [OF 1 Suc.IH [of "(s1, l')", simplified]] by simp
  with 1 app p show ?case by (simp split: sum.split option.split)
qed (simp add: sends_same)

text \<open>What the run may send, in this order.\<close>

definition bring_up_order :: "startup_args \<Rightarrow> frame_id list" where
  "bring_up_order args =
     [ID_GET_EUI64] @ [ID_ADD_ENDPOINT] @ replicate 4 ID_SET_CONFIGURATION_VALUE @ replicate 3 ID_SET_POLICY @
     [ID_NETWORK_INIT] @
     (if permit_join args then [ID_IMPORT_TRANSIENT_KEY, ID_PERMIT_JOINING] else []) @
     (if close_join args then [ID_PERMIT_JOINING, ID_CLEAR_TRANSIENT_LINK_KEYS] else []) @
     (if onoff args = None then [] else [ID_SEND_UNICAST])"

lemma single_steps:
  "steps_in_order [ID_GET_EUI64] app (ask_eui64 time ops app)"
  "steps_in_order [ID_ADD_ENDPOINT] app (register_endpoint time ops app)"
  "steps_in_order [ID_NETWORK_INIT] app (resume_network time ops app)"
  using command_step_sends [of "get_eui64_command GetEui64" app time ops]
    command_step_sends [of "add_endpoint_command coordinator_endpoint" app time ops]
    command_step_sends [of "network_init_command (NetworkInit PARENT_INFO_IN_TOKEN)" app time ops]
  by (simp_all add: ask_eui64_def register_endpoint_def resume_network_def get_eui64_command_def
      add_endpoint_command_def network_init_command_def)

lemma configure_stack_sends:
  "steps_in_order (replicate 4 ID_SET_CONFIGURATION_VALUE) app (configure_stack time ops app)"
  using configure_items_sends [of stack_items "(True, app)" time ops]
  by (simp add: configure_stack_def stack_items_def eval_nat_numeral case_prod_unfold Let_def)

lemma configure_policies_sends:
  "steps_in_order (replicate 3 ID_SET_POLICY) app (configure_policies time ops app)"
  using set_policies_sends [of startup_policies "(True, app)" time ops]
  by (simp add: configure_policies_def startup_policies_def eval_nat_numeral case_prod_unfold Let_def)

lemma two_steps:
  assumes "command_id c1 = i" "command_id c2 = j"
  shows "steps_in_order [i, j] app (command_step time ops c2 f2 g2 (command_step time ops c1 f1 g1 app))"
  using sends_trans [OF command_step_sends [of c1 app time ops f1 g1] command_step_sends [of c2 _ time ops f2 g2]] assms by simp

lemma close_joining_sends:
  "steps_in_order [ID_PERMIT_JOINING, ID_CLEAR_TRANSIENT_LINK_KEYS] app (close_joining time ops app)"
proof -
  have "steps_in_order [ID_PERMIT_JOINING, ID_CLEAR_TRANSIENT_LINK_KEYS] (apsnd h app) (close_joining time ops app)"
    if "h = say (newline @ ''=== closing the join window ==='')" for h
    unfolding close_joining_def that
    by (rule two_steps) (simp_all only: permit_joining_command_def clear_transient_link_keys_command_def command.simps)
  then show ?thesis by (simp only: fst_apsnd)
qed

lemma open_for_joining_sends:
  "steps_in_order [ID_IMPORT_TRANSIENT_KEY, ID_PERMIT_JOINING] app (open_for_joining k time ops app)"
proof -
  have ids: "command_id (import_transient_key_command x) = ID_IMPORT_TRANSIENT_KEY"
    "command_id (permit_joining_command y) = ID_PERMIT_JOINING" for x y
    by (simp_all only: import_transient_key_command_def permit_joining_command_def command.simps)
  note steps = sends_trans [OF two_steps [OF ids] watch_sends, unfolded append_Nil2]
  show ?thesis unfolding open_for_joining_def Let_def case_prod_unfold fst_conv by (rule steps)
qed

lemma send_onoff_sends: "steps_in_order [ID_SEND_UNICAST] app (send_onoff k time ops n on app)"
proof -
  have id: "command_id (send_unicast_command x) = ID_SEND_UNICAST" for x
    by (simp only: send_unicast_command_def command.simps)
  have "sends_in_order [ID_SEND_UNICAST] (fst app) (fst (apsnd h (command_step time ops (send_unicast_command x) f g app)))" for h x f g
    using command_step_sends [of "send_unicast_command x" app time ops f g] by (simp only: id fst_apsnd)
  note steps = sends_trans [OF this delivery_sends, unfolded append_Nil2]
  show ?thesis unfolding send_onoff_def Let_def case_prod_unfold fst_conv by (rule steps)
qed

lemma onoff_steps:
  "steps_in_order (if onoff args = None then [] else [ID_SEND_UNICAST]) app
    (case onoff args of Some (n, on) \<Rightarrow> send_onoff k time ops n on (apsnd (h n) app) | None \<Rightarrow> app)"
proof (cases "onoff args")
  case (Some p)
  obtain n on where p: "p = (n, on)" by (metis surj_pair)
  have "steps_in_order [ID_SEND_UNICAST] (apsnd (h n) app) (send_onoff k time ops n on (apsnd (h n) app))"
    by (rule send_onoff_sends)
  with Some p show ?thesis by simp
qed (simp add: sends_same)

lemma steps_when:
  assumes "\<And>app. steps_in_order ids app (f app)"
  shows "steps_in_order (if P then ids else []) app (if P then f app else app)"
  using assms by (simp add: sends_same)

lemma bring_up_sends: "steps_in_order (bring_up_order args) app (bring_up d ops args app)"
proof -
  let ?t = "call_time d"
  let ?a1 = "resume_network ?t ops (configure_policies ?t ops (configure_stack ?t ops
    (register_endpoint ?t ops (ask_eui64 ?t ops app))))"
  let ?a2 = "if permit_join args then open_for_joining (join_rounds d) ?t ops ?a1 else ?a1"
  let ?a3 = "if close_join args then close_joining ?t ops ?a2 else ?a2"
  let ?a4 = "case onoff args of Some (n, on) \<Rightarrow> send_onoff (delivery_rounds d) ?t ops n on
      (apsnd (say (newline @ ''=== commanding '' @ node_id_text n @ '' ==='')) ?a3) | None \<Rightarrow> ?a3"
  note first = single_steps(1) [THEN sends_trans [OF _ single_steps(2)], THEN sends_trans [OF _ configure_stack_sends],
    THEN sends_trans [OF _ configure_policies_sends], THEN sends_trans [OF _ single_steps(3)]]
  have 1: "steps_in_order ([ID_GET_EUI64] @ [ID_ADD_ENDPOINT] @ replicate 4 ID_SET_CONFIGURATION_VALUE @
      replicate 3 ID_SET_POLICY @ [ID_NETWORK_INIT]) app ?a1"
    using first [of app ?t ops] by (simp only: append.assoc)
  have 2: "steps_in_order (if permit_join args then [ID_IMPORT_TRANSIENT_KEY, ID_PERMIT_JOINING] else []) ?a1 ?a2"
    by (rule steps_when) (rule open_for_joining_sends)
  have 3: "steps_in_order (if close_join args then [ID_PERMIT_JOINING, ID_CLEAR_TRANSIENT_LINK_KEYS] else []) ?a2 ?a3"
    by (rule steps_when) (rule close_joining_sends)
  have 4: "steps_in_order (if onoff args = None then [] else [ID_SEND_UNICAST]) ?a3 ?a4"
    by (rule onoff_steps)
  have "bring_up d ops args app = ?a4" by (simp only: bring_up_def Let_def)
  with sends_trans [OF sends_trans [OF sends_trans [OF 1 2] 3] 4] show ?thesis
    by (simp only: bring_up_order_def append.assoc)
qed

text \<open>
  C26. The order of the bring-up. On any transport and with any deadlines, errors included, the
  requests that a run sends are some of: the \<open>version\<close> exchanges, the address, the endpoint, four
  configuration values, three policies, \<open>networkInit\<close>, and then what the arguments ask for, in
  this order and each at most as often as it stands here. The endpoint, the configuration and the
  policies are never sent once the network may be up.
\<close>

theorem requests_keep_their_order:
  assumes "startup d ops path args opened = (l, Some (cs, s))"
  shows "subseq (requests s) ([ID_VERSION, ID_VERSION] @ bring_up_order args)"
proof -
  obtain t s0 l1 where c: "connect (reset_time d) (first_version_time d) (second_version_time d) ops t = Inr s0"
    and s: "(cs, s) = take_callbacks (fst (bring_up d ops args (s0, l1)))"
    using assms by (auto simp: startup_def Let_def split: sum.splits prod.splits) (metis fst_conv)
  have "requests s = requests (fst (bring_up d ops args (s0, l1)))" using s by (simp add: take_callbacks_def)
  moreover obtain xs where "requests (fst (bring_up d ops args (s0, l1))) = requests s0 @ xs" "subseq xs (bring_up_order args)"
    using bring_up_sends [of args "(s0, l1)" d ops] by (auto simp: sends_in_order_def)
  ultimately show ?thesis using list_emb_append_mono [OF connect_sends [OF c]] by metis
qed

lemma startup_connected:
  assumes "connect (reset_time d) (first_version_time d) (second_version_time d) ops t = Inr s0"
  shows "\<exists>l cs s. startup d ops path args (Inr t) = (l, Some (cs, s))"
  using assms by (simp add: startup_def Let_def take_callbacks_def split_def)

lemma requests_keep_their_order_witness:
  "\<exists>l cs s. startup \<lparr>reset_time = (\<lambda>_. Suc 0), first_version_time = Suc 0, second_version_time = Suc 0,
      call_time = (\<lambda>_. Suc 0), join_rounds = 1, delivery_rounds = 1\<rparr> fake_ops ''/dev/ttyUSB0''
      (snd (parse_args [''/dev/ttyUSB0'', ''--permit-join'', ''--onoff'', ''14913'', ''on'']))
      (Inr (fake_with_chunks [wire_of (RstAck 2 1), wire_of (Data 0 1 False [0, 0x80, 0, 0x13, 2, 0x40, 0x74])]))
      = (l, Some (cs, s)) \<and>
    subseq (requests s) ([ID_VERSION, ID_VERSION, ID_GET_EUI64, ID_ADD_ENDPOINT] @ replicate 4 ID_SET_CONFIGURATION_VALUE @
      replicate 3 ID_SET_POLICY @ [ID_NETWORK_INIT, ID_IMPORT_TRANSIENT_KEY, ID_PERMIT_JOINING, ID_SEND_UNICAST])"
proof -
  let ?args = "snd (parse_args [''/dev/ttyUSB0'', ''--permit-join'', ''--onoff'', ''14913'', ''on''])"
  let ?d = "\<lparr>reset_time = (\<lambda>_. Suc 0), first_version_time = Suc 0, second_version_time = Suc 0,
      call_time = (\<lambda>_. Suc 0), join_rounds = 1, delivery_rounds = 1\<rparr> :: fake_transport deadlines"
  let ?t = "fake_with_chunks [wire_of (RstAck 2 1), wire_of (Data 0 1 False [0, 0x80, 0, 0x13, 2, 0x40, 0x74])]"
  have o: "permit_join ?args" "\<not> close_join ?args" "onoff ?args \<noteq> None"
    by (simp_all add: parse_args_def parse_onoff_def parse_u16_def nth_arg_def)
  obtain s0 where "connect (\<lambda>_. Suc 0) (Suc 0) (Suc 0) fake_ops ?t = Inr s0" using sample_connect by blast
  then obtain l cs s where r: "startup ?d fake_ops ''/dev/ttyUSB0'' ?args (Inr ?t) = (l, Some (cs, s))"
    using startup_connected [of ?d fake_ops ?t s0 "''/dev/ttyUSB0''" ?args] by auto
  from requests_keep_their_order [OF r] r o show ?thesis
    by (auto simp: bring_up_order_def)
qed

section \<open>Callbacks that are not looked at closely\<close>

definition is_join :: "callback \<Rightarrow> bool" where
  "is_join c \<longleftrightarrow> (case c of TrustCenterJoin _ _ _ _ _ \<Rightarrow> True | _ \<Rightarrow> False)"

definition is_report :: "callback \<Rightarrow> bool" where
  "is_report c \<longleftrightarrow> (case c of MessageSent _ _ _ _ _ _ \<Rightarrow> True | _ \<Rightarrow> False)"

lemma joined_in_none: "\<forall>c \<in> set cs. \<not> is_join c \<Longrightarrow> joined_in cs j = j"
  by (induction cs j rule: joined_in.induct) (simp_all add: is_join_def)

lemma joined_in_last: "\<forall>c \<in> set vs. \<not> is_join c \<Longrightarrow> joined_in (us @ TrustCenterJoin n e u x p # vs) j = Some (n, e)"
  by (induction us j rule: joined_in.induct) (simp_all add: joined_in_none)

lemma delivery_in_none: "\<forall>c \<in> set cs. \<not> is_report c \<Longrightarrow> delivery_in cs d = d"
  by (induction cs d rule: delivery_in.induct) (simp_all add: is_report_def)

lemma delivery_in_last:
  "\<forall>c \<in> set vs. \<not> is_report c \<Longrightarrow> delivery_in (us @ MessageSent ty i f tag st p # vs) d = Some st"
  by (induction us d rule: delivery_in.induct) (simp_all add: delivery_in_none)

text \<open>
  C38. The waiting loops take callbacks at face value. The callback that reports a join also reports
  a departure, in its field \<open>device_update\<close>, and a delivery report carries the destination and the
  tag of its message; the loops look at none of these. Whatever the update, the last such callback
  of the first batch that has one ends the wait for a join as the device that joined, and
  whichever message it is about, the last report of the first batch that has one decides the
  outcome of the message just sent.
\<close>

theorem callbacks_taken_at_face_value:
  assumes "poll (time s) ops s = (Inr (us @ TrustCenterJoin n e update x p # vs), s')" "\<forall>c \<in> set vs. \<not> is_join c"
    and "poll (time q) ops q = (Inr (ws @ MessageSent ty destination f tag st b # zs), q')" "\<forall>c \<in> set zs. \<not> is_report c"
  shows "(\<exists>l'. watch_for_join (Suc k) time ops (s, l) = (Some (n, e), s', l')) \<and>
    (\<exists>l'. wait_for_delivery (Suc k) time ops (q, l) = (Inr (Some st), q', l'))"
  using assms joined_in_last delivery_in_last by simp

text \<open>A device that left, and a message with another tag to another device.\<close>

lemma callbacks_taken_at_face_value_witness:
  "(\<exists>s' l'. watch_for_join 48 (\<lambda>_. Suc 0) fake_ops
      (sample_ncp [wire_of (Data 0 0 False (callback_payload (TrustCenterJoin (NodeId 7) (Eui64 9) 2 0 (NodeId 0))))], checklist_new) =
    (Some (NodeId 7, Eui64 9), s', l')) \<and>
   (\<exists>q' l'. wait_for_delivery 48 (\<lambda>_. Suc 0) fake_ops
      (sample_ncp [wire_of (Data 0 0 False (callback_payload
         (MessageSent 0 0x1234 (su_aps_frame (onoff_request (NodeId 7) True)) 0x77 STATUS_OK [])))], checklist_new) =
    (Inr (Some STATUS_OK), q', l'))"
proof -
  let ?j = "TrustCenterJoin (NodeId 7) (Eui64 9) 2 0 (NodeId 0)"
  let ?s = "sample_ncp [wire_of (Data 0 0 False (callback_payload ?j))]"
  let ?f = "su_aps_frame (onoff_request (NodeId 7) True)"
  let ?m = "MessageSent 0 0x1234 ?f 0x77 STATUS_OK []"
  let ?q = "sample_ncp [wire_of (Data 0 0 False (callback_payload ?m))]"
  have "length (callback_wire PREFERRED ?j) \<le> 123" "valid_callback PREFERRED ?j" by (simp_all add: to_wire_def)
  then obtain s' where "poll (Suc 0) fake_ops ?s = (Inr [?j], s')" using poll_sample by blast
  then have s: "poll ((\<lambda>_. Suc 0) ?s) fake_ops ?s = (Inr ([] @ ?j # []), s')" by simp
  have "length (callback_wire PREFERRED ?m) \<le> 123" "valid_callback PREFERRED ?m"
    by (simp_all add: aps_frame_wire_def tag_wire_def has_wide_status_def const_defs)
  then obtain q' where "poll (Suc 0) fake_ops ?q = (Inr [?m], q')" using poll_sample by blast
  then have q: "poll ((\<lambda>_. Suc 0) ?q) fake_ops ?q = (Inr ([] @ ?m # []), q')" by simp
  have "(\<exists>l'. watch_for_join (Suc 47) (\<lambda>_. Suc 0) fake_ops (?s, checklist_new) = (Some (NodeId 7, Eui64 9), s', l')) \<and>
      (\<exists>l'. wait_for_delivery (Suc 47) (\<lambda>_. Suc 0) fake_ops (?q, checklist_new) = (Inr (Some STATUS_OK), q', l'))"
    by (rule callbacks_taken_at_face_value [OF s _ q]) simp_all
  moreover have "Suc 47 = 48" by simp
  ultimately show ?thesis by metis
qed

end
