(* ===== verification/TestsAsh.thy ===== *)
theory TestsAsh
  imports AshDecoder AshConnection
begin

text \<open>
  The unit tests of the ASH layer (the modules \<open>tests\<close> of \<open>ash/frame.rs\<close>, \<open>ash/codec.rs\<close> and
  \<open>ash/state.rs\<close>) over the model. Each test is a truth value that is computed the way the test
  computes it: a call that changes a value gives the next value a name, \<open>expect\<close> is \<open>succeeds\<close>,
  \<open>assert!(matches!(..))\<close> a case distinction, and the assertions are the conjuncts. The lemma after
  it says that the test passes.
\<close>

fun succeeds :: "'e + 'a \<Rightarrow> bool" where
  "succeeds (Inr _) = True"
| "succeeds (Inl _) = False"

section \<open>Frames\<close>

definition a_data_control_byte_packs_the_three_fields :: bool where
  "a_data_control_byte_packs_the_three_fields =
     (control (Data 2 5 False []) = 0x25 \<and> control (Data 2 5 True []) = 0x2d)"

lemma control_byte_test: a_data_control_byte_packs_the_three_fields
  by code_simp

definition control_bytes_round_trip_for_every_kind :: bool where
  "control_bytes_round_trip_for_every_kind =
     list_all (\<lambda>frame. from_parts (control frame) (body frame) = Inr frame)
       [Data 7 3 True [0xaa, 0xbb], Ack 1 False, Ack 6 True, Nak 2 False, Rst,
        RstAck ASH_VERSION 0x0b, Error ASH_VERSION 0x51]"

lemma control_round_trip_test: control_bytes_round_trip_for_every_kind
  by code_simp

definition the_fixed_control_bytes_are_not_read_as_ack_or_nak :: bool where
  "the_fixed_control_bytes_are_not_read_as_ack_or_nak =
     (from_parts 0xc0 [] = Inr Rst \<and>
      (case from_parts 0xc1 [2, 0x0b] of Inr (RstAck _ _) \<Rightarrow> True | _ \<Rightarrow> False) \<and>
      (case from_parts 0xc2 [2, 0x51] of Inr (Error _ _) \<Rightarrow> True | _ \<Rightarrow> False))"

lemma fixed_control_test: the_fixed_control_bytes_are_not_read_as_ack_or_nak
  by code_simp

definition a_short_rstack_is_refused_rather_than_read_as_a_reset :: bool where
  "a_short_rstack_is_refused_rather_than_read_as_a_reset =
     list_all (\<lambda>b. \<not> succeeds (from_parts 0xc1 b)) [[], [2], [2, 0x0b, 0x00]]"

lemma short_rstack_test: a_short_rstack_is_refused_rather_than_read_as_a_reset
  by code_simp

definition an_ack_carrying_a_body_is_refused :: bool where
  "an_ack_carrying_a_body_is_refused =
     (\<not> succeeds (from_parts 0x81 [0xff]) \<and> \<not> succeeds (from_parts 0xa1 [0xff]))"

lemma ack_body_test: an_ack_carrying_a_body_is_refused
  by code_simp

definition an_oversized_data_field_is_refused :: bool where
  "an_oversized_data_field_is_refused =
     (case from_parts 0 (replicate (MAX_DATA_FIELD_LEN + 1) 0) of Inl (TooLong _ _) \<Rightarrow> True | _ \<Rightarrow> False)"

lemma oversized_data_test: an_oversized_data_field_is_refused
  by code_simp

definition sequence_numbers_wrap_at_eight :: bool where
  "sequence_numbers_wrap_at_eight =
     (next_sequence 0 = 1 \<and> next_sequence 6 = 7 \<and> next_sequence 7 = 0 \<and>
      from_parts (control (Data 9 11 False [])) [] = Inr (Data 1 3 False []))"

lemma sequence_wrap_test: sequence_numbers_wrap_at_eight
  by code_simp

section \<open>The codec\<close>

text \<open>What the tests encode fits into a frame, and a decoder gives it back.\<close>

lemma encoded: "length (body f) \<le> 130 \<Longrightarrow> encode f = Inr (wire_of f)"
  by (simp add: wire_of_def encode_eq)

lemmas wire_tests = encoded feed_wire Let_def const_defs

text \<open>The bytes themselves, where a test looks into them.\<close>

lemma start_fold: "\<lparr>partial = [], escaped = False, dropping = None\<rparr> = decoder_new"
  by (simp add: decoder_new_def)

lemmas wire_bytes = wire_of_def encode_def randomise_def lfsr_next_def crc16_all_def crc16_def funpow_8 crc_turn_def
  be_bytes16_eq is_reserved_def const_defs Let_def

definition the_crc_matches_the_published_check_value :: bool where
  "the_crc_matches_the_published_check_value =
     (crc16_all [0x31, 0x32, 0x33, 0x34, 0x35, 0x36, 0x37, 0x38, 0x39] = 0x29b1)"

lemma crc_test: the_crc_matches_the_published_check_value
  by (simp add: the_crc_matches_the_published_check_value_def crc16_check_value)

definition randomising_is_its_own_inverse :: bool where
  "randomising_is_its_own_inverse =
     (let original = [0x00, 0x00, 0x01, 0x02, 0x03, 0xff, 0xff, 0x7e, 0x7d];
          data = randomise original
      in data \<noteq> original \<and> randomise data = original)"

lemma randomise_test: randomising_is_its_own_inverse
  by code_simp

definition the_lfsr_produces_the_specified_sequence :: bool where
  "the_lfsr_produces_the_specified_sequence =
     (randomise (replicate 6 0) = [0x42, 0x21, 0xa8, 0x54, 0x2a, 0x15])"

lemma lfsr_test: the_lfsr_produces_the_specified_sequence
  by code_simp

definition a_frame_round_trips_through_the_wire_form :: bool where
  "a_frame_round_trips_through_the_wire_form =
     (let frame = Data 1 0 False [0x00, 0x00, 0x00, 0x13] in
      case encode frame of
        Inl _ \<Rightarrow> False
      | Inr bs \<Rightarrow> bs \<noteq> [] \<and> last bs = FLAG \<and> fst (feed bs decoder_new) = [Frame frame])"

lemma wire_round_trip_test: a_frame_round_trips_through_the_wire_form
  by (simp add: a_frame_round_trips_through_the_wire_form_def wire_tests, simp add: wire_bytes)

definition reserved_bytes_are_escaped_and_survive_the_round_trip :: bool where
  "reserved_bytes_are_escaped_and_survive_the_round_trip =
     (let frame = Data 0 0 False [FLAG, ESCAPE, XON, XOFF, SUBSTITUTE, CANCEL] in
      case encode frame of
        Inl _ \<Rightarrow> False
      | Inr bs \<Rightarrow>
          foldl (\<lambda>n b. n + (if b = FLAG then 1 else 0)) (0 :: nat) bs = 1 \<and>
          fst (feed bs decoder_new) = [Frame frame])"

lemma reserved_bytes_test: reserved_bytes_are_escaped_and_survive_the_round_trip
  by (simp add: reserved_bytes_are_escaped_and_survive_the_round_trip_def wire_tests, simp add: wire_bytes)

definition a_frame_split_across_reads_still_decodes :: bool where
  "a_frame_split_across_reads_still_decodes =
     (let frame = Data 3 2 False (replicate 20 0xaa) in
      case encode frame of
        Inl _ \<Rightarrow> False
      | Inr bs \<Rightarrow> fst (feed_chunks (map (\<lambda>b. [b]) bs) decoder_new) = [Frame frame])"

lemma split_frame_test: a_frame_split_across_reads_still_decodes
  by (simp add: a_frame_split_across_reads_still_decodes_def wire_tests feed_chunks_concat)

definition several_frames_in_one_read_all_decode :: bool where
  "several_frames_in_one_read_all_decode =
     (let a = Ack 1 False; b = Data 0 1 False [0x01, 0x02] in
      case (encode a, encode b) of
        (Inr bs, Inr cs) \<Rightarrow> fst (feed (bs @ cs) decoder_new) = [Frame a, Frame b]
      | _ \<Rightarrow> False)"

lemma several_frames_test: several_frames_in_one_read_all_decode
  by (simp add: several_frames_in_one_read_all_decode_def wire_tests feed_append)

text \<open>\<open>if let Some(first) = broken.first_mut() { *first ^= 0x01; }\<close>\<close>

fun corrupt_first :: "bytes \<Rightarrow> bytes" where
  "corrupt_first [] = []"
| "corrupt_first (b # bs) = (b XOR 0x01) # bs"

definition a_corrupted_frame_does_not_cost_the_next_one :: bool where
  "a_corrupted_frame_does_not_cost_the_next_one =
     (let good = Ack 4 False in
      case encode good of
        Inl _ \<Rightarrow> False
      | Inr bs \<Rightarrow>
          (case fst (feed (corrupt_first bs @ bs) decoder_new) of
             [Rejected (BadCrc _ _), f] \<Rightarrow> f = Frame good
           | _ \<Rightarrow> False))"

lemma corrupted_frame_test: a_corrupted_frame_does_not_cost_the_next_one
  by (simp add: a_corrupted_frame_does_not_cost_the_next_one_def encoded feed_append, simp add: wire_bytes push_def finish_def from_parts_def decoder_new_def decoder_reset_def, code_simp)

definition a_bad_crc_is_recoverable_by_nak_and_a_protocol_error_is_not :: bool where
  "a_bad_crc_is_recoverable_by_nak_and_a_protocol_error_is_not =
     (is_recoverable_by_nak (BadCrc 1 2) \<and> \<not> is_recoverable_by_nak (InvalidControl 0xff 0))"

lemma recoverable_test: a_bad_crc_is_recoverable_by_nak_and_a_protocol_error_is_not
  by code_simp

definition a_cancel_discards_the_partial_frame_without_an_error :: bool where
  "a_cancel_discards_the_partial_frame_without_an_error =
     (let (out1, d1) = feed [0x25, 0xaa, 0xbb] decoder_new; (out2, d2) = feed [CANCEL] d1 in
      out1 = [] \<and> out2 = [] \<and>
      (case encode Rst of Inl _ \<Rightarrow> False | Inr bs \<Rightarrow> fst (feed bs d2) = [Frame Rst]))"

lemma cancel_test: a_cancel_discards_the_partial_frame_without_an_error
  by (simp add: a_cancel_discards_the_partial_frame_without_an_error_def wire_tests push_def decoder_new_def decoder_reset_def,
      simp add: start_fold feed_wire)

definition a_substitute_marks_the_frame_bad_but_still_consumes_it :: bool where
  "a_substitute_marks_the_frame_bad_but_still_consumes_it =
     (let (_, d1) = feed [0x25, 0xaa] decoder_new;
          (out2, d2) = feed [SUBSTITUTE, 0xbb, 0xcc] d1;
          (out3, d3) = feed [FLAG] d2;
          frame = Ack 0 False
      in out2 = [] \<and> out3 = [Rejected Substituted] \<and>
         (case encode frame of Inl _ \<Rightarrow> False | Inr bs \<Rightarrow> fst (feed bs d3) = [Frame frame]))"

lemma substitute_test: a_substitute_marks_the_frame_bad_but_still_consumes_it
  by (simp add: a_substitute_marks_the_frame_bad_but_still_consumes_it_def wire_tests push_def decoder_new_def decoder_reset_def
      finish_def, simp add: start_fold feed_wire)

text \<open>The loop puts an \<open>XON\<close> before the byte with index 1.\<close>

definition flow_control_bytes_are_ignored_mid_frame :: bool where
  "flow_control_bytes_are_ignored_mid_frame =
     (let frame = Ack 2 False in
      case encode frame of
        Inl _ \<Rightarrow> False
      | Inr bs \<Rightarrow>
          (let stream = concat (map (\<lambda>(i, b). if i = 1 then [XON, b] else [b]) (enumerate 0 bs))
           in fst (feed stream decoder_new) = [Frame frame]))"

lemma flow_control_test: flow_control_bytes_are_ignored_mid_frame
  by (simp add: flow_control_bytes_are_ignored_mid_frame_def encoded, simp add: wire_bytes enumerate_eq_zip push_def finish_def from_parts_def decoder_new_def decoder_reset_def, code_simp)

definition repeated_delimiters_produce_nothing_rather_than_errors :: bool where
  "repeated_delimiters_produce_nothing_rather_than_errors =
     (fst (feed [FLAG, FLAG, FLAG] decoder_new) = [])"

lemma delimiters_test: repeated_delimiters_produce_nothing_rather_than_errors
  by code_simp

definition a_frame_too_short_to_hold_a_crc_is_refused :: bool where
  "a_frame_too_short_to_hold_a_crc_is_refused =
     (case fst (feed [0x25, 0xaa, FLAG] decoder_new) of Rejected (TooShort _ _) # _ \<Rightarrow> True | _ \<Rightarrow> False)"

lemma too_short_test: a_frame_too_short_to_hold_a_crc_is_refused
  by code_simp

definition a_stream_with_no_delimiter_does_not_grow_without_bound :: bool where
  "a_stream_with_no_delimiter_does_not_grow_without_bound =
     (let (_, d1) = feed (replicate 10000 0xaa) decoder_new in
      case fst (feed [FLAG] d1) of Rejected (TooLong _ _) # _ \<Rightarrow> True | _ \<Rightarrow> False)"

text \<open>The ten thousand bytes are not computed: the decoder ignores all after the first 133.\<close>

lemma feed_full:
  "length (partial d) = 133 \<Longrightarrow>
   snd (feed (replicate (Suc n) 0xaa) d) = d\<lparr>escaped := False, dropping := Some (TooLong 134 133)\<rparr>"
proof (induction n arbitrary: d)
  case (Suc n)
  have "snd (push 0xaa d) = d\<lparr>escaped := False, dropping := Some (TooLong 134 133)\<rparr>"
    using Suc.prems by (simp add: push_def const_defs Let_def)
  with Suc show ?case by (simp only: replicate_Suc [of "Suc n"] feed_snd_Cons) simp
qed (simp add: push_def const_defs Let_def)

lemma no_delimiter_test: a_stream_with_no_delimiter_does_not_grow_without_bound
proof -
  have "stuff (replicate n 0xaa) = replicate n 0xaa" for n
    by (induction n) (simp_all add: is_reserved_def const_defs)
  then have "snd (feed (replicate 133 0xaa) decoder_new) = \<lparr>partial = replicate 133 0xaa, escaped = False, dropping = None\<rparr>"
    using feed_stuff_new [of "replicate 133 0xaa"] by (simp add: const_defs)
  moreover have "replicate 10000 (0xaa :: u8) = replicate 133 0xaa @ replicate (Suc 9866) 0xaa"
    by (simp only: replicate_add [symmetric]) simp
  moreover have "snd (feed (replicate (Suc 9866) 0xaa) \<lparr>partial = replicate 133 0xaa, escaped = False, dropping = None\<rparr>) =
      \<lparr>partial = replicate 133 0xaa, escaped = False, dropping = Some (TooLong 134 133)\<rparr>"
    by (subst feed_full) simp_all
  ultimately have "dropping (snd (feed (replicate 10000 0xaa) decoder_new)) = Some (TooLong 134 133)"
    by (simp only: feed_snd_append decoder.select_convs)
  then show ?thesis
    by (simp add: a_stream_with_no_delimiter_does_not_grow_without_bound_def feed_FLAG finish_def case_prod_unfold
        del: feed.simps)
qed

definition an_escape_at_the_end_of_a_read_carries_into_the_next :: bool where
  "an_escape_at_the_end_of_a_read_carries_into_the_next =
     (let frame = Data 0 0 False [FLAG XOR 0x42] in
      case encode frame of
        Inl _ \<Rightarrow> False
      | Inr bs \<Rightarrow>
          (case position (\<lambda>b. b = ESCAPE) bs of
             None \<Rightarrow> False
           | Some escape_at \<Rightarrow>
               (let (out, d) = feed (take (escape_at + 1) bs) decoder_new in
                out = [] \<and> fst (feed (drop (escape_at + 1) bs) d) = [Frame frame])))"

lemma split_escape_test: an_escape_at_the_end_of_a_read_carries_into_the_next
  by (simp add: an_escape_at_the_end_of_a_read_carries_into_the_next_def encoded, simp add: wire_bytes push_def finish_def from_parts_def decoder_new_def decoder_reset_def, code_simp)

section \<open>The connection\<close>

text \<open>\<open>connected()\<close>, whose own assertions are the lemma.\<close>

definition connected_connection :: connection where
  "connected_connection = snd (on_frame (RstAck 2 0x0b) (snd (begin_reset connection_new)))"

lemma connected_connection_test:
  "fst (begin_reset connection_new) = Send Rst \<and> is_connected connected_connection"
  by code_simp

definition data_is_refused_before_the_handshake_completes :: bool where
  "data_is_refused_before_the_handshake_completes =
     (let (r1, c1) = send_data [0x00] connection_new; (_, c2) = begin_reset c1; (r2, c3) = send_data [0x00] c2
      in r1 = Inl AshNotConnected \<and> \<not> succeeds r2)"

lemma refused_data_test: data_is_refused_before_the_handshake_completes
  by code_simp

definition the_handshake_resets_both_counters :: bool where
  "the_handshake_resets_both_counters =
     (let (r1, c1) = send_data [0x01] connected_connection; (r2, c2) = send_data [0x02] c1;
          c3 = snd (on_frame (RstAck 2 0x0b) c2)
      in succeeds r1 \<and> succeeds r2 \<and> next_tx_frame c2 = 2 \<and>
         next_tx_frame c3 = 0 \<and> next_rx_frame c3 = 0 \<and> in_flight_count c3 = 0)"

lemma handshake_test: the_handshake_resets_both_counters
  by code_simp

definition an_unprompted_rstack_reconnects_rather_than_erroring :: bool where
  "an_unprompted_rstack_reconnects_rather_than_erroring =
     is_connected (snd (on_frame (RstAck 2 0x02) connection_new))"

lemma unprompted_rstack_test: an_unprompted_rstack_reconnects_rather_than_erroring
  by code_simp

definition a_data_frame_is_delivered_and_acknowledged_together :: bool where
  "a_data_frame_is_delivered_and_acknowledged_together =
     (fst (on_frame (Data 0 0 False [0xaa]) connected_connection) = (Some [0xaa], Send (Ack 1 False)))"

lemma delivered_and_acknowledged_test: a_data_frame_is_delivered_and_acknowledged_together
  by code_simp

fun acknowledges_with :: "u8 \<Rightarrow> outbound \<Rightarrow> bool" where
  "acknowledges_with a (Send (Ack n _)) = (n = a)"
| "acknowledges_with _ _ = False"

definition a_duplicate_frame_is_acknowledged_but_not_delivered_twice :: bool where
  "a_duplicate_frame_is_acknowledged_but_not_delivered_twice =
     (let ((p1, _), c1) = on_frame (Data 0 0 False [0xaa]) connected_connection;
          ((p2, out), c2) = on_frame (Data 0 0 True [0xaa]) c1
      in p1 = Some [0xaa] \<and> p2 = None \<and> acknowledges_with 1 out)"

lemma duplicate_frame_test: a_duplicate_frame_is_acknowledged_but_not_delivered_twice
  by code_simp

definition an_out_of_sequence_frame_is_not_accepted_out_of_order :: bool where
  "an_out_of_sequence_frame_is_not_accepted_out_of_order =
     (let (p, out) = fst (on_frame (Data 3 0 False [0xbb]) connected_connection)
      in p = None \<and> acknowledges_with 0 out)"

lemma out_of_sequence_test: an_out_of_sequence_frame_is_not_accepted_out_of_order
  by code_simp

definition a_nak_resends_the_oldest_frame_with_the_retransmit_bit_set :: bool where
  "a_nak_resends_the_oldest_frame_with_the_retransmit_bit_set =
     (let (r, c) = send_data [0x11] connected_connection; (_, out) = fst (on_frame (Nak 0 False) c) in
      succeeds r \<and>
      (case out of Send (Data fn _ rt p) \<Rightarrow> fn = 0 \<and> p = [0x11] \<and> rt | _ \<Rightarrow> False))"

lemma nak_test: a_nak_resends_the_oldest_frame_with_the_retransmit_bit_set
  by code_simp

text \<open>The loops \<open>for n in .. { connection.send_data(..).expect(..) }\<close>: \<open>None\<close> when one fails.\<close>

fun send_each :: "bytes list \<Rightarrow> connection \<Rightarrow> connection option" where
  "send_each [] c = Some c"
| "send_each (p # ps) c = (case send_data p c of (Inr _, c1) \<Rightarrow> send_each ps c1 | (Inl _, _) \<Rightarrow> None)"

definition window_of :: "nat \<Rightarrow> bytes list" where
  "window_of m = map (\<lambda>n. [word_of_nat n]) [0..<m]"

definition an_ack_retires_frames_across_the_sequence_wrap :: bool where
  "an_ack_retires_frames_across_the_sequence_wrap =
     (case send_each (window_of MAX_WINDOW) connected_connection of
        None \<Rightarrow> False
      | Some c1 \<Rightarrow>
          (let c2 = snd (on_frame (Ack 7 False) c1) in
           in_flight_count c1 = MAX_WINDOW \<and> in_flight_count c2 = 0 \<and>
           (case send_each [[0x10], [0x11], [0x12]] c2 of
              None \<Rightarrow> False
            | Some c3 \<Rightarrow>
                (let c4 = snd (on_frame (Ack 0 False) c3); c5 = snd (on_frame (Ack 2 False) c4) in
                 in_flight_count c4 = 2 \<and> in_flight_count c5 = 0))))"

lemma sequence_wrap_ack_test: an_ack_retires_frames_across_the_sequence_wrap
  by code_simp

definition the_send_window_stops_one_short_of_the_sequence_space :: bool where
  "the_send_window_stops_one_short_of_the_sequence_space =
     (case send_each (window_of MAX_WINDOW) connected_connection of
        None \<Rightarrow> False
      | Some c1 \<Rightarrow>
          (let (r2, c2) = send_data [0xff] c1; c3 = snd (on_frame (Ack 3 False) c2) in
           (case r2 of Inl (WindowFull _ _) \<Rightarrow> True | _ \<Rightarrow> False) \<and> succeeds (fst (send_data [0xff] c3))))"

lemma send_window_test: the_send_window_stops_one_short_of_the_sequence_space
  by code_simp

definition an_ack_retires_only_what_it_covers :: bool where
  "an_ack_retires_only_what_it_covers =
     (case send_each [[0], [1], [2]] connected_connection of
        None \<Rightarrow> False
      | Some c \<Rightarrow> in_flight_count (snd (on_frame (Ack 2 False) c)) = 1)"

lemma partial_ack_test: an_ack_retires_only_what_it_covers
  by code_simp

definition the_link_fails_after_too_many_resends_rather_than_looping :: bool where
  "the_link_fails_after_too_many_resends_rather_than_looping =
     (let (r, c1) = send_data [0x11] connected_connection;
          (_, c2) = call_times (unat MAX_RETRANSMITS) retransmit_oldest c1
      in succeeds r \<and> state c2 = Failed \<and> fst (retransmit_oldest c2) = Nothing)"

lemma too_many_resends_test: the_link_fails_after_too_many_resends_rather_than_looping
  by code_simp

definition reset_gives_up_after_a_bounded_number_of_attempts :: bool where
  "reset_gives_up_after_a_bounded_number_of_attempts =
     (let (outs, c1) = call_times (unat MAX_RESET_ATTEMPTS) begin_reset connection_new; (out, c2) = begin_reset c1
      in list_all (\<lambda>x. x = Send Rst) outs \<and> out = Nothing \<and> state c2 = Failed)"

lemma bounded_reset_test: reset_gives_up_after_a_bounded_number_of_attempts
  by code_simp

definition an_ncp_error_frame_fails_the_link_without_retrying :: bool where
  "an_ncp_error_frame_fails_the_link_without_retrying =
     (let (r, c1) = send_data [0x11] connected_connection; c2 = snd (on_frame (Error 2 0x51) c1)
      in succeeds r \<and> state c2 = Failed \<and> in_flight_count c2 = 0)"

lemma error_frame_test: an_ncp_error_frame_fails_the_link_without_retrying
  by code_simp

definition a_bad_crc_produces_a_nak_and_a_protocol_error_does_not :: bool where
  "a_bad_crc_produces_a_nak_and_a_protocol_error_does_not =
     (let (nak, c1) = on_decode_failure (BadCrc 1 2) connected_connection;
          (nothing, c2) = on_decode_failure (InvalidControl 0xff 0) c1
      in (case nak of Send (Nak _ _) \<Rightarrow> True | _ \<Rightarrow> False) \<and> nothing = Nothing)"

lemma bad_crc_nak_test: a_bad_crc_produces_a_nak_and_a_protocol_error_does_not
  by code_simp

end
