(* ===== verification/TestsTypes.thy ===== *)
theory TestsTypes
  imports TestsAsh Texts TypesAps Serial
begin

text \<open>
  The unit tests of the types (\<open>types/*.rs\<close>), of the versions and errors (\<open>ezsp/version.rs\<close>,
  \<open>ezsp/error.rs\<close>) and of the serial port's settings over the model. \<open>Writer::new\<close>, a call of
  \<open>encode\<close> that is expected to succeed and \<open>into_vec\<close> is \<open>written_by\<close>; \<open>Reader::new\<close> and a decoder are
  \<open>read_with\<close>; \<open>yields\<close> is an expected value with what is asserted about it; \<open>text_contains\<close> is
  \<open>str::contains\<close>.
\<close>

definition V13 :: protocol_version where [const_defs]: "V13 = ProtocolVersion 0x0d"
definition V14 :: protocol_version where [const_defs]: "V14 = ProtocolVersion 0x0e"

lemma le_bytes_4: "le_bytes 4 w = [ucast w, ucast (drop_bit 8 w), ucast (drop_bit 16 w), ucast (drop_bit 24 w)]"
  by (simp add: eval_nat_numeral)

definition written_by :: "encode \<Rightarrow> protocol_version \<Rightarrow> bytes option" where
  "written_by m v = (case m (writer_new v) of (Inr _, w) \<Rightarrow> Some (writer_bytes w) | _ \<Rightarrow> None)"

definition read_with :: "'a decode \<Rightarrow> bytes \<Rightarrow> protocol_version \<Rightarrow> (ezsp_error + 'a) \<times> reader" where
  "read_with m bs v = m (reader_new bs v)"

fun yields :: "'e + 'a \<Rightarrow> ('a \<Rightarrow> bool) \<Rightarrow> bool" where
  "yields (Inr x) P = P x"
| "yields (Inl _) P = False"

fun text_contains :: "string \<Rightarrow> string \<Rightarrow> bool" where
  "text_contains p [] = (p = [])"
| "text_contains p (c # cs) = (prefix p (c # cs) \<or> text_contains p cs)"

text \<open>Evaluation of readers and writers on given bytes.\<close>

lemmas codec_eval = read_with_def written_by_def andthen_def ret_def throw_def with_version_def with_writer_version_def
  reader_new_def reader_u8_def reader_u16_def reader_u32_def reader_array_def reader_length_prefixed_def reader_take_def
  usize_checked_add_def get_range_def remaining_def reader_is_empty_def writer_new_def writer_u8_def writer_u16_def
  writer_u32_def writer_put_def le_bytes_2 le_bytes_4 const_defs Let_def

text \<open>Evaluation of printed numbers.\<close>

lemma hex_step:
  "n < 16 \<Longrightarrow> hex_digits n = [hex_digit n]" "\<not> n < 16 \<Longrightarrow> hex_digits n = hex_digits (n div 16) @ [hex_digit (n mod 16)]"
  by (simp_all add: hex_digits.simps [of n])

lemma decimal_step:
  "n < 10 \<Longrightarrow> decimal n = [hex_digit n]" "\<not> n < 10 \<Longrightarrow> decimal n = decimal (n div 10) @ [hex_digit (n mod 10)]"
  by (simp_all add: decimal.simps [of n] hex_digit_def)

lemma hex_table:
  "hex_digit 0 = CHR ''0''" "hex_digit 1 = CHR ''1''" "hex_digit (Suc 0) = CHR ''1''" "hex_digit 2 = CHR ''2''" "hex_digit 3 = CHR ''3''"
  "hex_digit 4 = CHR ''4''" "hex_digit 5 = CHR ''5''" "hex_digit 6 = CHR ''6''" "hex_digit 7 = CHR ''7''"
  "hex_digit 8 = CHR ''8''" "hex_digit 9 = CHR ''9''" "hex_digit 10 = CHR ''a''" "hex_digit 11 = CHR ''b''"
  "hex_digit 12 = CHR ''c''" "hex_digit 13 = CHR ''d''" "hex_digit 14 = CHR ''e''" "hex_digit 15 = CHR ''f''"
  by code_simp+

lemmas number_text = hex_text_def hex_step decimal_step hex_table

lemma refuses_shorter:
  assumes "ezsp_fixed_decode dec w" "m \<le> w v" "w v < 2 ^ 63"
  shows "list_all (\<lambda>len. \<not> succeeds (fst (read_with dec (replicate len 0) v))) [0..<m]"
proof -
  have "\<not> succeeds (fst (read_with dec (replicate len 0) v))" if "len < m" for len
    using ezsp_fixed_decode.too_short_fails [OF assms(1), of "replicate len 0" v] assms(2,3) that
    by (auto simp: read_with_def)
  then show ?thesis by (simp add: list_all_iff)
qed

section \<open>Keys\<close>

text \<open>\<open>b"ZigBeeAlliance09"\<close>\<close>

definition ascii :: "string \<Rightarrow> bytes" where
  "ascii s = map of_char s"

definition the_well_known_key_is_the_specified_ascii :: bool where
  "the_well_known_key_is_the_specified_ascii =
     (expose ZIGBEE_ALLIANCE_09 = ascii ''ZigBeeAlliance09'' \<and> length (expose ZIGBEE_ALLIANCE_09) = 16)"

lemma well_known_key_test: the_well_known_key_is_the_specified_ascii
  by code_simp

definition a_key_never_prints_itself :: bool where
  "a_key_never_prints_itself =
     (let key = SecurityKey (replicate 16 0xab); debug = security_key_debug key in
      text_contains ''redacted'' debug \<and> \<not> text_contains ''171'' debug \<and> \<not> text_contains ''ab'' debug \<and>
      security_key_text key = ''<redacted>'')"

lemma key_prints_test: a_key_never_prints_itself
  by code_simp

definition a_key_encodes_as_sixteen_raw_bytes :: bool where
  "a_key_encodes_as_sixteen_raw_bytes =
     (written_by (security_key_encode ZIGBEE_ALLIANCE_09) (ProtocolVersion 0x0d) = Some (ascii ''ZigBeeAlliance09''))"

lemma key_encode_test: a_key_encodes_as_sixteen_raw_bytes
  by (simp add: a_key_encodes_as_sixteen_raw_bytes_def security_key_encode_def codec_eval ascii_def)

definition a_key_never_renders_its_bytes :: bool where
  "a_key_never_renders_its_bytes =
     (let key = SecurityKey (replicate 16 0xab) in
      list_all (\<lambda>rendered. \<not> text_contains ''ab'' rendered \<and> text_contains ''redacted'' rendered)
        [security_key_debug key, security_key_text key])"

lemma key_renders_test: a_key_never_renders_its_bytes
  by code_simp

text \<open>\<open>derive(Debug)\<close> of the structure, whose keys are printed by their own \<open>Debug\<close>.\<close>

definition initial_security_state_debug :: "initial_security_state \<Rightarrow> string" where
  "initial_security_state_debug s = struct_debug ''InitialSecurityState''
     [(''bitmask'', tuple_debug ''InitialSecurityBitmask'' (bitmask_raw (bitmask s))),
      (''preconfigured_key'', security_key_debug (preconfigured_key s)), (''network_key'', security_key_debug (network_key s)),
      (''network_key_sequence_number'', number_debug (network_key_sequence_number s)),
      (''preconfigured_trust_center_eui64'', eui64_debug (preconfigured_trust_center_eui64 s))]"

definition a_struct_containing_a_key_redacts_it_too :: bool where
  "a_struct_containing_a_key_redacts_it_too =
     (let state = \<lparr>bitmask = HAVE_NETWORK_KEY, preconfigured_key = SecurityKey (replicate 16 0x11),
            network_key = SecurityKey (replicate 16 0x22), network_key_sequence_number = 0,
            preconfigured_trust_center_eui64 = Eui64 0\<rparr>;
          rendered = initial_security_state_debug state
      in \<not> text_contains ''11'' rendered \<and> \<not> text_contains ''22'' rendered)"

lemma struct_redacts_test: a_struct_containing_a_key_redacts_it_too
  proof -
  have "number_debug (512 :: u16) = ''512''" "number_debug (0 :: u8) = ''0''"
    by (simp_all add: number_debug_def number_text)
  moreover have "eui64_debug (Eui64 0) = ''0x0000000000000000''"
    by (simp add: eui64_debug_def eui64_text_def number_text numeral_eq_Suc)
  ultimately show ?thesis
    by (simp add: a_struct_containing_a_key_redacts_it_too_def initial_security_state_debug_def struct_debug_def
        security_key_debug_def tuple_debug_def const_defs Let_def)
qed

text \<open>Whatever the keys: the text does not depend on them.\<close>

lemma security_state_hides_its_keys:
  "initial_security_state_debug (s\<lparr>preconfigured_key := k, network_key := n\<rparr>) = initial_security_state_debug s"
  by (simp add: initial_security_state_debug_def security_key_debug_def)

definition every_frame_carrying_a_key_is_marked_for_redaction :: bool where
  "every_frame_carrying_a_key_is_marked_for_redaction =
     (list_all carries_key_material
        [ID_EXPORT_KEY, ID_IMPORT_TRANSIENT_KEY, ID_SET_INITIAL_SECURITY_STATE, ID_GET_NETWORK_KEY_INFO] \<and>
      list_all (\<lambda>i. \<not> carries_key_material i) [ID_VERSION, ID_GET_EUI64, ID_SEND_UNICAST, ID_NETWORK_INIT])"

lemma marked_frames_test: every_frame_carrying_a_key_is_marked_for_redaction
  by code_simp

section \<open>Addresses and decisions\<close>

definition an_ieee_address_goes_out_little_endian :: bool where
  "an_ieee_address_goes_out_little_endian =
     (let address = Eui64 0x94a081fffed96e5c in
      to_wire address = [0x5c, 0x6e, 0xd9, 0xfe, 0xff, 0x81, 0xa0, 0x94] \<and>
      from_wire (to_wire address) = address \<and> eui64_text address = ''0x94a081fffed96e5c'')"

lemma address_bytes_test: an_ieee_address_goes_out_little_endian
  proof -
  have "to_wire (Eui64 0x94a081fffed96e5c) = [0x5c, 0x6e, 0xd9, 0xfe, 0xff, 0x81, 0xa0, 0x94]" by code_simp
  moreover have "eui64_text (Eui64 0x94a081fffed96e5c) = ''0x94a081fffed96e5c''"
    by (simp add: eui64_text_def number_text)
  moreover have "from_wire (to_wire e) = e" for e by (simp add: from_wire_def to_wire_def)
  ultimately show ?thesis by (simp add: an_ieee_address_goes_out_little_endian_def Let_def)
qed

definition addresses_print_in_hex_in_both_forms :: bool where
  "addresses_print_in_hex_in_both_forms =
     (let address = Eui64 0xa4c138142d62ffff; node = NodeId 14913 in
      eui64_text address = ''0xa4c138142d62ffff'' \<and> eui64_debug address = ''0xa4c138142d62ffff'' \<and>
      node_id_debug node = ''0x3a41'' \<and> node_id_text node = ''0x3a41'')"

lemma addresses_print_test: addresses_print_in_hex_in_both_forms
  by (simp add: addresses_print_in_hex_in_both_forms_def eui64_text_def eui64_debug_def node_id_text_def node_id_debug_def
      number_text)

definition the_wildcard_address_is_all_ones :: bool where
  "the_wildcard_address_is_all_ones = (to_wire EUI64_WILDCARD = replicate 8 0xff)"

lemma wildcard_test: the_wildcard_address_is_all_ones
  by code_simp

definition an_ieee_address_round_trips_through_the_codec :: bool where
  "an_ieee_address_round_trips_through_the_codec =
     (let address = Eui64 0xa4c138142d62ffff in
      case written_by (eui64_encode address) V13 of
        None \<Rightarrow> False
      | Some bs \<Rightarrow> length bs = 8 \<and> fst (read_with eui64_decode bs V13) = Inr address)"

lemma address_round_trip_test: an_ieee_address_round_trips_through_the_codec
  by (simp add: an_ieee_address_round_trips_through_the_codec_def eui64_encode_def eui64_decode_def codec_eval to_wire_def from_wire_def)

definition a_truncated_ieee_address_is_refused :: bool where
  "a_truncated_ieee_address_is_refused = (\<not> succeeds (fst (read_with eui64_decode [0x01, 0x02, 0x03] V13)))"

lemma truncated_address_test: a_truncated_ieee_address_is_refused
  by (simp add: a_truncated_ieee_address_is_refused_def eui64_decode_def codec_eval)

definition trust_centre_bits_combine_to_the_value_a_working_stack_sends :: bool where
  "trust_centre_bits_combine_to_the_value_a_working_stack_sends =
     (let decision = decision_union ALLOW_JOINS ALLOW_UNSECURED_REJOINS
      in decision_raw decision = 3 \<and> decision_raw decision \<noteq> 0)"

lemma trust_centre_bits_test: trust_centre_bits_combine_to_the_value_a_working_stack_sends
  by code_simp

section \<open>The APS header\<close>

definition an_aps_frame_is_eleven_bytes_and_has_no_radius :: bool where
  "an_aps_frame_is_eleven_bytes_and_has_no_radius =
     (let frame = \<lparr>profile_id = 0x0104, cluster_id = 0x0006, source_endpoint = 1, destination_endpoint = 1,
            options = options_union APS_RETRY ENABLE_ROUTE_DISCOVERY, group_id = 0, aps_sequence = 0\<rparr> in
      case written_by (aps_frame_encode frame) V13 of
        None \<Rightarrow> False
      | Some bs \<Rightarrow> length bs = APS_FRAME_LEN \<and>
          bs = [0x04, 0x01, 0x06, 0x00, 0x01, 0x01, 0x40, 0x01, 0x00, 0x00, 0x00])"

lemma aps_bytes_test: an_aps_frame_is_eleven_bytes_and_has_no_radius
  by (simp add: an_aps_frame_is_eleven_bytes_and_has_no_radius_def aps_frame_encode_def options_union_def codec_eval)

definition an_aps_frame_round_trips :: bool where
  "an_aps_frame_round_trips =
     (let frame = \<lparr>profile_id = 0x0000, cluster_id = 0x8004, source_endpoint = 0, destination_endpoint = 0,
            options = ApsOptions 0x0140, group_id = 0x1234, aps_sequence = 0x27\<rparr> in
      case written_by (aps_frame_encode frame) V13 of
        None \<Rightarrow> False
      | Some bs \<Rightarrow> (let (decoded, r) = read_with aps_frame_decode bs V13 in decoded = Inr frame \<and> reader_is_empty r))"

lemma aps_round_trip_test: an_aps_frame_round_trips
  by (simp add: an_aps_frame_round_trips_def aps_frame_encode_def aps_frame_decode_def codec_eval)

definition a_truncated_aps_frame_is_refused_at_every_length :: bool where
  "a_truncated_aps_frame_is_refused_at_every_length =
     list_all (\<lambda>len. \<not> succeeds (fst (read_with aps_frame_decode (replicate len 0) V13))) [0..<APS_FRAME_LEN]"

lemma truncated_aps_test: a_truncated_aps_frame_is_refused_at_every_length
  by (simp add: a_truncated_aps_frame_is_refused_at_every_length_def const_defs refuses_shorter [OF aps_frame_fixed.ezsp_fixed_decode_axioms])

definition options_combine_without_losing_bits :: bool where
  "options_combine_without_losing_bits =
     (let combined = options_union APS_RETRY ENABLE_ROUTE_DISCOVERY in
      options_contains combined APS_RETRY \<and> options_contains combined ENABLE_ROUTE_DISCOVERY \<and>
      options_raw combined = 0x0140)"

lemma options_test: options_combine_without_losing_bits
  by code_simp

section \<open>Statuses\<close>

definition a_status_is_one_byte_below_ezsp_fourteen_and_four_above :: bool where
  "a_status_is_one_byte_below_ezsp_fourteen_and_four_above =
     (let bs = [0x00, 0x11, 0x22, 0x33];
          (n, narrow) = read_with sl_status_decode bs (ProtocolVersion 0x0d);
          (w, wide) = read_with sl_status_decode bs (ProtocolVersion 0x0e)
      in n = Inr STATUS_OK \<and> remaining narrow = 3 \<and>
         remaining (reader_new bs (ProtocolVersion 0x0e)) - 4 = 0 \<and>
         w = Inr (SlStatus 0x33221100) \<and> reader_is_empty wide)"

lemma status_width_test: a_status_is_one_byte_below_ezsp_fourteen_and_four_above
  by (simp add: a_status_is_one_byte_below_ezsp_fourteen_and_four_above_def sl_status_decode_def has_wide_status_def codec_eval)

definition an_unknown_status_keeps_its_value :: bool where
  "an_unknown_status_keeps_its_value =
     (let status = SlStatus 0x0b42 in \<not> is_ok status \<and> text_contains ''0x0b42'' (status_text status))"

lemma unknown_status_test: an_unknown_status_keeps_its_value
  by code_simp

definition only_zero_is_success :: bool where
  "only_zero_is_success =
     (is_ok STATUS_OK \<and> succeeds (into_result STATUS_OK) \<and>
      list_all (\<lambda>n. \<not> is_ok (SlStatus n) \<and> (case into_result (SlStatus n) of Inl (Status _) \<Rightarrow> True | _ \<Rightarrow> False))
        [1, 0x21, 0x0b13, 0xffffffff])"

lemma success_test: only_zero_is_success
  by code_simp

section \<open>Versions\<close>

definition the_boundary_is_at_fourteen_and_is_exclusive_below :: bool where
  "the_boundary_is_at_fourteen_and_is_exclusive_below =
     (let thirteen = ProtocolVersion 0x0d; fourteen = ProtocolVersion 0x0e in
      \<not> has_wide_status thirteen \<and> has_wide_status fourteen \<and>
      \<not> has_wide_message_tag thirteen \<and> has_wide_message_tag fourteen \<and>
      has_transient_key_flags thirteen \<and> \<not> has_transient_key_flags fourteen)"

lemma boundary_test: the_boundary_is_at_fourteen_and_is_exclusive_below
  by code_simp

definition support_is_bounded_at_both_ends :: bool where
  "support_is_bounded_at_both_ends =
     (is_supported MIN_SUPPORTED \<and> is_supported MAX_SUPPORTED \<and>
      \<not> is_supported (ProtocolVersion 0x0c) \<and> \<not> is_supported (ProtocolVersion 0x14))"

lemma support_test: support_is_bounded_at_both_ends
  by code_simp

definition the_preferred_version_is_one_we_can_actually_speak :: bool where
  "the_preferred_version_is_one_we_can_actually_speak = is_supported PREFERRED"

lemma preferred_version_test: the_preferred_version_is_one_we_can_actually_speak
  by code_simp

section \<open>Errors\<close>

definition errors_say_enough_to_act_on :: bool where
  "errors_say_enough_to_act_on =
     (let txt = ezsp_error_text (TruncatedFrame 4 1) in
      text_contains ''4'' txt \<and> text_contains ''1'' txt \<and>
      text_contains ''3'' (ezsp_error_text (TrailingBytes ID_VERSION 3)))"

lemma error_text_test: errors_say_enough_to_act_on
  by code_simp

definition only_the_recoverable_failures_are_transient :: bool where
  "only_the_recoverable_failures_are_transient =
     (is_transient (Timeout ID_VERSION) \<and> is_transient (NcpReset ID_VERSION) \<and>
      \<not> is_transient (TruncatedFrame 1 0) \<and> \<not> is_transient (Status STATUS_FAIL))"

lemma transient_test: only_the_recoverable_failures_are_transient
  by code_simp

section \<open>The serial port\<close>

definition flow_control_defaults_to_off :: bool where
  "flow_control_defaults_to_off = (\<not> rtscts default_settings \<and> baud default_settings = 115200)"

lemma default_settings_test: flow_control_defaults_to_off
  by code_simp

text \<open>The operating system has no such port, which is what the test relies on.\<close>

definition a_missing_port_fails_fast_rather_than_hanging :: "'d driver \<Rightarrow> bool" where
  "a_missing_port_fails_fast_rather_than_hanging d =
     (case serial_open d ''/dev/definitely-not-a-port'' default_settings of Inl (Open _ _) \<Rightarrow> True | _ \<Rightarrow> False)"

lemma missing_port_test:
  "d_open d ''/dev/definitely-not-a-port'' 115200 NoFlowControl = Inl e \<Longrightarrow> a_missing_port_fails_fast_rather_than_hanging d"
  by (simp add: a_missing_port_fails_fast_rather_than_hanging_def serial_open_def default_settings_def)

section \<open>The scripted transport\<close>

text \<open>A read that does not resolve before the test's timeout is \<open>ReadPending\<close>.\<close>

definition chunks_come_back_in_order_and_writes_are_recorded :: bool where
  "chunks_come_back_in_order_and_writes_are_recorded =
     (let (w, t1) = fake_write [0xaa] (fake_with_chunks [[0x01], [0x02, 0x03]]);
          (a, t2) = fake_read t1; (b, t3) = fake_read t2
      in succeeds w \<and> a = ReadOk [0x01] \<and> b = ReadOk [0x02, 0x03] \<and> written t3 = [0xaa] \<and> is_drained t3)"

lemma chunks_test: chunks_come_back_in_order_and_writes_are_recorded
  by code_simp

definition a_drained_but_open_transport_pends_rather_than_closing :: bool where
  "a_drained_but_open_transport_pends_rather_than_closing =
     (fst (fake_read (fake_with_chunks [])) = ReadPending)"

lemma drained_test: a_drained_but_open_transport_pends_rather_than_closing
  by code_simp

definition an_explicitly_closed_transport_reports_closed :: bool where
  "an_explicitly_closed_transport_reports_closed =
     (fst (fake_read (close_fake (fake_with_chunks []))) = ReadFailed TransportClosed)"

lemma closed_test: an_explicitly_closed_transport_reports_closed
  by code_simp

definition a_scripted_failure_surfaces_once :: bool where
  "a_scripted_failure_surfaces_once =
     (let t = set_fail_next_read (Io ''read'' ''scripted'') (fake_with_chunks [[0x01]]);
          (a, t1) = fake_read t; (b, t2) = fake_read t1
      in (case a of ReadFailed _ \<Rightarrow> True | _ \<Rightarrow> False) \<and> b = ReadOk [0x01])"

lemma failure_test: a_scripted_failure_surfaces_once
  by code_simp

end
