(* ===== verification/TestsEzsp.thy ===== *)
theory TestsEzsp
  imports TestsTypes Correlation
begin

text \<open>
  The unit tests of the EZSP framing over the model: the reader and the writer (\<open>ezsp/codec.rs\<close>),
  the headers (\<open>ezsp/frame.rs\<close>) and the correlator (\<open>ezsp/correlation.rs\<close>).
\<close>

section \<open>The reader and the writer\<close>

definition integers_round_trip_little_endian :: bool where
  "integers_round_trip_little_endian =
     (case written_by (andthen (writer_u8 0x12) (\<lambda>_. andthen (writer_u16 0x3456) (\<lambda>_. writer_u32 0x89abcdef))) V13 of
        None \<Rightarrow> False
      | Some bs \<Rightarrow>
          (let (a, r1) = reader_u8 (reader_new bs V13); (b, r2) = reader_u16 r1; (c, r3) = reader_u32 r2
           in bs = [0x12, 0x56, 0x34, 0xef, 0xcd, 0xab, 0x89] \<and>
              a = Inr 0x12 \<and> b = Inr 0x3456 \<and> c = Inr 0x89abcdef \<and> reader_is_empty r3))"

lemma integers_test: integers_round_trip_little_endian
  by (simp add: integers_round_trip_little_endian_def codec_eval)

definition a_truncated_read_says_what_was_missing :: bool where
  "a_truncated_read_says_what_was_missing =
     (case reader_u32 (reader_new [0x01] V13) of
        (Inl (TruncatedFrame needed available), _) \<Rightarrow> needed = 4 \<and> available = 1
      | _ \<Rightarrow> False)"

lemma truncated_read_test: a_truncated_read_says_what_was_missing
  by (simp add: a_truncated_read_says_what_was_missing_def codec_eval)

definition a_failed_read_does_not_advance_the_cursor :: bool where
  "a_failed_read_does_not_advance_the_cursor =
     (let (a, r1) = reader_u32 (reader_new [0xaa, 0xbb] V13); (b, _) = reader_u16 r1
      in \<not> succeeds a \<and> remaining r1 = 2 \<and> b = Inr 0xbbaa)"

lemma failed_read_test: a_failed_read_does_not_advance_the_cursor
  by (simp add: a_failed_read_does_not_advance_the_cursor_def codec_eval)

definition a_length_prefix_longer_than_the_frame_is_refused :: bool where
  "a_length_prefix_longer_than_the_frame_is_refused =
     (case fst (reader_length_prefixed (reader_new [0x40, 0x01, 0x02] V13)) of
        Inl (TruncatedFrame needed _) \<Rightarrow> needed = 0x40
      | _ \<Rightarrow> False)"

lemma long_prefix_test: a_length_prefix_longer_than_the_frame_is_refused
  by (simp add: a_length_prefix_longer_than_the_frame_is_refused_def codec_eval)

definition a_length_prefix_of_zero_is_valid_and_empty :: bool where
  "a_length_prefix_of_zero_is_valid_and_empty =
     (fst (reader_length_prefixed (reader_new [0x00] V13)) = Inr [])"

lemma zero_prefix_test: a_length_prefix_of_zero_is_valid_and_empty
  by (simp add: a_length_prefix_of_zero_is_valid_and_empty_def codec_eval)

definition a_payload_too_long_to_describe_is_refused_not_truncated :: bool where
  "a_payload_too_long_to_describe_is_refused_not_truncated =
     (case fst (writer_length_prefixed (replicate 300 0) (writer_new V13)) of
        Inl (PayloadTooLong n _) \<Rightarrow> n = 300
      | _ \<Rightarrow> False)"

lemma long_payload_test: a_payload_too_long_to_describe_is_refused_not_truncated
  by (simp add: a_payload_too_long_to_describe_is_refused_not_truncated_def writer_length_prefixed_def throw_def)

text \<open>\<open>usize::MAX\<close>\<close>

definition take_cannot_be_tricked_into_overflowing :: bool where
  "take_cannot_be_tricked_into_overflowing =
     (let (a, r) = reader_take (2 ^ 64 - 1) (reader_new [0x01, 0x02] V13)
      in \<not> succeeds a \<and> remaining r = 2)"

lemma overflow_test: take_cannot_be_tricked_into_overflowing
  by (simp add: take_cannot_be_tricked_into_overflowing_def codec_eval)

section \<open>Headers\<close>

definition the_bootstrap_version_command_uses_the_legacy_header :: bool where
  "the_bootstrap_version_command_uses_the_legacy_header =
     (written_by (andthen (write_header 0x00 ID_VERSION Legacy) (\<lambda>_. writer_u8 0x13)) V13 =
        Some [0x00, 0x00, 0x00, 0x13])"

lemma legacy_header_test: the_bootstrap_version_command_uses_the_legacy_header
  by (simp add: the_bootstrap_version_command_uses_the_legacy_header_def write_header_def fits_legacy_def codec_eval)

definition every_other_command_uses_the_extended_header :: bool where
  "every_other_command_uses_the_extended_header =
     (written_by (write_header 0x16 ID_IMPORT_TRANSIENT_KEY Extended) V13 = Some [0x16, 0x00, 0x01, 0x11, 0x01])"

lemma extended_header_test: every_other_command_uses_the_extended_header
  by (simp add: every_other_command_uses_the_extended_header_def write_header_def codec_eval)

definition a_legacy_header_refuses_a_frame_id_it_cannot_express :: bool where
  "a_legacy_header_refuses_a_frame_id_it_cannot_express =
     (case fst (write_header 0 ID_IMPORT_TRANSIENT_KEY Legacy (writer_new V13)) of
        Inl (MalformedHeader _) \<Rightarrow> True
      | _ \<Rightarrow> False)"

lemma refused_header_test: a_legacy_header_refuses_a_frame_id_it_cannot_express
  by (simp add: a_legacy_header_refuses_a_frame_id_it_cannot_express_def write_header_def fits_legacy_def codec_eval)

lemmas parse_eval = parse_eq header_id_def from_low_byte_def const_defs

definition a_callback_is_distinguishable_from_a_response :: bool where
  "a_callback_is_distinguishable_from_a_response =
     (yields (parse [0x16, 0x80, 0x01, 0x11, 0x01] Extended)
        (\<lambda>response. direction (frame_control response) = Response \<and> \<not> is_callback (frame_control response)) \<and>
      yields (parse [0x2b, 0x90, 0x01, 0x45, 0x00] Extended)
        (\<lambda>cb. is_callback (frame_control cb) \<and> frame_id cb = ID_INCOMING_MESSAGE_HANDLER))"

lemma distinguishable_test: a_callback_is_distinguishable_from_a_response
  by (simp add: a_callback_is_distinguishable_from_a_response_def parse_eval)

definition a_frame_too_short_for_its_header_is_refused :: bool where
  "a_frame_too_short_for_its_header_is_refused =
     (list_all (\<lambda>len. \<not> succeeds (parse (replicate len 0) Extended)) [0..<5] \<and>
      \<not> succeeds (parse [0x00, 0x00] Legacy) \<and> succeeds (parse [0x00, 0x00, 0x00] Legacy))"

lemma short_header_test: a_frame_too_short_for_its_header_is_refused
  by (simp add: a_frame_too_short_for_its_header_is_refused_def parse_eval list_all_iff)

definition a_frame_longer_than_the_protocol_allows_is_refused :: bool where
  "a_frame_longer_than_the_protocol_allows_is_refused =
     (case parse (replicate (MAX_FRAME_LENGTH + 1) 0) Extended of Inl (FrameTooLong _ _) \<Rightarrow> True | _ \<Rightarrow> False)"

lemma long_frame_test: a_frame_longer_than_the_protocol_allows_is_refused
  by (simp add: a_frame_longer_than_the_protocol_allows_is_refused_def parse_eval)

definition a_header_with_no_parameters_yields_an_empty_body_not_an_error :: bool where
  "a_header_with_no_parameters_yields_an_empty_body_not_an_error =
     yields (parse [0x01, 0x00, 0x01, 0x26, 0x00] Extended)
       (\<lambda>frame. parameters frame = [] \<and> frame_id frame = ID_GET_EUI64)"

lemma empty_body_test: a_header_with_no_parameters_yields_an_empty_body_not_an_error
  by (simp add: a_header_with_no_parameters_yields_an_empty_body_not_an_error_def parse_eval)

definition an_unknown_frame_id_reports_its_number :: bool where
  "an_unknown_frame_id_reports_its_number =
     (let i = FrameId 0x0999 in frame_id_name i = None \<and> text_contains ''0x0999'' (frame_id_text i))"

lemma unknown_id_test: an_unknown_frame_id_reports_its_number
  by (simp add: an_unknown_frame_id_reports_its_number_def frame_id_name_def frame_id_text_def number_text const_defs)

section \<open>The correlator\<close>

text \<open>
  \<open>response\<close>, \<open>callback\<close> and \<open>frame_of\<close> of the tests; \<open>classify_bytes\<close> is
  \<open>correlator.classify(&frame_of(..))\<close>, where \<open>None\<close> stands for the panic of \<open>frame_of\<close>, and
  \<open>after_begin\<close> is \<open>correlator.begin(..).expect("begins")\<close> with the rest of the test.
\<close>

definition response_frame :: "u8 \<Rightarrow> frame_id \<Rightarrow> bytes \<Rightarrow> bytes" where
  "response_frame sq i ps = [sq, 0x80, 0x01] @ le_bytes 2 (id_raw i) @ ps"

definition callback_frame :: "u8 \<Rightarrow> frame_id \<Rightarrow> bytes \<Rightarrow> bytes" where
  "callback_frame sq i ps = [sq, 0x90, 0x01] @ le_bytes 2 (id_raw i) @ ps"

definition classify_bytes :: "bytes \<Rightarrow> correlator \<Rightarrow> classified option \<times> correlator" where
  "classify_bytes bs c =
     (case parse bs Extended of
        Inl _ \<Rightarrow> (None, c)
      | Inr f \<Rightarrow> (let (r, c1) = classify f c in (Some r, c1)))"

definition after_begin :: "frame_id \<Rightarrow> correlator \<Rightarrow> (u8 \<Rightarrow> correlator \<Rightarrow> bool) \<Rightarrow> bool" where
  "after_begin i c rest = (case begin_command i c of (Inr sq, c1) \<Rightarrow> rest sq c1 | (Inl _, _) \<Rightarrow> False)"

fun was_answer :: "classified option \<Rightarrow> bool" where
  "was_answer (Some (Answer _)) = True"
| "was_answer _ = False"

fun was_callback :: "classified option \<Rightarrow> bool" where
  "was_callback (Some (CallbackFrame _ _)) = True"
| "was_callback _ = False"

fun was_stale :: "classified option \<Rightarrow> bool" where
  "was_stale (Some (Stale _ _)) = True"
| "was_stale _ = False"

lemma classify_response_frame:
  "length ps \<le> 213 \<Longrightarrow> classify_bytes (response_frame sq i ps) c =
     (if pending c = Some \<lparr>pending_sequence = sq, pending_frame_id = i\<rparr> then (Some (Answer ps), c\<lparr>pending := None\<rparr>)
      else (Some (Stale i sq), c\<lparr>stale_frames := saturating_inc (stale_frames c)\<rparr>))"
  using le_word_le_bytes [where 'a = 16, of 2 "id_raw i"]
  by (auto simp: classify_bytes_def response_frame_def le_bytes_2 parse_eval classify_def count_stale_def Let_def
      split: option.splits)

lemma classify_callback_frame:
  "length ps \<le> 213 \<Longrightarrow> classify_bytes (callback_frame sq i ps) c = (Some (CallbackFrame i ps), c)"
  using le_word_le_bytes [where 'a = 16, of 2 "id_raw i"]
  by (auto simp: classify_bytes_def callback_frame_def le_bytes_2 parse_eval classify_def)

lemmas correlator_eval = after_begin_def begin_command_def correlator_new_def is_busy_def Let_def const_defs
  classify_response_frame classify_callback_frame

definition a_callback_between_send_and_response_does_not_answer_the_command :: bool where
  "a_callback_between_send_and_response_does_not_answer_the_command =
     after_begin ID_GET_EUI64 correlator_new (\<lambda>sq c.
       let (x, c1) = classify_bytes (callback_frame 0x40 ID_INCOMING_MESSAGE_HANDLER [0x01]) c;
           (a, c2) = classify_bytes (response_frame sq ID_GET_EUI64 (replicate 8 0xaa)) c1;
           (y, c3) = classify_bytes (callback_frame 0x41 ID_MESSAGE_SENT_HANDLER []) c2
       in (case x of Some (CallbackFrame i _) \<Rightarrow> i = ID_INCOMING_MESSAGE_HANDLER | _ \<Rightarrow> False) \<and> is_busy c1 \<and>
          (case a of Some (Answer ps) \<Rightarrow> length ps = 8 | _ \<Rightarrow> False) \<and> \<not> is_busy c2 \<and> was_callback y)"

lemma callback_between_test: a_callback_between_send_and_response_does_not_answer_the_command
  by (simp add: a_callback_between_send_and_response_does_not_answer_the_command_def correlator_eval)

definition a_callback_sharing_the_pending_sequence_is_still_a_callback :: bool where
  "a_callback_sharing_the_pending_sequence_is_still_a_callback =
     after_begin ID_GET_EUI64 correlator_new (\<lambda>sq c.
       let (x, c1) = classify_bytes (callback_frame sq ID_INCOMING_MESSAGE_HANDLER [0xff]) c
       in was_callback x \<and> is_busy c1)"

lemma sharing_sequence_test: a_callback_sharing_the_pending_sequence_is_still_a_callback
  by (simp add: a_callback_sharing_the_pending_sequence_is_still_a_callback_def correlator_eval)

definition a_response_with_the_wrong_frame_id_is_not_accepted :: bool where
  "a_response_with_the_wrong_frame_id_is_not_accepted =
     after_begin ID_GET_EUI64 correlator_new (\<lambda>sq c.
       let (wrong, c1) = classify_bytes (response_frame sq ID_VERSION [0x0d, 0x02, 0x44, 0x74]) c;
           (right, c2) = classify_bytes (response_frame sq ID_GET_EUI64 (replicate 8 0x11)) c1
       in was_stale wrong \<and> is_busy c1 \<and> was_answer right)"

lemma wrong_id_test: a_response_with_the_wrong_frame_id_is_not_accepted
  by (simp add: a_response_with_the_wrong_frame_id_is_not_accepted_def correlator_eval)

definition a_response_with_the_wrong_sequence_is_not_accepted :: bool where
  "a_response_with_the_wrong_sequence_is_not_accepted =
     after_begin ID_GET_EUI64 correlator_new (\<lambda>sq c.
       let (wrong, c1) = classify_bytes (response_frame (sq + 7) ID_GET_EUI64 (replicate 8 0x22)) c
       in was_stale wrong \<and> is_busy c1)"

lemma wrong_sequence_test: a_response_with_the_wrong_sequence_is_not_accepted
  by (simp add: a_response_with_the_wrong_sequence_is_not_accepted_def correlator_eval)

definition an_unexpected_sequence_then_the_right_one_resolves_correctly :: bool where
  "an_unexpected_sequence_then_the_right_one_resolves_correctly =
     after_begin ID_SET_POLICY correlator_new (\<lambda>sq c.
       let (a, c1) = classify_bytes (response_frame 0xfe ID_SET_POLICY [0x00]) c;
           (b, c2) = classify_bytes (callback_frame 0x02 ID_STACK_STATUS_HANDLER [0x90]) c1;
           (answer, c3) = classify_bytes (response_frame sq ID_SET_POLICY [0x00]) c2
       in a \<noteq> None \<and> b \<noteq> None \<and> is_busy c2 \<and> was_answer answer \<and> stale_frames c3 = 1)"

lemma unexpected_sequence_test: an_unexpected_sequence_then_the_right_one_resolves_correctly
  by (simp add: an_unexpected_sequence_then_the_right_one_resolves_correctly_def correlator_eval saturating_inc_def)

definition our_own_command_echoed_back_is_not_its_own_answer :: bool where
  "our_own_command_echoed_back_is_not_its_own_answer =
     after_begin ID_GET_EUI64 correlator_new (\<lambda>sq c.
       let (x, c1) = classify_bytes ([sq, 0x00, 0x01] @ le_bytes 2 (id_raw ID_GET_EUI64)) c
       in was_stale x \<and> is_busy c1)"

lemma echo_test: our_own_command_echoed_back_is_not_its_own_answer
  by (simp add: our_own_command_echoed_back_is_not_its_own_answer_def correlator_eval classify_bytes_def le_bytes_2
      parse_eval classify_def count_stale_def)

definition a_duplicate_response_does_not_answer_the_next_command :: bool where
  "a_duplicate_response_does_not_answer_the_next_command =
     after_begin ID_GET_EUI64 correlator_new (\<lambda>first c.
       let answer = response_frame first ID_GET_EUI64 (replicate 8 0x33); (a, c1) = classify_bytes answer c in
       a \<noteq> None \<and>
       after_begin ID_SET_POLICY c1 (\<lambda>second c2.
         let (x, c3) = classify_bytes answer c2 in first \<noteq> second \<and> was_stale x \<and> is_busy c3))"

lemma duplicate_response_test: a_duplicate_response_does_not_answer_the_next_command
  by (simp add: a_duplicate_response_does_not_answer_the_next_command_def correlator_eval)

definition a_second_concurrent_command_is_refused :: bool where
  "a_second_concurrent_command_is_refused =
     after_begin ID_GET_EUI64 correlator_new (\<lambda>_ c.
       case fst (begin_command ID_SET_POLICY c) of Inl (SequenceMismatch _) \<Rightarrow> True | _ \<Rightarrow> False)"

lemma second_command_test: a_second_concurrent_command_is_refused
  by (simp add: a_second_concurrent_command_is_refused_def correlator_eval)

definition a_timeout_names_the_command_that_was_waiting :: bool where
  "a_timeout_names_the_command_that_was_waiting =
     after_begin ID_NETWORK_INIT correlator_new (\<lambda>_ c.
       let (r, c1) = time_out c in r = Inl (Timeout ID_NETWORK_INIT) \<and> \<not> is_busy c1 \<and> succeeds (fst (time_out c1)))"

lemma timeout_test: a_timeout_names_the_command_that_was_waiting
  by (simp add: a_timeout_names_the_command_that_was_waiting_def correlator_eval time_out_def)

definition a_reset_while_pending_reports_the_loss_and_rewinds_the_sequence :: bool where
  "a_reset_while_pending_reports_the_loss_and_rewinds_the_sequence =
     after_begin ID_GET_EUI64 correlator_new (\<lambda>_ c.
       let (_, c1) = begin_command ID_GET_EUI64 c;
           (a, c2) = classify_bytes (response_frame 0 ID_GET_EUI64 (replicate 8 0x44)) c1
       in a \<noteq> None \<and>
          after_begin ID_SET_POLICY c2 (\<lambda>_ c3.
            let (r, c4) = on_ncp_reset c3
            in r = Inl (NcpReset ID_SET_POLICY) \<and> next_seq c4 = 0 \<and> \<not> is_busy c4))"

lemma reset_test: a_reset_while_pending_reports_the_loss_and_rewinds_the_sequence
  by (simp add: a_reset_while_pending_reports_the_loss_and_rewinds_the_sequence_def correlator_eval on_ncp_reset_def)

text \<open>The loop of the last test: a command and its answer, so many times.\<close>

fun answered_rounds :: "nat \<Rightarrow> correlator \<Rightarrow> correlator option" where
  "answered_rounds 0 c = Some c"
| "answered_rounds (Suc n) c =
     (case begin_command ID_GET_EUI64 c of
        (Inl _, _) \<Rightarrow> None
      | (Inr sq, c1) \<Rightarrow>
          (case classify_bytes (response_frame sq ID_GET_EUI64 (replicate 8 0)) c1 of
             (None, _) \<Rightarrow> None
           | (Some _, c2) \<Rightarrow> answered_rounds n c2))"

definition the_sequence_wraps_and_is_therefore_not_an_identifier_on_its_own :: bool where
  "the_sequence_wraps_and_is_therefore_not_an_identifier_on_its_own =
     (case answered_rounds 256 correlator_new of None \<Rightarrow> False | Some c \<Rightarrow> next_seq c = 0)"

lemma answered_rounds_count:
  "pending c = None \<Longrightarrow> answered_rounds n c = Some (c\<lparr>next_seq := next_seq c + word_of_nat n\<rparr>)"
  by (induction n arbitrary: c) (simp_all add: begin_command_def classify_response_frame Let_def add.assoc)

lemma sequence_wraps_test: the_sequence_wraps_and_is_therefore_not_an_identifier_on_its_own
  by (simp add: the_sequence_wraps_and_is_therefore_not_an_identifier_on_its_own_def answered_rounds_count correlator_new_def)

end
