(* ===== verification/TestsCommands.thy ===== *)
theory TestsCommands
  imports TestsTypes EzspMessaging EzspCallback
begin

text \<open>
  The unit tests of the callbacks (\<open>ezsp/callback.rs\<close>) and of the commands (\<open>ezsp/command.rs\<close>)
  over the model. \<open>encoded(&command, version)\<close> is \<open>written_by (params ..)\<close>.
\<close>

section \<open>Callbacks\<close>

lemmas callback_eval = callback_decode_def stack_status_decode_def trust_center_join_decode_def message_tag_decode_def
  message_sent_decode_def incoming_message_decode_def sl_status_decode_def node_id_decode_def eui64_decode_def
  aps_frame_decode_def from_wire_def has_wide_status_def has_wide_message_tag_def codec_eval

definition a_stack_status_callback_decodes_the_observed_values :: bool where
  "a_stack_status_callback_decodes_the_observed_values =
     list_all (\<lambda>b. callback_decode ID_STACK_STATUS_HANDLER [b] V13 = Inr (StackStatus (SlStatus (ucast b))))
       [0x90 :: u8, 0x9c]"

lemma stack_status_test: a_stack_status_callback_decodes_the_observed_values
  by (simp add: a_stack_status_callback_decodes_the_observed_values_def callback_eval)

definition a_trust_centre_join_decodes_a_real_capture :: bool where
  "a_trust_centre_join_decodes_a_real_capture =
     (callback_decode ID_TRUST_CENTER_JOIN_HANDLER
        (le_bytes 2 (25287 :: u16) @ to_wire (Eui64 0xa4c138142d62ffff) @ [0x00] @ [0x00] @ le_bytes 2 (0 :: u16)) V13 =
      Inr (TrustCenterJoin (NodeId 25287) (Eui64 0xa4c138142d62ffff) 0 0 COORDINATOR))"

lemma join_test: a_trust_centre_join_decodes_a_real_capture
  using callback_decode_wire [of V13 "TrustCenterJoin (NodeId 25287) (Eui64 0xa4c138142d62ffff) 0 0 COORDINATOR" "[]"]
  by (simp add: a_trust_centre_join_decodes_a_real_capture_def to_wire_def const_defs)

definition a_message_sent_report_is_read_from_the_right_offsets :: bool where
  "a_message_sent_report_is_read_from_the_right_offsets =
     (callback_decode ID_MESSAGE_SENT_HANDLER
        [0x00,
         0x41, 0x3a,
         0x04, 0x01, 0x06, 0x00, 0x01, 0x01, 0x40, 0x01, 0x00, 0x00, 0xda,
         0x01,
         0x00,
         0x03, 0x01, 0x42, 0x01] V13 =
      Inr (MessageSent 0 0x3a41
        \<lparr>profile_id = 0x0104, cluster_id = 0x0006, source_endpoint = 1, destination_endpoint = 1,
         options = ApsOptions 0x0140, group_id = 0, aps_sequence = 0xda\<rparr> 1 STATUS_OK [0x01, 0x42, 0x01]))"

lemma message_sent_test: a_message_sent_report_is_read_from_the_right_offsets
  by (simp add: a_message_sent_report_is_read_from_the_right_offsets_def callback_eval)

definition a_message_sent_tag_and_status_widen_together_at_ezsp_fourteen :: bool where
  "a_message_sent_tag_and_status_widen_together_at_ezsp_fourteen =
     (case callback_decode ID_MESSAGE_SENT_HANDLER
        ([0x00, 0x41, 0x3a] @
         [0x04, 0x01, 0x06, 0x00, 0x01, 0x01, 0x40, 0x01, 0x00, 0x00, 0xda] @
         [0x01, 0x00] @ [0x00, 0x00, 0x00, 0x00] @ [0x00]) (ProtocolVersion 0x0e) of
        Inr (MessageSent _ _ _ tag status message) \<Rightarrow> tag = 1 \<and> status = STATUS_OK \<and> message = []
      | _ \<Rightarrow> False)"

lemma widen_together_test: a_message_sent_tag_and_status_widen_together_at_ezsp_fourteen
  by (simp add: a_message_sent_tag_and_status_widen_together_at_ezsp_fourteen_def callback_eval)

definition an_unknown_callback_keeps_its_bytes_rather_than_failing :: bool where
  "an_unknown_callback_keeps_its_bytes_rather_than_failing =
     (callback_decode (FrameId 0x0999) [0xde, 0xad] V13 = Inr (UnknownCallback (FrameId 0x0999) [0xde, 0xad]))"

lemma unknown_callback_test: an_unknown_callback_keeps_its_bytes_rather_than_failing
  by (simp add: an_unknown_callback_keeps_its_bytes_rather_than_failing_def callback_eval)

definition a_truncated_known_callback_is_an_error_not_a_guess :: bool where
  "a_truncated_known_callback_is_an_error_not_a_guess =
     list_all (\<lambda>len. \<not> succeeds (callback_decode ID_TRUST_CENTER_JOIN_HANDLER (replicate len 0) V13)) [0..<14]"

lemma truncated_callback_test: a_truncated_known_callback_is_an_error_not_a_guess
  using refuses_shorter [OF trust_center_join_cb.ezsp_fixed_decode_axioms, of 14 V13]
  by (simp add: a_truncated_known_callback_is_an_error_not_a_guess_def callback_decode_def read_with_def const_defs Let_def)

definition an_incoming_message_decodes_a_real_capture :: bool where
  "an_incoming_message_decodes_a_real_capture =
     (case callback_decode ID_INCOMING_MESSAGE_HANDLER
        [0x00,
         0x04, 0x01, 0x11, 0xfc, 0x01, 0x01, 0x40, 0x01, 0x00, 0x00, 0x28,
         0xff,
         0xe2,
         0x41, 0x3a,
         0xff, 0xff,
         0x1e,
         0x18, 0xd6, 0x0a, 0x1f, 0x50, 0x48, 0x20, 0x15, 0x00, 0x02, 0x00, 0x01, 0x00, 0x32,
         0x2d, 0xc3, 0xf1, 0x32, 0x2d, 0xc6, 0x49, 0x32, 0x2d, 0xc4, 0x0b, 0x01, 0x00, 0x00,
         0x00, 0x00] V13 of
        Inr (IncomingMessage _ aps lqi rssi sender binding address message) \<Rightarrow>
          sender = NodeId 0x3a41 \<and> cluster_id aps = 0xfc11 \<and> lqi = 0xff \<and> sint rssi = - 30 \<and>
          (binding, address) = (0xff, 0xff) \<and> length message = 30 \<and> take 1 message = [0x18]
      | _ \<Rightarrow> False)"

lemma incoming_message_test: an_incoming_message_decodes_a_real_capture
  by (simp add: an_incoming_message_decodes_a_real_capture_def callback_eval)

section \<open>Commands\<close>

lemmas encode_eval = eui64_encode_def security_key_encode_def aps_frame_encode_def network_parameters_encode_def
  security_man_context_encode_def unicast_type_encode_def message_tag_encode_def writer_length_prefixed_def
  has_wide_message_tag_def has_transient_key_flags_def to_wire_def codec_eval

definition version_is_available_even_on_a_version_we_cannot_speak :: bool where
  "version_is_available_even_on_a_version_we_cannot_speak =
     (available (version_command (Version PREFERRED)) (ProtocolVersion 0x04) \<and>
      \<not> available (get_eui64_command GetEui64) (ProtocolVersion 0x04))"

lemma version_available_test: version_is_available_even_on_a_version_we_cannot_speak
  by code_simp

definition the_transient_key_flags_byte_appears_only_below_ezsp_fourteen :: bool where
  "the_transient_key_flags_byte_appears_only_below_ezsp_fourteen =
     (let command = import_transient_key_command
        \<lparr>itk_eui64 = EUI64_WILDCARD, itk_key = ZIGBEE_ALLIANCE_09, itk_flags = MAN_FLAGS_NONE\<rparr> in
      case (written_by (params command) V13, written_by (params command) V14) of
        (Some v13, Some v14) \<Rightarrow>
          length v13 = 25 \<and> take 8 v13 = replicate 8 0xff \<and> take 16 (drop 8 v13) = ascii ''ZigBeeAlliance09'' \<and>
          v13 ! 24 = 0x00 \<and>
          length v14 = 24 \<and> take 8 v14 = replicate 8 0xff \<and> drop 8 v14 = ascii ''ZigBeeAlliance09''
      | _ \<Rightarrow> False)"

lemma transient_key_test: the_transient_key_flags_byte_appears_only_below_ezsp_fourteen
proof -
  have "to_wire EUI64_WILDCARD = replicate 8 0xff" "expose ZIGBEE_ALLIANCE_09 = ascii ''ZigBeeAlliance09''" by code_simp+
  moreover have "length (ascii ''ZigBeeAlliance09'') = 16" by (simp add: ascii_def)
  ultimately show ?thesis
    by (simp add: the_transient_key_flags_byte_appears_only_below_ezsp_fourteen_def import_transient_key_command_def
        import_transient_key_encode_def eui64_encode_def security_key_encode_def has_transient_key_flags_def nth_append codec_eval)
qed

definition the_unicast_message_tag_widens_at_ezsp_fourteen :: bool where
  "the_unicast_message_tag_widens_at_ezsp_fourteen =
     (let command = send_unicast_command
        \<lparr>su_unicast_type = Direct, index_or_destination = 0x1234,
         su_aps_frame = \<lparr>profile_id = 0, cluster_id = 0, source_endpoint = 0, destination_endpoint = 0,
           options = ApsOptions 0, group_id = 0, aps_sequence = 0\<rparr>,
         su_message_tag = 0x00ab, su_message = [0xde, 0xad]\<rparr> in
      case (written_by (params command) V13, written_by (params command) V14) of
        (Some v13, Some v14) \<Rightarrow>
          length v14 = length v13 + 1 \<and> length v14 > 16 \<and>
          v13 ! 14 = 0xab \<and> v13 ! 15 = 0x02 \<and> take 2 (drop 14 v14) = [0xab, 0x00] \<and> v14 ! 16 = 0x02
      | _ \<Rightarrow> False)"

lemma unicast_tag_test: the_unicast_message_tag_widens_at_ezsp_fourteen
  by (simp add: the_unicast_message_tag_widens_at_ezsp_fourteen_def send_unicast_command_def send_unicast_encode_def encode_eval)

definition add_endpoint_sends_both_counts_before_either_list :: bool where
  "add_endpoint_sends_both_counts_before_either_list =
     (written_by (params (add_endpoint_command
        \<lparr>endpoint = 1, ep_profile_id = 0x0104, device_id = 0x0065, app_flags = 0,
         input_clusters = [0x0000, 0x0006], output_clusters = [0x0019]\<rparr>)) V13 =
      Some [0x01,
            0x04, 0x01,
            0x65, 0x00,
            0x00,
            0x02,
            0x01,
            0x00, 0x00, 0x06, 0x00,
            0x19, 0x00])"

lemma both_counts_test: add_endpoint_sends_both_counts_before_either_list
  by (simp add: add_endpoint_sends_both_counts_before_either_list_def add_endpoint_command_def add_endpoint_encode_def
      count_u8_def encode_eval)

definition permit_joining_clamps_away_from_the_forever_value :: bool where
  "permit_joining_clamps_away_from_the_forever_value =
     (duration (for_seconds 60) = 60 \<and> duration (for_seconds 254) = 254 \<and> duration (for_seconds 255) = 254 \<and>
      duration permit_close = 0 \<and>
      written_by (params (permit_joining_command (PermitJoining 255))) V13 = Some [0xff])"

lemma clamp_test: permit_joining_clamps_away_from_the_forever_value
  by (simp add: permit_joining_clamps_away_from_the_forever_value_def for_seconds_def permit_close_def const_defs
      permit_joining_command_def permit_joining_encode_def encode_eval)

definition permit_joining_encodes_one_byte_and_reads_a_versioned_status :: bool where
  "permit_joining_encodes_one_byte_and_reads_a_versioned_status =
     (written_by (params (permit_joining_command (for_seconds 240))) V13 = Some [0xf0] \<and>
      yields (fst (read_with permit_joining_response_decode [0x00] V13)) (\<lambda>r. is_ok (permit_status r)) \<and>
      \<not> succeeds (fst (read_with permit_joining_response_decode [0x00] V14)))"

lemma permit_joining_test: permit_joining_encodes_one_byte_and_reads_a_versioned_status
  by (simp add: permit_joining_encodes_one_byte_and_reads_a_versioned_status_def for_seconds_def is_ok_def const_defs
      permit_joining_command_def permit_joining_encode_def permit_joining_response_decode_def callback_eval)

definition a_status_response_reads_the_right_width_for_its_version :: bool where
  "a_status_response_reads_the_right_width_for_its_version =
     (let bs = [0x00, 0x27, 0x00, 0x00] in
      yields (fst (read_with send_unicast_response_decode bs V13))
        (\<lambda>r. su_status r = STATUS_OK \<and> su_aps_sequence r = 0x27) \<and>
      \<not> succeeds (fst (read_with send_unicast_response_decode bs V14)))"

lemma status_response_test: a_status_response_reads_the_right_width_for_its_version
  by (simp add: a_status_response_reads_the_right_width_for_its_version_def send_unicast_response_decode_def callback_eval)

definition a_version_response_decodes_the_negotiated_version :: bool where
  "a_version_response_decodes_the_negotiated_version =
     yields (fst (read_with version_response_decode [0x0d, 0x02, 0x44, 0x74] (ProtocolVersion 0x04)))
       (\<lambda>r. protocol_version r = V13 \<and> stack_type r = 2 \<and> stack_version r = 0x7444)"

lemma version_response_test: a_version_response_decodes_the_negotiated_version
  by (simp add: a_version_response_decodes_the_negotiated_version_def version_response_decode_def callback_eval)

definition a_truncated_response_is_an_error_not_a_default :: bool where
  "a_truncated_response_is_an_error_not_a_default =
     list_all (\<lambda>len. \<not> succeeds (fst (read_with version_response_decode (replicate len 0) (ProtocolVersion 0x04)))) [0..<4]"

lemma truncated_response_test: a_truncated_response_is_an_error_not_a_default
  using refuses_shorter [OF version_answer.ezsp_fixed_decode_axioms, of 4]
  by (simp add: a_truncated_response_is_an_error_not_a_default_def)

definition an_endpoint_with_too_many_clusters_is_refused_not_truncated :: bool where
  "an_endpoint_with_too_many_clusters_is_refused_not_truncated =
     (case fst (params (add_endpoint_command
        \<lparr>endpoint = 1, ep_profile_id = 0x0104, device_id = 0x0065, app_flags = 0,
         input_clusters = replicate 300 0x0000, output_clusters = []\<rparr>) (writer_new V13)) of
        Inl (PayloadTooLong _ _) \<Rightarrow> True
      | _ \<Rightarrow> False)"

lemma too_many_clusters_test: an_endpoint_with_too_many_clusters_is_refused_not_truncated
  by (simp add: an_endpoint_with_too_many_clusters_is_refused_not_truncated_def add_endpoint_command_def
      add_endpoint_encode_def count_u8_def encode_eval)

definition export_key_reads_the_key_before_the_status :: bool where
  "export_key_reads_the_key_before_the_status =
     (let (r, input) = read_with export_key_response_decode (replicate 16 0xab @ [0x00, 0x00, 0x00, 0x00]) V13
      in yields r (\<lambda>x. is_ok (ek_status x) \<and> expose (ek_key x) = replicate 16 0xab) \<and> reader_is_empty input)"

lemmas export_key_eval = export_key_response_decode_def security_key_decode_def is_ok_def callback_eval

lemma key_before_status_test: export_key_reads_the_key_before_the_status
  by (simp add: export_key_reads_the_key_before_the_status_def export_key_eval)

definition export_key_status_is_four_bytes_even_on_v13 :: bool where
  "export_key_status_is_four_bytes_even_on_v13 =
     (let (r, input) = read_with export_key_response_decode (replicate 16 0x00 @ [0x02, 0x00, 0x00, 0x00]) V13
      in yields r (\<lambda>x. ek_status x = SlStatus 0x02) \<and> reader_is_empty input)"

lemma wide_key_status_test: export_key_status_is_four_bytes_even_on_v13
  by (simp add: export_key_status_is_four_bytes_even_on_v13_def export_key_eval)

definition export_key_asks_for_the_network_key_in_the_documented_layout :: bool where
  "export_key_asks_for_the_network_key_in_the_documented_layout =
     (written_by (params (export_key_command (ExportKey network_key_context))) V13 =
      Some [0x01,
            0x00,
            0x00,
            0x00, 0x00, 0x00, 0x00, 0x00, 0x00, 0x00, 0x00,
            0x00,
            0x00,
            0x00, 0x00, 0x00, 0x00])"

lemma network_key_test: export_key_asks_for_the_network_key_in_the_documented_layout
proof -
  have "to_wire (Eui64 0) = replicate 8 0" by code_simp
  then show ?thesis
    by (simp add: export_key_asks_for_the_network_key_in_the_documented_layout_def export_key_command_def export_key_encode_def
        security_man_context_encode_def network_key_context_def eui64_encode_def codec_eval numeral_eq_Suc)
qed

definition network_parameters_round_trip_through_the_wire_layout :: bool where
  "network_parameters_round_trip_through_the_wire_layout =
     (let ps = \<lparr>extended_pan_id = [0x11, 0x22, 0x33, 0x44, 0x55, 0x66, 0x77, 0x88], pan_id = 0x1a62,
            radio_tx_power = - 3, radio_channel = 15, join_method = 0, nwk_manager_id = 0x0000,
            nwk_update_id = 7, channels = 0x07fff800\<rparr> in
      case written_by (network_parameters_encode ps) V13 of
        None \<Rightarrow> False
      | Some bs \<Rightarrow>
          (let (decoded, input) = read_with network_parameters_decode bs V13
           in length bs = 8 + 2 + 1 + 1 + 1 + 2 + 1 + 4 \<and> bs ! 10 = 0xfd \<and>
              yields decoded (\<lambda>d. d = ps \<and> sint (radio_tx_power d) = - 3) \<and> reader_is_empty input))"

lemma network_parameters_test: network_parameters_round_trip_through_the_wire_layout
  by (simp add: network_parameters_round_trip_through_the_wire_layout_def network_parameters_decode_def encode_eval)

definition get_network_parameters_decodes_a_coordinator_on_a_network :: bool where
  "get_network_parameters_decodes_a_coordinator_on_a_network =
     (let bs = [0x00, 0x01] @
            [0x11, 0x22, 0x33, 0x44, 0x55, 0x66, 0x77, 0x88] @
            [0x62, 0x1a] @
            [0x00, 0x0f, 0x00] @
            [0x00, 0x00, 0x00] @
            [0x00, 0xf8, 0xff, 0x07];
          (r, input) = read_with get_network_parameters_response_decode bs V13
      in yields r (\<lambda>x. is_ok (gnp_status x) \<and> node_type x = 1 \<and> pan_id (gnp_parameters x) = 0x1a62 \<and>
            radio_channel (gnp_parameters x) = 15) \<and> reader_is_empty input)"

lemma coordinator_test: get_network_parameters_decodes_a_coordinator_on_a_network
  by (simp add: get_network_parameters_decodes_a_coordinator_on_a_network_def get_network_parameters_response_decode_def
      network_parameters_decode_def is_ok_def callback_eval)

definition a_broadcast_message_tag_follows_the_same_boundary_as_a_unicast :: bool where
  "a_broadcast_message_tag_follows_the_same_boundary_as_a_unicast =
     (let command = send_broadcast_command
        \<lparr>sb_destination = BROADCAST_RX_ON_WHEN_IDLE,
         sb_aps_frame = \<lparr>profile_id = 0x0000, cluster_id = 0x0036, source_endpoint = 0, destination_endpoint = 0,
           options = ApsOptions 0x0000, group_id = 0, aps_sequence = 0\<rparr>,
         radius = 0, sb_message_tag = 0x0001, sb_message = [0x42]\<rparr> in
      map_option length (written_by (params command) V13) = Some (2 + 11 + 1 + 1 + 1 + 1) \<and>
      map_option length (written_by (params command) V14) = Some (2 + 11 + 1 + 2 + 1 + 1))"

lemma broadcast_tag_test: a_broadcast_message_tag_follows_the_same_boundary_as_a_unicast
  by (simp add: a_broadcast_message_tag_follows_the_same_boundary_as_a_unicast_def send_broadcast_command_def
      send_broadcast_encode_def encode_eval)

definition commands_that_answer_with_nothing_decode_an_empty_response :: bool where
  "commands_that_answer_with_nothing_decode_an_empty_response =
     (succeeds (fst (read_with clear_transient_link_keys_response_decode [] V13)) \<and>
      succeeds (fst (read_with set_manufacturer_code_response_decode [] V13)))"

lemma empty_response_test: commands_that_answer_with_nothing_decode_an_empty_response
  by (simp add: commands_that_answer_with_nothing_decode_an_empty_response_def clear_transient_link_keys_response_decode_def
      set_manufacturer_code_response_decode_def codec_eval)

definition get_configuration_value_reads_the_status_at_the_version_width :: bool where
  "get_configuration_value_reads_the_status_at_the_version_width =
     (let (r1, in1) = read_with get_configuration_value_response_decode [0x00, 0x02, 0x00] V13;
          (r2, in2) = read_with get_configuration_value_response_decode [0x00, 0x00, 0x00, 0x00, 0x02, 0x00] V14
      in yields r1 (\<lambda>x. is_ok (gcv_status x) \<and> gcv_value x = 2) \<and> reader_is_empty in1 \<and>
         yields r2 (\<lambda>x. gcv_value x = 2) \<and> reader_is_empty in2)"

lemma configuration_value_test: get_configuration_value_reads_the_status_at_the_version_width
  by (simp add: get_configuration_value_reads_the_status_at_the_version_width_def
      get_configuration_value_response_decode_def is_ok_def callback_eval)

definition get_value_hands_back_its_bytes_through_the_length_prefix :: bool where
  "get_value_hands_back_its_bytes_through_the_length_prefix =
     (let (r, input) = read_with get_value_response_decode [0x00, 0x04, 0x07, 0x04, 0x04, 0x00] V13
      in yields r (\<lambda>x. is_ok (gv_status x) \<and> gv_value x = [0x07, 0x04, 0x04, 0x00]) \<and> reader_is_empty input)"

lemma get_value_test: get_value_hands_back_its_bytes_through_the_length_prefix
  by (simp add: get_value_hands_back_its_bytes_through_the_length_prefix_def get_value_response_decode_def
      is_ok_def callback_eval)

definition the_new_responses_refuse_truncated_input_rather_than_guessing :: bool where
  "the_new_responses_refuse_truncated_input_rather_than_guessing =
     (list_all (\<lambda>len. \<not> succeeds (fst (read_with export_key_response_decode (replicate len 0) V13))) [0..<19] \<and>
      list_all (\<lambda>len. \<not> succeeds (fst (read_with get_network_parameters_response_decode (replicate len 0) V13))) [0..<18])"

lemma truncated_responses_test: the_new_responses_refuse_truncated_input_rather_than_guessing
  using refuses_shorter [OF export_key_answer.ezsp_fixed_decode_axioms, of 19 V13]
    refuses_shorter [OF get_network_parameters_answer.ezsp_fixed_decode_axioms, of 18 V13]
  by (simp add: the_new_responses_refuse_truncated_input_rather_than_guessing_def status_width_def has_wide_status_def const_defs)

end
