(* ===== verification/Spec2Isabelle.thy ===== *)
theory Spec2Isabelle
  imports EzspLayout NcpReplies NcpStall Captures Fuzz Startup TestsEzsp TestsCommands
begin

text \<open>
  A verification development for \<open>rsezsp\<close>, a host library for Silicon Labs Zigbee coprocessors
  (NCPs). The library talks to the NCP over a serial line in two layers: ASH, a link protocol with
  framing, a CRC, a window of seven frames and acknowledgements (\<open>src/src/ash\<close>), and EZSP, commands
  with answers and callbacks (\<open>src/src/ezsp\<close>, with the types of their fields in \<open>src/src/types\<close>).
  The runtime \<open>Ncp\<close> (\<open>src/src/ncp.rs\<close>) drives both over a transport (\<open>src/src/transport\<close>): it
  reads bytes, gives them to the ASH decoder, the frames that come out to the ASH connection, the
  payloads of data frames to the correlator, and the answer that the correlator recognises to the
  command that waits for it. \<open>src/examples/startup.rs\<close> is an application on top of it.

  \<^bold>\<open>The theories and the code.\<close>

  \<^item> \<open>Prelude\<close>: lists of bytes and words, little-endian bytes, and \<open>action\<close>, a function from a state
    to a result and a new state. A \<open>&mut self\<close> method that returns \<open>Result\<close> is an action, \<open>?\<close> is
    \<open>andthen\<close>, and an error keeps the state that the code leaves behind.
  \<^item> \<open>AshError\<close>, \<open>AshFrame\<close>, \<open>AshCodec\<close>, \<open>AshDecoder\<close>, \<open>AshConnection\<close>: \<open>ash/error.rs\<close>, \<open>ash/frame.rs\<close>,
    the encoder and the decoder of \<open>ash/codec.rs\<close>, and \<open>ash/state.rs\<close>, every method of it. \<open>u8\<close> and
    \<open>u16\<close> are words, so that sums wrap where the code wraps. \<open>AshLink\<close> composes two connections and
    a line between them that may lose and garble frames but keeps their order.
  \<^item> \<open>EzspBase\<close>, \<open>EzspCodec\<close>, \<open>EzspFrame\<close>: versions, frame ids, errors and status values
    (\<open>ezsp/version.rs\<close>, \<open>ezsp/error.rs\<close>, parts of \<open>ezsp/frame.rs\<close> and \<open>types/status.rs\<close>), the reader
    and the writer (\<open>ezsp/codec.rs\<close>), the headers (\<open>ezsp/frame.rs\<close>). \<open>TypesNetwork\<close>, \<open>TypesAps\<close>,
    \<open>TypesSecurity\<close>: \<open>types/*.rs\<close> with their codecs. \<open>EzspCommand\<close>, \<open>EzspMessaging\<close>: the commands of
    \<open>ezsp/command.rs\<close>, each as a record of what the trait \<open>Command\<close> gives the runtime.
    \<open>EzspCallback\<close>: \<open>ezsp/callback.rs\<close>. \<open>Correlation\<close>: \<open>ezsp/correlation.rs\<close>.
  \<^item> \<open>Transport\<close>: the trait \<open>Transport\<close> as a record of two functions on a transport state, and the
    scripted transport of \<open>transport/fake.rs\<close>. \<open>Serial\<close>: \<open>transport/serial.rs\<close> over the stream of
    \<open>tokio-serial\<close>, which is a parameter.
  \<^item> \<open>Ncp\<close>: \<open>ncp.rs\<close>, the state as the record \<open>ncp\<close> and every method, generic in the transport.
    \<open>NcpRun\<close> follows a call through the read loop; \<open>NcpCommand\<close> holds the properties of one command,
    \<open>NcpSession\<close> those of sequences of calls and of \<open>connect\<close>, \<open>NcpWire\<close> those of the reset and of the
    bytes written, \<open>NcpReplies\<close> when the runtime writes at all, over a transport that records its
    calls, \<open>NcpCallbacks\<close> the queue of callbacks. \<open>NcpLive\<close>, \<open>NcpConnect\<close>, \<open>NcpTimeout\<close> and
    \<open>NcpConversation\<close> show what is certain to complete, over the scripted transport: a command that
    is answered, \<open>connect\<close>, a command that is not answered, and any number of commands in turn.
    \<open>NcpLink\<close> puts the runtime at one end of a line that loses and garbles frames, with a second
    ASH connection of the same code in the place of the NCP's at the other; \<open>NcpStall\<close> follows a
    request that this line loses.
  \<^item> \<open>EzspLayout\<close>: the bytes of requests and answers, over \<open>Ncp\<close>. \<open>Texts\<close>: \<open>Display\<close> and \<open>Debug\<close> of the
    types that are printed and the messages of both errors. \<open>Startup\<close>: \<open>examples/startup.rs\<close> with what
    it prints.
  \<^item> \<open>Scenarios\<close>, \<open>Outside\<close>, \<open>Captures\<close>, \<open>Fuzz\<close>: \<open>tests/correlation_over_transport.rs\<close>, the commands
    defined outside the crate (the example in \<open>lib.rs\<close>, \<open>tests/extending_from_outside.rs\<close>),
    \<open>tests/hardware_regression.rs\<close> and \<open>fuzz/fuzz_targets\<close>. What the tests build is a definition and
    what they assert a lemma, general where the test picks a value that does not matter. \<open>Outside\<close> also
    has the first example of \<open>lib.rs\<close>.
  \<^item> \<open>TestsAsh\<close>, \<open>TestsTypes\<close>, \<open>TestsEzsp\<close>, \<open>TestsCommands\<close>: the unit tests in the modules \<open>tests\<close> of the
    source files, each as a truth value that is computed as the test computes it and that holds.

  \<^bold>\<open>What the lemmas show.\<close>

  \<^item> ASH: the parser of frames is the inverse of the packing up to a reserved bit; the incremental
    decoder computes, for each piece between two flags, a function without state, recovers what
    was encoded after any noise and however the stream is divided, never delivers what was not on
    the wire, and rejects bursts of errors on the wire that spare the framing; the connection keeps
    its window and its bounds; two connections over a bad line deliver a prefix of what was
    submitted, and recover, and forget nothing until a reset, which forgets the queue.
  \<^item> EZSP: the layouts of headers, requests, answers and callbacks, as equations or round trips for
    every version; which answers are refused under a version with another status width (those of
    the twelve commands with a status and fixed fields) and which are not; an answer is given to
    the command that asked, once.
  \<^item> The runtime: every reachable state is well formed; a command returns its own answer, and
    returns it when it is on its way; what it leaves behind when it fails; the legacy header is
    used once; \<open>connect\<close> ends with a version that both sides know, and succeeds when the NCP
    answers; commands awaited in turn all succeed, however many there are, and one that is not
    answered ends with \<open>Timeout\<close> and leaves the connection usable;
    callbacks are queued in order; keys are not logged; over a bad line the runtime hears what
    the NCP submitted and the NCP gets the requests as they are logged, both in order; nothing is
    written a second time but for a NAK. Some properties state behaviour that differs from the
    documentation of the code; the findings of the manifest name them.

  \<^bold>\<open>Interfaces.\<close> Each locale is interpreted on the definitions of the model: \<open>byte_pipe\<close> (what the
  runtime relies on of a transport) by the scripted transport, and shown of the serial one under
  the documented behaviour of its stream; \<open>line_condition\<close> (a property that the moves of a line and of its ends
  preserve) and \<open>ash_line\<close> (a transport that is such a line between two ASH
  connections) by a transport that follows an arbitrary script of losses, garblings and moves of
  the NCP, and again by one that garbles nothing, with the property that a request is missing; \<open>ezsp_decode\<close>, \<open>ezsp_fixed_decode\<close>, \<open>ezsp_encode\<close> and
  \<open>ezsp_codec\<close> (decoders stay in the frame; an answer has one width per version; what is written
  is read back) by the decoders of answers and callbacks and the codecs of the types; \<open>ezsp_command\<close> by every command; \<open>loop_invariant\<close>, \<open>session_invariant\<close>, \<open>reset_invariant\<close>
  and \<open>lifetime_invariant\<close> (what an invariant of the runtime has to keep) by the invariants used.

  \<^bold>\<open>Time.\<close> A deadline is the number of turns of the read loop, or of polls, that it leaves time for;
  it is an argument of every function that waits, and \<open>reset\<close>, which waits several times, has one
  per attempt. Safety properties hold for every number. Properties that something completes say
  which number is enough: as many turns as there are reads on their way. A read that stays pending
  until the deadline is the result \<open>ReadPending\<close>. No other recursion has fuel: the decoder, the
  retransmissions and the attempts of a reset are bounded by their input or by constants.

  \<^bold>\<open>Not modelled.\<close> Log lines other than those about frames sent and received; \<open>Debug\<close> of types that
  nothing prints; the values of the two timeouts; allocation, and the asynchronous
  executor, since a method holds the runtime exclusively and its awaits do not interleave with
  another. The streams of \<open>tokio-serial\<close> are a parameter, and so are the clock and the arguments of the
  process. The engine of the fuzz targets is not part of the repository. \<open>mod.rs\<close> files hold no code.

  \<^bold>\<open>What is left.\<close> \<open>AshLink\<close> and \<open>NcpLink\<close> start after a reset and contain none: the RST and RSTACK
  frames of a reset on a lossy line, with the NCP's side of the handshake, are not modelled,
  because the code has no NCP side of it. The conversations of \<open>NcpConversation\<close> have an NCP that
  acknowledges a command with its answer; one that delays its acknowledgements is bounded by the
  window and is covered by the safety properties only.
\<close>

end
